(* ===== verification/Prelude.thy ===== *)
theory Prelude
  imports Main "HOL-Library.Char_ord" "HOL-Library.List_Lexorder"
begin

text \<open>
  Shared vocabulary of the development: the collections its proofs draw on, the JavaScript
  \<open>Map\<close> and \<open>Set\<close> (insertion-ordered association lists and lists without repetition), index
  scans over strings, and the string helpers of the standard library that several components
  call (\<open>trim\<close>, \<open>startsWith\<close>, \<open>split\<close>, \<open>join\<close>).

  A JavaScript string is a sequence of code units; here it is a \<open>string\<close>, so the code units
  range over the 256 values of \<open>char\<close>. No operation of the modelled code looks at a code unit
  above that range, except Unicode case mapping and collation, which are parameters.
\<close>

named_theorems map_simps \<open>facts about insertion-ordered maps and sets\<close>
named_theorems scan_simps \<open>facts about index scans\<close>

section \<open>Results\<close>

text \<open>A raised error is \<open>Inl\<close>; \<open>bindE\<close> runs the next statement unless one was raised.\<close>

definition bindE :: "'e + 'a \<Rightarrow> ('a \<Rightarrow> 'e + 'b) \<Rightarrow> 'e + 'b" where
  "bindE m f = (case m of Inl e \<Rightarrow> Inl e | Inr x \<Rightarrow> f x)"

lemma bindE_simps [simp]: "bindE (Inl e) f = Inl e" "bindE (Inr x) f = f x"
  by (simp_all add: bindE_def)

lemma bindE_Inr_iff: "bindE m f = Inr y \<longleftrightarrow> (\<exists>x. m = Inr x \<and> f x = Inr y)"
  by (cases m) auto

lemma bindE_Inl_iff: "bindE m f = Inl e \<longleftrightarrow> m = Inl e \<or> (\<exists>x. m = Inr x \<and> f x = Inl e)"
  by (cases m) auto

lemma bindE_cong [fundef_cong]:
  "m = m' \<Longrightarrow> (\<And>x. m' = Inr x \<Longrightarrow> f x = f' x) \<Longrightarrow> bindE m f = bindE m' f'"
  by (cases m') auto

lemma bindE_splits:
  "P (bindE m f) \<longleftrightarrow> (\<forall>e. m = Inl e \<longrightarrow> P (Inl e)) \<and> (\<forall>x. m = Inr x \<longrightarrow> P (f x))"
  by (cases m) auto

section \<open>Insertion-ordered maps\<close>

type_synonym ('k, 'v) jmap = "('k \<times> 'v) list"

text \<open>\<open>Map.set\<close>: an existing key keeps its place, a new key goes to the end.\<close>

fun jput :: "'k \<Rightarrow> 'v \<Rightarrow> ('k, 'v) jmap \<Rightarrow> ('k, 'v) jmap" where
  "jput k v [] = [(k, v)]"
| "jput k v ((k', v') # m) = (if k' = k then (k', v) # m else (k', v') # jput k v m)"

definition jkeys :: "('k, 'v) jmap \<Rightarrow> 'k list" where
  "jkeys m = map fst m"

definition jvals :: "('k, 'v) jmap \<Rightarrow> 'v list" where
  "jvals m = map snd m"

definition jhas :: "('k, 'v) jmap \<Rightarrow> 'k \<Rightarrow> bool" where
  "jhas m k = (map_of m k \<noteq> None)"

text \<open>\<open>map.get(k) ?? d\<close>.\<close>

definition jget_or :: "'v \<Rightarrow> ('k, 'v) jmap \<Rightarrow> 'k \<Rightarrow> 'v" where
  "jget_or d m k = (case map_of m k of None \<Rightarrow> d | Some v \<Rightarrow> v)"

lemma map_of_jput [simp, map_simps]: "map_of (jput k v m) = (map_of m)(k \<mapsto> v)"
  by (induction m) (auto simp: fun_eq_iff)

lemma jkeys_Nil [simp, map_simps]: "jkeys [] = []"
  by (simp add: jkeys_def)

lemma jkeys_Cons [simp, map_simps]: "jkeys (kv # m) = fst kv # jkeys m"
  by (simp add: jkeys_def)

lemma jkeys_jput:
  "jkeys (jput k v m) = (if k \<in> set (jkeys m) then jkeys m else jkeys m @ [k])"
  by (induction k v m rule: jput.induct) auto

lemma set_jkeys_jput [simp, map_simps]: "set (jkeys (jput k v m)) = insert k (set (jkeys m))"
  by (simp add: jkeys_jput insert_absorb)

lemma distinct_jput [simp, map_simps]: "distinct (jkeys (jput k v m)) = distinct (jkeys m)"
  by (simp add: jkeys_jput)

lemma jhas_iff [map_simps]: "jhas m k \<longleftrightarrow> k \<in> set (jkeys m)"
  by (induction m) (auto simp: jhas_def)

lemma jget_or_jput [simp, map_simps]:
  "jget_or d (jput k v m) k' = (if k' = k then v else jget_or d m k')"
  by (simp add: jget_or_def)

lemma jget_or_Nil [simp, map_simps]: "jget_or d [] k = d"
  by (simp add: jget_or_def)

text \<open>
  The contract of such a map, as the clients of \<open>Map\<close> use it: what a lookup returns after a
  write, and that writes keep the key order.
\<close>

locale ordered_map =
  fixes empty :: "'m"
    and put :: "'k \<Rightarrow> 'v \<Rightarrow> 'm \<Rightarrow> 'm"
    and lookup :: "'m \<Rightarrow> 'k \<Rightarrow> 'v option"
    and keys :: "'m \<Rightarrow> 'k list"
  assumes lookup_empty: "lookup empty k = None"
    and lookup_put: "lookup (put k v m) k' = (if k' = k then Some v else lookup m k')"
    and keys_empty: "keys empty = []"
    and keys_put: "keys (put k v m) = (if k \<in> set (keys m) then keys m else keys m @ [k])"
begin

definition put_all :: "('k \<times> 'v) list \<Rightarrow> 'm \<Rightarrow> 'm" where
  "put_all kvs m = fold (\<lambda>(k, v) m. put k v m) kvs m"

lemma put_all_simps [simp]:
  "put_all [] m = m"
  "put_all ((k, v) # kvs) m = put_all kvs (put k v m)"
  by (simp_all add: put_all_def)

lemma set_keys_put: "set (keys (put k v m)) = insert k (set (keys m))"
  by (auto simp: keys_put)

lemma set_keys_put_all: "set (keys (put_all kvs m)) = set (keys m) \<union> fst ` set kvs"
proof (induction kvs arbitrary: m)
  case (Cons kv kvs)
  then show ?case by (cases kv) (simp add: set_keys_put)
qed simp

lemma distinct_keys_put_all: "distinct (keys m) \<Longrightarrow> distinct (keys (put_all kvs m))"
  by (induction kvs arbitrary: m) (auto simp: keys_put)

lemma lookup_put_all_other:
  "k \<notin> fst ` set kvs \<Longrightarrow> lookup (put_all kvs m) k = lookup m k"
  by (induction kvs arbitrary: m) (auto simp: lookup_put)

lemma lookup_put_all_distinct:
  "distinct (map fst kvs) \<Longrightarrow> (k, v) \<in> set kvs \<Longrightarrow> lookup (put_all kvs m) k = Some v"
proof (induction kvs arbitrary: m)
  case Nil
  then show ?case by simp
next
  case (Cons kv kvs)
  obtain k' v' where kv: "kv = (k', v')" by (cases kv)
  show ?case
  proof (cases "(k, v) = kv")
    case True
    with Cons.prems kv have "k \<notin> fst ` set kvs" by auto
    with True kv show ?thesis by (simp add: lookup_put_all_other lookup_put)
  next
    case False
    with Cons show ?thesis by (auto simp: kv)
  qed
qed

end

interpretation jmap: ordered_map "[]" jput map_of jkeys
  by unfold_locales (auto simp: jkeys_jput)

section \<open>Insertion-ordered sets\<close>

definition jadd :: "'a \<Rightarrow> 'a list \<Rightarrow> 'a list" where
  "jadd x xs = (if x \<in> set xs then xs else xs @ [x])"

text \<open>\<open>new Set(xs)\<close>, in iteration order.\<close>

definition jset_of :: "'a list \<Rightarrow> 'a list" where
  "jset_of xs = fold jadd xs []"

lemma set_jadd [simp, map_simps]: "set (jadd x xs) = insert x (set xs)"
  by (auto simp: jadd_def)

lemma distinct_jadd [simp, map_simps]: "distinct (jadd x xs) = distinct xs"
  by (auto simp: jadd_def)

lemma set_fold_jadd [simp, map_simps]: "set (fold jadd xs ys) = set xs \<union> set ys"
  by (induction xs arbitrary: ys) auto

lemma distinct_fold_jadd [simp, map_simps]: "distinct (fold jadd xs ys) = distinct ys"
  by (induction xs arbitrary: ys) auto

lemma set_jset_of [simp, map_simps]: "set (jset_of xs) = set xs"
  by (simp add: jset_of_def)

lemma distinct_jset_of [simp, map_simps]: "distinct (jset_of xs)"
  by (simp add: jset_of_def)

lemma fold_jadd_distinct:
  "distinct xs \<Longrightarrow> set xs \<inter> set ys = {} \<Longrightarrow> fold jadd xs ys = ys @ xs"
  by (induction xs arbitrary: ys) (auto simp: jadd_def)

lemma jset_of_distinct [simp]: "distinct xs \<Longrightarrow> jset_of xs = xs"
  by (simp add: jset_of_def fold_jadd_distinct)

section \<open>Index scans\<close>

text \<open>\<open>s[i]\<close>, undefined out of range.\<close>

definition char_at :: "'a list \<Rightarrow> nat \<Rightarrow> 'a option" where
  "char_at s i = (if i < length s then Some (s ! i) else None)"

lemma char_at_Some_iff [simp, scan_simps]: "char_at s i = Some c \<longleftrightarrow> i < length s \<and> s ! i = c"
  by (auto simp: char_at_def)

lemma char_at_None_iff [simp, scan_simps]: "char_at s i = None \<longleftrightarrow> length s \<le> i"
  by (auto simp: char_at_def)

text \<open>\<open>while (i < s.length && p(s[i])) i++\<close>.\<close>

function scan_while :: "('a \<Rightarrow> bool) \<Rightarrow> 'a list \<Rightarrow> nat \<Rightarrow> nat" where
  "scan_while p s i = (if i < length s \<and> p (s ! i) then scan_while p s (Suc i) else i)"
  by pat_completeness auto
termination
  by (relation "measure (\<lambda>(p, s, i). length s - i)") auto

declare scan_while.simps [simp del]

lemma scan_while_ge [scan_simps]: "i \<le> scan_while p s i"
proof (induction p s i rule: scan_while.induct)
  case (1 p s i)
  then show ?case by (subst scan_while.simps) auto
qed

lemma scan_while_le [scan_simps]: "i \<le> length s \<Longrightarrow> scan_while p s i \<le> length s"
proof (induction p s i rule: scan_while.induct)
  case (1 p s i)
  then show ?case by (subst scan_while.simps) auto
qed

lemma scan_while_gt [scan_simps]:
  assumes "i < length s" and "p (s ! i)"
  shows "i < scan_while p s i"
proof -
  have "Suc i \<le> scan_while p s (Suc i)" by (rule scan_while_ge)
  moreover from assms have "scan_while p s i = scan_while p s (Suc i)"
    by (subst scan_while.simps) simp
  ultimately show ?thesis by linarith
qed

lemma scan_while_all: "i \<le> j \<Longrightarrow> j < scan_while p s i \<Longrightarrow> p (s ! j)"
proof (induction p s i rule: scan_while.induct)
  case (1 p s i)
  show ?case
  proof (cases "i < length s \<and> p (s ! i)")
    case True
    then have eq: "scan_while p s i = scan_while p s (Suc i)"
      by (subst scan_while.simps) simp
    show ?thesis
    proof (cases "i = j")
      case True
      with \<open>i < length s \<and> p (s ! i)\<close> show ?thesis by simp
    next
      case False
      with "1.prems" eq have "Suc i \<le> j" "j < scan_while p s (Suc i)" by auto
      with "1.IH"[OF True] show ?thesis by blast
    qed
  next
    case False
    then have "scan_while p s i = i" by (subst scan_while.simps) auto
    with "1.prems" show ?thesis by simp
  qed
qed

lemma scan_while_stop: "scan_while p s i < length s \<Longrightarrow> \<not> p (s ! scan_while p s i)"
proof (induction p s i rule: scan_while.induct)
  case (1 p s i)
  then show ?case
    by (cases "i < length s \<and> p (s ! i)") (auto simp: scan_while.simps[of p s i])
qed

text \<open>\<open>s.slice(i, j)\<close> for \<open>i \<le> j \<le> s.length\<close>.\<close>

definition slice :: "'a list \<Rightarrow> nat \<Rightarrow> nat \<Rightarrow> 'a list" where
  "slice s i j = take (j - i) (drop i s)"

lemma length_slice [simp, scan_simps]: "length (slice s i j) = min (j - i) (length s - i)"
  by (simp add: slice_def min.commute)

section \<open>Strings\<close>

text \<open>The characters that \<open>\s\<close> matches and that \<open>trim\<close> removes, below code unit 256.\<close>

definition is_ws :: "char \<Rightarrow> bool" where
  "is_ws c = (of_char c \<in> {9, 10, 11, 12, 13, 32, 160 :: nat})"

definition ltrim :: "string \<Rightarrow> string" where
  "ltrim s = dropWhile is_ws s"

definition js_trim :: "string \<Rightarrow> string" where
  "js_trim s = rev (ltrim (rev (ltrim s)))"

definition starts_with :: "'a list \<Rightarrow> 'a list \<Rightarrow> bool" where
  "starts_with p s = (take (length p) s = p)"

lemma starts_with_iff: "starts_with p s \<longleftrightarrow> (\<exists>r. s = p @ r)"
  unfolding starts_with_def by (metis append_eq_conv_conj append_take_drop_id)

text \<open>The parts of \<open>s.split(sep)\<close> for a separator that is not empty.\<close>

function split_on :: "'a list \<Rightarrow> 'a list \<Rightarrow> 'a list \<Rightarrow> 'a list list" where
  "split_on sep acc s =
     (if sep = [] \<or> s = [] then [rev acc @ s]
      else if starts_with sep s then rev acc # split_on sep [] (drop (length sep) s)
      else split_on sep (hd s # acc) (tl s))"
  by pat_completeness auto
termination
  by (relation "measure (\<lambda>(sep, acc, s). length s)") auto

declare split_on.simps [simp del]

definition js_split_on :: "'a list \<Rightarrow> 'a list \<Rightarrow> 'a list list" where
  "js_split_on sep s = split_on sep [] s"

text \<open>\<open>parts.join(sep)\<close>.\<close>

fun js_join :: "'a list \<Rightarrow> 'a list list \<Rightarrow> 'a list" where
  "js_join sep [] = []"
| "js_join sep [x] = x"
| "js_join sep (x # y # xs) = x @ sep @ js_join sep (y # xs)"

lemma split_on_nonempty [simp]: "split_on sep acc s \<noteq> []"
proof (induction sep acc s rule: split_on.induct)
  case (1 sep acc s)
  then show ?case by (subst split_on.simps) auto
qed

lemma js_join_Cons: "xs \<noteq> [] \<Longrightarrow> js_join sep (x # xs) = x @ sep @ js_join sep xs"
  by (cases xs) auto

text \<open>Splitting and joining with the same separator gives the string back.\<close>

lemma js_join_split_on: "js_join sep (split_on sep acc s) = rev acc @ s"
proof (induction sep acc s rule: split_on.induct)
  case (1 sep acc s)
  show ?case
  proof (cases "sep = [] \<or> s = []")
    case True
    then show ?thesis by (subst split_on.simps) auto
  next
    case False
    show ?thesis
    proof (cases "starts_with sep s")
      case True
      then have s: "s = sep @ drop (length sep) s"
        by (metis append_take_drop_id starts_with_def)
      have "js_join sep (split_on sep acc s)
          = rev acc @ sep @ js_join sep (split_on sep [] (drop (length sep) s))"
        using False True by (subst split_on.simps) (simp add: js_join_Cons)
      also have "\<dots> = rev acc @ s"
        using "1.IH"(1)[OF False True] s by simp
      finally show ?thesis .
    next
      case False2: False
      with False "1.IH"(2)[OF False False2] show ?thesis
        by (subst split_on.simps) simp
    qed
  qed
qed

end
