(* ===== verification/JsNumber.thy ===== *)
theory JsNumber
  imports Prelude Complex_Main "HOL-Library.Log_Nat"
begin

text \<open>
  JavaScript numbers: IEEE 754 double-precision values with rounding to nearest, ties to even.
  A finite value is the rational it denotes; the two zeroes are \<open>Fin 0\<close> and \<open>NZero\<close>. Every
  arithmetic operation computes the exact rational and rounds it once (\<open>round_num\<close>). The
  conversions between numbers and strings that the modelled code calls follow the language's
  definition: \<open>num_to_string\<close> (shortest decimal that rounds back), \<open>string_to_num\<close> (\<open>Number(s)\<close>),
  \<open>parse_float\<close>, \<open>parse_int10\<close> and \<open>to_fixed\<close>.
\<close>

section \<open>Values and rounding\<close>

datatype jsnum = NaN | PInf | NInf | NZero | Fin rat

text \<open>The exponent \<open>e\<close> with \<open>b ^ e \<le> q < b ^ (e + 1)\<close>, for a positive \<open>q\<close>.\<close>

definition powr_int :: "nat \<Rightarrow> int \<Rightarrow> rat" where
  "powr_int b e = (if 0 \<le> e then of_nat b ^ nat e else 1 / of_nat b ^ nat (- e))"

definition ilog :: "nat \<Rightarrow> rat \<Rightarrow> int" where
  "ilog b q = (let (n, d) = quotient_of q;
                   e = int (floorlog b (nat n)) - int (floorlog b (nat d))
               in if powr_int b e \<le> q then e else e - 1)"

definition round_half_even :: "rat \<Rightarrow> int" where
  "round_half_even q = (let f = \<lfloor>q\<rfloor>; r = q - of_int f
     in if r < 1 / 2 then f else if r > 1 / 2 then f + 1 else if even f then f else f + 1)"

text \<open>The double nearest to a positive rational; \<open>None\<close> when it overflows to infinity.\<close>

definition round_pos :: "rat \<Rightarrow> rat option" where
  "round_pos q = (let e = max (ilog 2 q - 52) (- 1074);
                      v = of_int (round_half_even (q / powr_int 2 e)) * powr_int 2 e
                  in if 1024 \<le> ilog 2 v then None else Some v)"

text \<open>Round an exact result; \<open>neg0\<close> is the sign of an exact zero.\<close>

definition round_num :: "bool \<Rightarrow> rat \<Rightarrow> jsnum" where
  "round_num neg0 q =
     (if q = 0 then (if neg0 then NZero else Fin 0)
      else case round_pos \<bar>q\<bar> of
        None \<Rightarrow> (if q < 0 then NInf else PInf)
      | Some v \<Rightarrow> (if v = 0 then (if q < 0 then NZero else Fin 0)
                  else Fin (if q < 0 then - v else v)))"

fun num_neg_sign :: "jsnum \<Rightarrow> bool" where
  "num_neg_sign NaN = False"
| "num_neg_sign PInf = False"
| "num_neg_sign NInf = True"
| "num_neg_sign NZero = True"
| "num_neg_sign (Fin q) = (q < 0)"

definition num_of_int :: "int \<Rightarrow> jsnum" where
  "num_of_int i = round_num False (of_int i)"

abbreviation num_of_nat :: "nat \<Rightarrow> jsnum" where
  "num_of_nat n \<equiv> num_of_int (int n)"

section \<open>Operators\<close>

fun num_uminus :: "jsnum \<Rightarrow> jsnum" where
  "num_uminus NaN = NaN"
| "num_uminus PInf = NInf"
| "num_uminus NInf = PInf"
| "num_uminus NZero = Fin 0"
| "num_uminus (Fin q) = (if q = 0 then NZero else Fin (- q))"

fun num_fin :: "jsnum \<Rightarrow> rat" where
  "num_fin (Fin q) = q"
| "num_fin _ = 0"

fun is_fin :: "jsnum \<Rightarrow> bool" where
  "is_fin (Fin q) = True"
| "is_fin NZero = True"
| "is_fin _ = False"

definition is_zero :: "jsnum \<Rightarrow> bool" where
  "is_zero x = (x = NZero \<or> x = Fin 0)"

definition inf_of_sign :: "bool \<Rightarrow> jsnum" where
  "inf_of_sign neg = (if neg then NInf else PInf)"

definition num_add :: "jsnum \<Rightarrow> jsnum \<Rightarrow> jsnum" where
  "num_add x y =
     (if x = NaN \<or> y = NaN then NaN
      else if \<not> is_fin x then (if \<not> is_fin y \<and> x \<noteq> y then NaN else x)
      else if \<not> is_fin y then y
      else round_num (x = NZero \<and> y = NZero) (num_fin x + num_fin y))"

definition num_sub :: "jsnum \<Rightarrow> jsnum \<Rightarrow> jsnum" where
  "num_sub x y = num_add x (num_uminus y)"

definition num_mul :: "jsnum \<Rightarrow> jsnum \<Rightarrow> jsnum" where
  "num_mul x y =
     (let neg = (num_neg_sign x \<noteq> num_neg_sign y)
      in if x = NaN \<or> y = NaN then NaN
         else if \<not> is_fin x \<or> \<not> is_fin y
              then (if is_zero x \<or> is_zero y then NaN else inf_of_sign neg)
         else round_num neg (num_fin x * num_fin y))"

definition num_div :: "jsnum \<Rightarrow> jsnum \<Rightarrow> jsnum" where
  "num_div x y =
     (let neg = (num_neg_sign x \<noteq> num_neg_sign y)
      in if x = NaN \<or> y = NaN then NaN
         else if \<not> is_fin x then (if \<not> is_fin y then NaN else inf_of_sign neg)
         else if \<not> is_fin y then round_num neg 0
         else if is_zero y then (if is_zero x then NaN else inf_of_sign neg)
         else round_num neg (num_fin x / num_fin y))"

definition rat_trunc :: "rat \<Rightarrow> int" where
  "rat_trunc q = (if q < 0 then - \<lfloor>- q\<rfloor> else \<lfloor>q\<rfloor>)"

definition num_mod :: "jsnum \<Rightarrow> jsnum \<Rightarrow> jsnum" where
  "num_mod x y =
     (if x = NaN \<or> y = NaN \<or> \<not> is_fin x \<or> is_zero y then NaN
      else if \<not> is_fin y then x
      else round_num (num_neg_sign x)
             (num_fin x - num_fin y * of_int (rat_trunc (num_fin x / num_fin y))))"

text \<open>\<open>===\<close> on numbers: \<open>NaN\<close> differs from itself and the zeroes are equal.\<close>

definition num_eq :: "jsnum \<Rightarrow> jsnum \<Rightarrow> bool" where
  "num_eq x y = (x \<noteq> NaN \<and> y \<noteq> NaN \<and> (x = y \<or> is_zero x \<and> is_zero y))"

definition num_less :: "jsnum \<Rightarrow> jsnum \<Rightarrow> bool" where
  "num_less x y =
     (x \<noteq> NaN \<and> y \<noteq> NaN \<and>
      (if x = PInf \<or> y = NInf then False
       else if x = NInf \<or> y = PInf then x \<noteq> y
       else num_fin x < num_fin y))"

definition num_le :: "jsnum \<Rightarrow> jsnum \<Rightarrow> bool" where
  "num_le x y = (num_less x y \<or> num_eq x y)"

text \<open>\<open>Math.floor\<close>, \<open>ceil\<close>, \<open>trunc\<close>, \<open>round\<close> and \<open>abs\<close>. An integer-valued result is exact.\<close>

definition num_integral :: "(rat \<Rightarrow> int) \<Rightarrow> jsnum \<Rightarrow> jsnum" where
  "num_integral f x =
     (if is_fin x \<and> x \<noteq> NZero
      then (let i = f (num_fin x)
            in if i = 0 \<and> num_fin x < 0 then NZero else Fin (of_int i))
      else x)"

definition num_floor :: "jsnum \<Rightarrow> jsnum" where
  "num_floor x = num_integral floor x"

definition num_ceil :: "jsnum \<Rightarrow> jsnum" where
  "num_ceil x = num_integral ceiling x"

definition num_trunc :: "jsnum \<Rightarrow> jsnum" where
  "num_trunc x = num_integral rat_trunc x"

definition num_round :: "jsnum \<Rightarrow> jsnum" where
  "num_round x = num_integral (\<lambda>q. \<lfloor>q + 1 / 2\<rfloor>) x"

definition num_abs :: "jsnum \<Rightarrow> jsnum" where
  "num_abs x = (if num_neg_sign x then num_uminus x else x)"

text \<open>\<open>Math.min\<close> and \<open>Math.max\<close> of two numbers; they order \<open>-0\<close> below \<open>+0\<close>.\<close>

definition num_min2 :: "jsnum \<Rightarrow> jsnum \<Rightarrow> jsnum" where
  "num_min2 x y =
     (if x = NaN \<or> y = NaN then NaN
      else if is_zero x \<and> is_zero y then (if x = NZero then x else y)
      else if num_less y x then y else x)"

definition num_max2 :: "jsnum \<Rightarrow> jsnum \<Rightarrow> jsnum" where
  "num_max2 x y =
     (if x = NaN \<or> y = NaN then NaN
      else if is_zero x \<and> is_zero y then (if x = NZero then y else x)
      else if num_less x y then y else x)"

text \<open>\<open>ToIntegerOrInfinity\<close>, clamped into \<open>0..n\<close> as the index arguments of strings and arrays are.\<close>

definition num_to_int :: "jsnum \<Rightarrow> int" where
  "num_to_int x = (if is_fin x then rat_trunc (num_fin x) else 0)"

definition clamp_index :: "nat \<Rightarrow> jsnum \<Rightarrow> nat" where
  "clamp_index n x =
     (case x of PInf \<Rightarrow> n | NInf \<Rightarrow> 0 | NaN \<Rightarrow> 0
      | _ \<Rightarrow> nat (max 0 (min (int n) (num_to_int x))))"

text \<open>The relative index of \<open>Array.prototype.slice\<close>: negative values count from the end.\<close>

definition relative_index :: "nat \<Rightarrow> jsnum \<Rightarrow> nat" where
  "relative_index n x =
     (case x of PInf \<Rightarrow> n | NInf \<Rightarrow> 0 | NaN \<Rightarrow> 0
      | _ \<Rightarrow> (let i = num_to_int x
              in if i < 0 then nat (max 0 (int n + i)) else nat (min (int n) i)))"

section \<open>Facts about rounding\<close>

lemma round_half_even_of_int [simp]: "round_half_even (of_int i) = i"
  by (simp add: round_half_even_def)

lemma powr_int_nonneg: "0 \<le> e \<Longrightarrow> powr_int b e = of_nat b ^ nat e"
  by (simp add: powr_int_def)

lemma powr_int_pos [simp]: "0 < b \<Longrightarrow> 0 < powr_int b e"
  by (simp add: powr_int_def)

lemma quotient_of_of_int [simp]: "quotient_of (of_int k) = (k, 1)"
  by (simp add: of_int_rat quotient_of_Fract)

lemma ilog_of_int:
  assumes "0 < k" and "1 < b"
  shows "ilog b (of_int k) = int (floorlog b (nat k)) - 1"
proof -
  let ?f = "floorlog b (nat k)"
  have bnd: "b ^ (?f - 1) \<le> nat k" and "?f \<noteq> 0"
    using assms floorlog_bounds[of "nat k" b] by (auto simp: floorlog_eq_zero_iff)
  have one: "floorlog b (nat 1) = 1"
    using assms by (simp add: floorlog_def)
  have "powr_int b (int ?f - 1) = of_nat (b ^ (?f - 1))"
    using \<open>?f \<noteq> 0\<close> by (simp add: powr_int_nonneg nat_diff_distrib)
  also have "\<dots> \<le> (of_int k :: rat)"
  proof -
    have "of_nat (b ^ (?f - 1)) \<le> (of_nat (nat k) :: rat)"
      using bnd by (simp only: of_nat_le_iff)
    with assms show ?thesis by simp
  qed
  finally show ?thesis using one by (simp add: ilog_def)
qed

text \<open>Integers up to \<open>2 ^ 53\<close> in magnitude are doubles, so they round to themselves.\<close>

lemma round_pos_int:
  assumes "0 < k" and "k \<le> 2 ^ 53"
  shows "round_pos (of_int k) = Some (of_int k)"
proof -
  let ?l = "ilog 2 (of_int k :: rat)"
  have l: "?l = int (floorlog 2 (nat k)) - 1" using assms by (simp add: ilog_of_int)
  have fl: "floorlog 2 (nat k) \<noteq> 0" using assms by (simp add: floorlog_eq_zero_iff)
  have lo: "2 ^ (floorlog 2 (nat k) - 1) \<le> nat k"
    using assms floorlog_bounds[of "nat k" 2] by simp
  have "nat k \<le> 2 ^ 53" using assms by (simp add: nat_le_iff)
  with lo have "(2::nat) ^ (floorlog 2 (nat k) - 1) \<le> 2 ^ 53" by linarith
  then have "floorlog 2 (nat k) - 1 \<le> 53"
    by (subst (asm) power_increasing_iff) auto
  with l fl have l53: "0 \<le> ?l" "?l \<le> 53" by auto
  define e where "e = max (?l - 52) (- 1074)"
  have e: "e = ?l - 52" using l53 by (simp add: e_def)
  have "\<exists>m :: int. of_int k / powr_int 2 e = of_int m"
  proof (cases "e \<le> 0")
    case True
    then have "of_int k / powr_int 2 e = (of_int (k * 2 ^ nat (- e)) :: rat)"
      by (cases "e = 0") (simp_all add: powr_int_def)
    then show ?thesis by blast
  next
    case False
    with e l53 have e1: "e = 1" and "?l = 53" by auto
    with l fl have "floorlog 2 (nat k) - 1 = 53" by simp
    with lo assms have "k = 2 ^ 53" by (simp add: le_nat_iff)
    with e1 have "of_int k / powr_int 2 e = (of_int (2 ^ 52) :: rat)"
      by (simp add: powr_int_def)
    then show ?thesis by blast
  qed
  then obtain m where m: "of_int k / powr_int 2 e = (of_int m :: rat)" by blast
  then have "of_int (round_half_even (of_int k / powr_int 2 e)) * powr_int 2 e = (of_int k :: rat)"
    using powr_int_pos[of 2 e] by (simp add: m) (simp add: m[symmetric] less_imp_neq[symmetric])
  with l53 show ?thesis
    by (simp add: round_pos_def Let_def e_def[symmetric])
qed

theorem round_num_int:
  assumes "\<bar>i\<bar> \<le> 2 ^ 53"
  shows "round_num False (of_int i) = Fin (of_int i)"
proof (cases "i = 0")
  case False
  have "round_pos \<bar>of_int i\<bar> = Some \<bar>of_int i\<bar>"
    using round_pos_int[of "\<bar>i\<bar>"] False assms by simp
  with False show ?thesis by (simp add: round_num_def)
qed (simp add: round_num_def)

lemma round_num_int_nz:
  assumes "\<bar>i\<bar> \<le> 2 ^ 53" and "i \<noteq> 0"
  shows "round_num s (of_int i) = Fin (of_int i)"
  using round_num_int[OF assms(1)] assms(2) by (simp add: round_num_def)

lemma round_num_numeral [simp]:
  "numeral n \<le> (2 ^ 53 :: int) \<Longrightarrow> round_num s (numeral n) = Fin (numeral n)"
  "numeral n \<le> (2 ^ 53 :: int) \<Longrightarrow> round_num s (- numeral n) = Fin (- numeral n)"
  "round_num s 1 = Fin 1"
  "round_num s (- 1) = Fin (- 1)"
  "round_num s 0 = (if s then NZero else Fin 0)"
  using round_num_int_nz[of "numeral n" s] round_num_int_nz[of "- numeral n" s]
    round_num_int_nz[of 1 s] round_num_int_nz[of "- 1" s]
  by (simp_all add: round_num_def)

lemma round_num_code [code]:
  "round_num s q =
     (if q = 0 then (if s then NZero else Fin 0)
      else if snd (quotient_of q) = 1 \<and> \<bar>fst (quotient_of q)\<bar> \<le> 9007199254740992 then Fin q
      else case round_pos \<bar>q\<bar> of
        None \<Rightarrow> (if q < 0 then NInf else PInf)
      | Some v \<Rightarrow> (if v = 0 then (if q < 0 then NZero else Fin 0)
                  else Fin (if q < 0 then - v else v)))"
proof (cases "q \<noteq> 0 \<and> snd (quotient_of q) = 1 \<and> \<bar>fst (quotient_of q)\<bar> \<le> 9007199254740992")
  case True
  obtain n d where nd: "quotient_of q = (n, d)" by (cases "quotient_of q")
  with True have "q = of_int n" using quotient_of_div[OF nd] by simp
  with True nd show ?thesis using round_num_int_nz[of n s] by simp
next
  case False
  then show ?thesis by (auto simp: round_num_def)
qed

lemma num_of_int_small: "\<bar>i\<bar> \<le> 2 ^ 53 \<Longrightarrow> num_of_int i = Fin (of_int i)"
  by (simp add: num_of_int_def round_num_int)

lemma num_uminus_involution [simp]: "num_uminus (num_uminus x) = x"
  by (cases x) auto

lemma num_eq_refl: "num_eq x x \<longleftrightarrow> x \<noteq> NaN"
  by (auto simp: num_eq_def)

lemma num_eq_sym: "num_eq x y = num_eq y x"
  by (auto simp: num_eq_def)

lemma num_eq_trans: "num_eq x y \<Longrightarrow> num_eq y z \<Longrightarrow> num_eq x z"
  by (auto simp: num_eq_def is_zero_def)

lemma num_less_irrefl [simp]: "\<not> num_less x x"
  by (auto simp: num_less_def)

lemma num_less_trans: "num_less x y \<Longrightarrow> num_less y z \<Longrightarrow> num_less x z"
  by (auto simp: num_less_def split: if_splits)

lemma num_trichotomy:
  "x \<noteq> NaN \<Longrightarrow> y \<noteq> NaN \<Longrightarrow> num_less x y \<or> num_eq x y \<or> num_less y x"
  by (cases x; cases y) (auto simp: num_less_def num_eq_def is_zero_def)

end
