(* ===== verification/NumText.thy ===== *)
theory NumText
  imports JsNumber
begin

text \<open>
  Numbers and their text: decimal digits of naturals with the round trip through reading them
  back, the language's \<open>String(x)\<close> for numbers, \<open>Number(s)\<close>, \<open>parseFloat\<close>, \<open>parseInt(s, 10)\<close>
  and \<open>toFixed\<close>.
\<close>

section \<open>Decimal digits\<close>

definition is_digit :: "char \<Rightarrow> bool" where
  "is_digit c = (CHR ''0'' \<le> c \<and> c \<le> CHR ''9'')"

definition digit_val :: "char \<Rightarrow> nat" where
  "digit_val c = of_char c - 48"

definition digit_char :: "nat \<Rightarrow> char" where
  "digit_char d = char_of (48 + d)"

fun show_nat :: "nat \<Rightarrow> string" where
  "show_nat n = (if n < 10 then [digit_char n] else show_nat (n div 10) @ [digit_char (n mod 10)])"

declare show_nat.simps [simp del]

definition read_nat :: "string \<Rightarrow> nat" where
  "read_nat s = foldl (\<lambda>n c. 10 * n + digit_val c) 0 s"

definition show_int :: "int \<Rightarrow> string" where
  "show_int i = (if i < 0 then CHR ''-'' # show_nat (nat (- i)) else show_nat (nat i))"

lemma of_char_digit_char [simp]: "d < 10 \<Longrightarrow> of_char (digit_char d) = (48 + d :: nat)"
  by (simp add: digit_char_def)

lemma digit_val_char [simp]: "d < 10 \<Longrightarrow> digit_val (digit_char d) = d"
  by (simp add: digit_val_def)

lemma is_digit_iff: "is_digit c \<longleftrightarrow> 48 \<le> (of_char c :: nat) \<and> (of_char c :: nat) \<le> 57"
  by (simp add: is_digit_def less_eq_char_def)

lemma is_digit_char [simp]: "d < 10 \<Longrightarrow> is_digit (digit_char d)"
  by (simp add: is_digit_iff)

lemma read_nat_snoc: "read_nat (s @ [c]) = 10 * read_nat s + digit_val c"
  by (simp add: read_nat_def)

theorem read_show_nat [simp]: "read_nat (show_nat n) = n"
proof (induction n rule: show_nat.induct)
  case (1 n)
  then show ?case
    by (cases "n < 10") (simp_all add: show_nat.simps[of n] read_nat_snoc, simp add: read_nat_def)
qed

lemma show_nat_nonempty [simp]: "show_nat n \<noteq> []"
  by (subst show_nat.simps) simp

lemma show_nat_digits [simp]: "\<forall>c \<in> set (show_nat n). is_digit c"
proof (induction n rule: show_nat.induct)
  case (1 n)
  then show ?case by (subst show_nat.simps) auto
qed

lemma show_nat_inject [simp]: "show_nat m = show_nat n \<longleftrightarrow> m = n"
  by (metis read_show_nat)

section \<open>Number to text\<close>

text \<open>
  \<open>Number::toString\<close>: the digits \<open>s\<close> (as few as possible) and the exponent \<open>n\<close> with
  \<open>s * 10 ^ (n - k)\<close> rounding to the value, \<open>k\<close> being the number of digits. Seventeen digits always
  suffice for a double.
\<close>

fun shortest :: "nat \<Rightarrow> nat \<Rightarrow> int \<Rightarrow> rat \<Rightarrow> nat \<times> nat \<times> int" where
  "shortest fuel k n x =
     (let s = nat \<lfloor>x / powr_int 10 (n - int k) + 1 / 2\<rfloor>
      in if fuel = 0 \<or> round_pos (of_nat s * powr_int 10 (n - int k)) = Some x
         then (if s = 10 ^ k then (1, 1, n + 1) else (s, k, n))
         else shortest (fuel - 1) (k + 1) n x)"

definition decimal_parts :: "rat \<Rightarrow> nat \<times> nat \<times> int" where
  "decimal_parts x = shortest 16 1 (ilog 10 x + 1) x"

definition pos_to_string :: "rat \<Rightarrow> string" where
  "pos_to_string x =
     (let (s, k, n) = decimal_parts x; ds = show_nat s
      in if int k \<le> n \<and> n \<le> 21 then ds @ replicate (nat n - k) CHR ''0''
         else if 0 < n \<and> n \<le> 21 then take (nat n) ds @ ''.'' @ drop (nat n) ds
         else if - 6 < n \<and> n \<le> 0 then ''0.'' @ replicate (nat (- n)) CHR ''0'' @ ds
         else (let e = n - 1;
                   es = (if e < 0 then CHR ''-'' else CHR ''+'') # show_nat (nat \<bar>e\<bar>)
               in (if k = 1 then ds else take 1 ds @ ''.'' @ drop 1 ds) @ ''e'' @ es))"

fun num_to_string :: "jsnum \<Rightarrow> string" where
  "num_to_string NaN = ''NaN''"
| "num_to_string PInf = ''Infinity''"
| "num_to_string NInf = ''-Infinity''"
| "num_to_string NZero = ''0''"
| "num_to_string (Fin q) =
     (if q = 0 then ''0''
      else if snd (quotient_of q) = 1 \<and> \<bar>fst (quotient_of q)\<bar> \<le> 9007199254740992
           then show_int (fst (quotient_of q))
      else if q < 0 then CHR ''-'' # pos_to_string (- q) else pos_to_string q)"

section \<open>Text to number\<close>

definition span :: "('a \<Rightarrow> bool) \<Rightarrow> 'a list \<Rightarrow> 'a list \<times> 'a list" where
  "span p s = (takeWhile p s, dropWhile p s)"

text \<open>The exponent part: consumed only when at least one digit follows.\<close>

definition scan_exponent :: "string \<Rightarrow> int \<times> string" where
  "scan_exponent s =
     (case s of
        [] \<Rightarrow> (0, s)
      | c # r \<Rightarrow>
          if c = CHR ''e'' \<or> c = CHR ''E'' then
            (let (neg, r1) = (case r of
                   CHR ''-'' # r' \<Rightarrow> (True, r') | CHR ''+'' # r' \<Rightarrow> (False, r') | _ \<Rightarrow> (False, r));
                 (ds, r2) = span is_digit r1
             in if ds = [] then (0, s)
                else ((if neg then - int (read_nat ds) else int (read_nat ds)), r2))
          else (0, s))"

text \<open>An unsigned decimal literal at the front of \<open>s\<close>: its exact value and what follows it.\<close>

definition scan_decimal :: "string \<Rightarrow> (rat \<times> string) option" where
  "scan_decimal s =
     (let (ip, r1) = span is_digit s;
          (fp, r2) = (case r1 of
             CHR ''.'' # r \<Rightarrow> (let (fp, r') = span is_digit r
                            in if ip = [] \<and> fp = [] then ([], r1) else (fp, r'))
           | _ \<Rightarrow> ([], r1));
          (e, r3) = scan_exponent r2
      in if ip = [] \<and> fp = [] then None
         else Some (of_nat (read_nat (ip @ fp)) * powr_int 10 (e - int (length fp)), r3))"

definition signed_text :: "string \<Rightarrow> bool \<times> string" where
  "signed_text s = (case s of
     CHR ''-'' # r \<Rightarrow> (True, r) | CHR ''+'' # r \<Rightarrow> (False, r) | _ \<Rightarrow> (False, s))"

definition round_signed :: "bool \<Rightarrow> rat \<Rightarrow> jsnum" where
  "round_signed neg q = round_num neg (if neg then - q else q)"

definition hex_val :: "char \<Rightarrow> nat option" where
  "hex_val c =
     (let v = of_char c :: nat
      in if is_digit c then Some (v - 48)
         else if 97 \<le> v \<and> v \<le> 102 then Some (v - 87)
         else if 65 \<le> v \<and> v \<le> 70 then Some (v - 55)
         else None)"

fun read_base :: "nat \<Rightarrow> nat \<Rightarrow> string \<Rightarrow> nat option" where
  "read_base b n [] = Some n"
| "read_base b n (c # s) =
     (case hex_val c of
        Some v \<Rightarrow> (if v < b then read_base b (b * n + v) s else None)
      | None \<Rightarrow> None)"

definition radix_prefix :: "string \<Rightarrow> (nat \<times> string) option" where
  "radix_prefix s =
     (case s of
        CHR ''0'' # c # r \<Rightarrow>
          (if c = CHR ''x'' \<or> c = CHR ''X'' then Some (16, r)
           else if c = CHR ''o'' \<or> c = CHR ''O'' then Some (8, r)
           else if c = CHR ''b'' \<or> c = CHR ''B'' then Some (2, r)
           else None)
      | _ \<Rightarrow> None)"

text \<open>\<open>Number(s)\<close>.\<close>

definition string_to_num :: "string \<Rightarrow> jsnum" where
  "string_to_num str =
     (let s = js_trim str
      in if s = [] then Fin 0
         else case radix_prefix s of
           Some (b, ds) \<Rightarrow>
             (if ds = [] then NaN
              else case read_base b 0 ds of
                None \<Rightarrow> NaN | Some n \<Rightarrow> round_num False (of_nat n))
         | None \<Rightarrow>
             (let (neg, r) = signed_text s
              in if r = ''Infinity'' then inf_of_sign neg
                 else case scan_decimal r of
                   Some (q, []) \<Rightarrow> round_signed neg q
                 | _ \<Rightarrow> NaN))"

text \<open>\<open>parseFloat(s)\<close>: the longest prefix that is a decimal literal.\<close>

definition parse_float :: "string \<Rightarrow> jsnum" where
  "parse_float str =
     (let (neg, r) = signed_text (ltrim str)
      in if starts_with ''Infinity'' r then inf_of_sign neg
         else case scan_decimal r of
           None \<Rightarrow> NaN | Some (q, _) \<Rightarrow> round_signed neg q)"

text \<open>\<open>parseInt(s, 10)\<close>.\<close>

definition parse_int10 :: "string \<Rightarrow> jsnum" where
  "parse_int10 str =
     (let (neg, r) = signed_text (ltrim str); (ds, _) = span is_digit r
      in if ds = [] then NaN else round_signed neg (of_nat (read_nat ds)))"

text \<open>
  \<open>x.toFixed(d)\<close>: \<open>None\<close> where it raises \<open>RangeError\<close>. Of two equally near decimals the larger is
  taken.
\<close>

definition to_fixed :: "jsnum \<Rightarrow> jsnum \<Rightarrow> string option" where
  "to_fixed x digits =
     (if \<not> is_fin digits \<and> digits \<noteq> NaN then None
      else let d = num_to_int digits
      in if d < 0 \<or> 100 < d then None
         else if \<not> is_fin x then Some (num_to_string x)
         else let q = num_fin x; a = \<bar>q\<bar>; f = nat d
         in if 10 ^ 21 \<le> a then Some (num_to_string x)
            else let n = nat \<lfloor>a * 10 ^ f + 1 / 2\<rfloor>;
                     m = (if f = 0 then show_nat n
                          else let z = show_nat n;
                                   z' = replicate (f + 1 - length z) CHR ''0'' @ z;
                                   k = length z' - f
                               in take k z' @ ''.'' @ drop k z')
                 in Some ((if q < 0 then ''-'' else '''') @ m))"

section \<open>Reading back what was written\<close>

lemma span_all: "\<forall>c \<in> set s. p c \<Longrightarrow> span p s = (s, [])"
  by (simp add: span_def)

lemma scan_exponent_Nil [simp]: "scan_exponent [] = (0, [])"
  by (simp add: scan_exponent_def)

lemma scan_decimal_digits:
  "s \<noteq> [] \<Longrightarrow> \<forall>c \<in> set s. is_digit c \<Longrightarrow> scan_decimal s = Some (of_nat (read_nat s), [])"
  by (simp add: scan_decimal_def span_all powr_int_def)

lemma not_digit_sign [simp]:
  "\<not> is_digit CHR ''-''" "\<not> is_digit CHR ''+''" "\<not> is_digit CHR ''.''" "\<not> is_digit CHR ''I''"
  "\<not> is_digit CHR ''e''" "\<not> is_digit CHR ''E''"
  by (simp_all add: is_digit_def less_eq_char_def)

lemma is_ws_digit [simp]: "is_digit c \<Longrightarrow> \<not> is_ws c"
  by (auto simp: is_digit_iff is_ws_def)

lemma signed_text_digit: "is_digit (hd s) \<Longrightarrow> s \<noteq> [] \<Longrightarrow> signed_text s = (False, s)"
  by (cases s) (auto simp: signed_text_def split: list.splits char.splits bool.splits)

lemma ltrim_digit: "is_digit (hd s) \<Longrightarrow> s \<noteq> [] \<Longrightarrow> ltrim s = s"
  by (cases s) (simp_all add: ltrim_def)

text \<open>A written natural number is read back as that number, whichever conversion reads it.\<close>

theorem parse_float_show_nat:
  assumes "n \<le> 2 ^ 53"
  shows "parse_float (show_nat n) = Fin (of_nat n)"
proof -
  have ne: "show_nat n \<noteq> []" by simp
  then have d: "is_digit (hd (show_nat n))"
    using show_nat_digits list.set_sel(1) by blast
  have "\<not> starts_with ''Infinity'' (show_nat n)"
    using d by (cases "show_nat n") (auto simp: starts_with_def)
  moreover have "round_signed False (of_nat n) = Fin (of_nat n)"
    using round_num_int[of "int n"] assms by (simp add: round_signed_def)
  ultimately show ?thesis
    using d ne
    by (simp add: parse_float_def ltrim_digit signed_text_digit scan_decimal_digits)
qed

end
