(* ===== verification/JsValue.thy ===== *)
theory JsValue
  imports NumText
begin

text \<open>
  JavaScript values as the expression engine and the node handlers see them: plain data
  (\<open>unknown\<close> in the source). Arrays and objects carry the identity that \<open>===\<close> compares; the
  modelled code never mutates a value it has built, so a tree labelled with identities is the
  whole heap. An object lists its own enumerable properties in property order.

  What an inherited lookup finds (\<open>Object.prototype\<close>, \<open>Array.prototype\<close>), Unicode case mapping,
  collation, \<open>Math.pow\<close>, \<open>Math.random\<close>, the clock, and the date library \<open>dayjs\<close> are fields of
  \<open>host\<close>, an argument of every definition that uses them.
\<close>

section \<open>Values\<close>

datatype jsval =
    JUndef
  | JNull
  | JBool bool
  | JNum jsnum
  | JStr string
  | JFun string
  | JArr nat "jsval list"
  | JObj nat "(string \<times> jsval) list"

type_synonym props = "(string \<times> jsval) list"

record host =
  h_clock :: "nat \<Rightarrow> int"                       \<comment> \<open>\<open>Date.now()\<close> at its n-th reading\<close>
  h_random :: "nat \<Rightarrow> jsnum"                     \<comment> \<open>\<open>Math.random()\<close> at its n-th call\<close>
  h_pow10 :: "jsnum \<Rightarrow> jsnum"                    \<comment> \<open>\<open>Math.pow(10, d)\<close>\<close>
  h_upper :: "string \<Rightarrow> string"
  h_lower :: "string \<Rightarrow> string"
  h_locale_compare :: "string \<Rightarrow> string \<Rightarrow> int"
  h_fun_source :: "string \<Rightarrow> string"              \<comment> \<open>\<open>String(f)\<close>\<close>
  h_object_proto :: "string \<Rightarrow> jsval option"      \<comment> \<open>inherited properties of an object\<close>
  h_array_proto :: "string \<Rightarrow> jsval option"       \<comment> \<open>inherited properties of an array\<close>
  h_code_unit :: "nat \<Rightarrow> string"               \<comment> \<open>a code unit above 255\<close>
  h_max_string :: nat                              \<comment> \<open>longest string the engine builds\<close>
  h_day_valid :: "string \<Rightarrow> bool"
  h_day_format :: "string \<Rightarrow> string \<Rightarrow> string"
  h_day_iso :: "string \<Rightarrow> string"
  h_day_add :: "string \<Rightarrow> jsnum \<Rightarrow> jsval \<Rightarrow> string option"
  h_day_sub :: "string \<Rightarrow> jsnum \<Rightarrow> jsval \<Rightarrow> string option"
  h_day_diff :: "string \<Rightarrow> string \<Rightarrow> jsval \<Rightarrow> jsnum"
  h_day_now :: "nat \<Rightarrow> string"
  h_day_today :: "nat \<Rightarrow> string"

fun js_typeof :: "jsval \<Rightarrow> string" where
  "js_typeof JUndef = ''undefined''"
| "js_typeof JNull = ''object''"
| "js_typeof (JBool _) = ''boolean''"
| "js_typeof (JNum _) = ''number''"
| "js_typeof (JStr _) = ''string''"
| "js_typeof (JFun _) = ''function''"
| "js_typeof (JArr _ _) = ''object''"
| "js_typeof (JObj _ _) = ''object''"

fun is_nullish :: "jsval \<Rightarrow> bool" where
  "is_nullish JUndef = True"
| "is_nullish JNull = True"
| "is_nullish _ = False"

fun is_object :: "jsval \<Rightarrow> bool" where
  "is_object (JArr _ _) = True"
| "is_object (JObj _ _) = True"
| "is_object _ = False"

fun is_array :: "jsval \<Rightarrow> bool" where
  "is_array (JArr _ _) = True"
| "is_array _ = False"

definition nullish_or :: "jsval \<Rightarrow> jsval \<Rightarrow> jsval" where
  "nullish_or v d = (if is_nullish v then d else v)"

text \<open>\<open>a === b\<close>, and the comparison of \<open>Set\<close> and \<open>Array.prototype.includes\<close>.\<close>

fun strict_eq :: "jsval \<Rightarrow> jsval \<Rightarrow> bool" where
  "strict_eq (JNum x) (JNum y) = num_eq x y"
| "strict_eq (JArr i _) (JArr j _) = (i = j)"
| "strict_eq (JObj i _) (JObj j _) = (i = j)"
| "strict_eq a b = (a = b)"

fun same_value_zero :: "jsval \<Rightarrow> jsval \<Rightarrow> bool" where
  "same_value_zero (JNum x) (JNum y) = (x = y \<or> num_eq x y)"
| "same_value_zero a b = strict_eq a b"

section \<open>Property order and property access\<close>

text \<open>
  A key that is a canonical array index (below \<open>2 ^ 32 - 1\<close>) comes before all other keys, in
  numeric order; the other keys keep insertion order.
\<close>

definition array_index :: "string \<Rightarrow> nat option" where
  "array_index k =
     (if k \<noteq> [] \<and> (\<forall>c \<in> set k. is_digit c) \<and> (k = ''0'' \<or> hd k \<noteq> CHR ''0'') \<and> read_nat k < 4294967295
      then Some (read_nat k) else None)"

fun insert_prop :: "string \<Rightarrow> jsval \<Rightarrow> props \<Rightarrow> props" where
  "insert_prop k v [] = [(k, v)]"
| "insert_prop k v ((k', v') # ps) =
     (case array_index k of
        None \<Rightarrow> (k', v') # insert_prop k v ps
      | Some i \<Rightarrow>
          (case array_index k' of
             None \<Rightarrow> (k, v) # (k', v') # ps
           | Some j \<Rightarrow> (if i < j then (k, v) # (k', v') # ps else (k', v') # insert_prop k v ps)))"

text \<open>Define an own property: an existing key keeps its place.\<close>

definition define_prop :: "string \<Rightarrow> jsval \<Rightarrow> props \<Rightarrow> props" where
  "define_prop k v ps =
     (if map_of ps k = None then insert_prop k v ps
      else map (\<lambda>(k', v'). if k' = k then (k', v) else (k', v')) ps)"

text \<open>
  \<open>obj[k] = v\<close>. Assigning \<open>__proto__\<close> replaces the prototype and creates no own property.
\<close>

definition assign_prop :: "string \<Rightarrow> jsval \<Rightarrow> props \<Rightarrow> props" where
  "assign_prop k v ps = (if k = ''__proto__'' then ps else define_prop k v ps)"

definition obj_get :: "host \<Rightarrow> props \<Rightarrow> string \<Rightarrow> jsval" where
  "obj_get h ps k =
     (case map_of ps k of
        Some v \<Rightarrow> v
      | None \<Rightarrow> (case h_object_proto h k of Some v \<Rightarrow> v | None \<Rightarrow> JUndef))"

text \<open>\<open>k in obj\<close>.\<close>

definition obj_in :: "host \<Rightarrow> props \<Rightarrow> string \<Rightarrow> bool" where
  "obj_in h ps k = (map_of ps k \<noteq> None \<or> h_object_proto h k \<noteq> None)"

definition arr_get :: "host \<Rightarrow> jsval list \<Rightarrow> string \<Rightarrow> jsval" where
  "arr_get h vs k =
     (if k = ''length'' then JNum (num_of_nat (length vs))
      else case array_index k of
        Some i \<Rightarrow> (if i < length vs then vs ! i else JUndef)
      | None \<Rightarrow> (case h_array_proto h k of Some v \<Rightarrow> v | None \<Rightarrow> JUndef))"

text \<open>\<open>arr[x]\<close> for a number: only an in-range non-negative integer finds an element.\<close>

definition arr_index :: "jsval list \<Rightarrow> jsnum \<Rightarrow> jsval" where
  "arr_index vs x =
     (if is_fin x \<and> num_fin x = of_int \<lfloor>num_fin x\<rfloor> \<and> 0 \<le> num_fin x
         \<and> nat \<lfloor>num_fin x\<rfloor> < length vs
      then vs ! nat \<lfloor>num_fin x\<rfloor> else JUndef)"

section \<open>Conversions\<close>

text \<open>\<open>String(v)\<close>; the elements of an array are joined with commas, nullish ones as empty.\<close>

fun to_js_string :: "host \<Rightarrow> jsval \<Rightarrow> string" where
  "to_js_string h JUndef = ''undefined''"
| "to_js_string h JNull = ''null''"
| "to_js_string h (JBool b) = (if b then ''true'' else ''false'')"
| "to_js_string h (JNum x) = num_to_string x"
| "to_js_string h (JStr s) = s"
| "to_js_string h (JFun f) = h_fun_source h f"
| "to_js_string h (JArr _ vs) =
     js_join '','' (map (\<lambda>v. if is_nullish v then '''' else to_js_string h v) vs)"
| "to_js_string h (JObj _ _) = ''[object Object]''"

definition hex_digit :: "nat \<Rightarrow> char" where
  "hex_digit d = (if d < 10 then char_of (48 + d) else char_of (87 + d))"

definition json_char :: "char \<Rightarrow> string" where
  "json_char c =
     (let v = of_char c :: nat
      in if v = 34 then [char_of (92 :: nat), char_of (34 :: nat)]
         else if v = 92 then [char_of (92 :: nat), char_of (92 :: nat)]
         else if v = 8 then [char_of (92 :: nat), CHR ''b'']
         else if v = 12 then [char_of (92 :: nat), CHR ''f'']
         else if v = 10 then [char_of (92 :: nat), CHR ''n'']
         else if v = 13 then [char_of (92 :: nat), CHR ''r'']
         else if v = 9 then [char_of (92 :: nat), CHR ''t'']
         else if v < 32 then [char_of (92 :: nat)] @ ''u00'' @ [hex_digit (v div 16), hex_digit (v mod 16)]
         else [c])"

definition json_quote :: "string \<Rightarrow> string" where
  "json_quote s = char_of (34 :: nat) # concat (map json_char s) @ [char_of (34 :: nat)]"

text \<open>\<open>JSON.stringify(v)\<close>; \<open>None\<close> is its \<open>undefined\<close>.\<close>

fun json_stringify :: "jsval \<Rightarrow> string option" where
  "json_stringify JUndef = None"
| "json_stringify (JFun _) = None"
| "json_stringify JNull = Some ''null''"
| "json_stringify (JBool b) = Some (if b then ''true'' else ''false'')"
| "json_stringify (JNum x) = Some (if is_fin x then num_to_string x else ''null'')"
| "json_stringify (JStr s) = Some (json_quote s)"
| "json_stringify (JArr _ vs) =
     Some (''['' @ js_join '','' (map (\<lambda>v. case json_stringify v of
             None \<Rightarrow> ''null'' | Some s \<Rightarrow> s) vs) @ '']'')"
| "json_stringify (JObj _ ps) =
     Some (''{'' @ js_join '','' (concat (map (\<lambda>kv. case json_stringify (snd kv) of
             None \<Rightarrow> [] | Some s \<Rightarrow> [json_quote (fst kv) @ '':'' @ s]) ps)) @ ''}'')"

text \<open>\<open>JSON.stringify\<close> of a value whose \<open>typeof\<close> is \<open>object\<close> is always a string.\<close>

lemma json_stringify_object: "is_object v \<Longrightarrow> json_stringify v \<noteq> None"
  by (cases v) auto

section \<open>Facts\<close>

lemma strict_eq_refl: "strict_eq v v \<longleftrightarrow> v \<noteq> JNum NaN"
  by (cases v) (auto simp: num_eq_refl)

lemma strict_eq_sym: "strict_eq a b = strict_eq b a"
  by (cases a; cases b) (auto simp: num_eq_sym)

lemma same_value_zero_refl [simp]: "same_value_zero v v"
  by (cases v) auto

lemma same_value_zero_sym: "same_value_zero a b = same_value_zero b a"
  by (cases a; cases b) (auto simp: num_eq_sym)

lemma same_value_zero_trans:
  "same_value_zero a b \<Longrightarrow> same_value_zero b c \<Longrightarrow> same_value_zero a c"
  by (cases a; cases b; cases c) (auto dest: num_eq_trans)

lemma strict_eq_typeof: "strict_eq a b \<Longrightarrow> js_typeof a = js_typeof b"
  by (cases a; cases b) auto

lemma map_of_insert_prop [simp]:
  "map_of ps k = None \<Longrightarrow> map_of (insert_prop k v ps) = (map_of ps)(k \<mapsto> v)"
  by (induction ps) (auto split: option.splits if_splits)

lemma map_of_overwrite:
  "map_of (map (\<lambda>(k', v'). if k' = k then (k', v) else (k', v')) ps) =
     (if map_of ps k = None then map_of ps else (map_of ps)(k \<mapsto> v))"
  by (induction ps) (auto simp: fun_eq_iff)

lemma map_of_define_prop [simp]: "map_of (define_prop k v ps) = (map_of ps)(k \<mapsto> v)"
  by (auto simp: define_prop_def map_of_overwrite)

lemma map_of_assign_prop:
  "map_of (assign_prop k v ps) = (if k = ''__proto__'' then map_of ps else (map_of ps)(k \<mapsto> v))"
  by (simp add: assign_prop_def)

lemma set_fst_insert_prop [simp]: "fst ` set (insert_prop k v ps) = insert k (fst ` set ps)"
  by (induction k v ps rule: insert_prop.induct) (auto split: option.splits if_splits)

lemma distinct_insert_prop:
  "k \<notin> fst ` set ps \<Longrightarrow> distinct (map fst ps) \<Longrightarrow> distinct (map fst (insert_prop k v ps))"
  by (induction k v ps rule: insert_prop.induct)
     (simp_all split: option.splits, auto)

lemma map_fst_overwrite:
  "map fst (map (\<lambda>(k', v'). if k' = k then (k', v) else (k', v')) ps) = map fst ps"
  by (induction ps) auto

lemma distinct_define_prop:
  "distinct (map fst ps) \<Longrightarrow> distinct (map fst (define_prop k v ps))"
  unfolding define_prop_def
  by (auto simp: map_fst_overwrite distinct_insert_prop map_of_eq_None_iff simp del: map_map)

end
