(* ===== verification/ExprError.thy ===== *)
theory ExprError
  imports JsValue
begin

text \<open>
  Errors of the expression engine (\<open>errors.ts\<close>): the code, the message and the optional source
  position of an \<open>ExpressionError\<close>. \<open>ShortCircuit\<close> is the private signal of the evaluator
  (\<open>class ShortCircuitSignal\<close>) and \<open>HostError\<close> any other exception, with its message.
\<close>

datatype error_code =
    EXPR_SYNTAX_ERROR
  | EXPR_REFERENCE_ERROR
  | EXPR_TYPE_ERROR
  | EXPR_FUNCTION_ERROR
  | EXPR_TIMEOUT
  | EXPR_DEPTH_EXCEEDED

datatype js_throw =
    ExpressionError error_code string "int option"
  | ShortCircuit
  | HostError string

definition SyntaxErr :: "string \<Rightarrow> int option \<Rightarrow> js_throw" where
  "SyntaxErr msg pos = ExpressionError EXPR_SYNTAX_ERROR msg pos"

definition ReferenceErr :: "string \<Rightarrow> js_throw" where
  "ReferenceErr msg = ExpressionError EXPR_REFERENCE_ERROR msg None"

definition TypeErr :: "string \<Rightarrow> js_throw" where
  "TypeErr msg = ExpressionError EXPR_TYPE_ERROR msg None"

definition FunctionErr :: "string \<Rightarrow> js_throw" where
  "FunctionErr msg = ExpressionError EXPR_FUNCTION_ERROR msg None"

definition TimeoutErr :: "string \<Rightarrow> js_throw" where
  "TimeoutErr msg = ExpressionError EXPR_TIMEOUT msg None"

definition DepthExceededErr :: "string \<Rightarrow> js_throw" where
  "DepthExceededErr msg = ExpressionError EXPR_DEPTH_EXCEEDED msg None"

text \<open>\<open>e instanceof ExpressionError\<close>.\<close>

fun is_expression_error :: "js_throw \<Rightarrow> bool" where
  "is_expression_error (ExpressionError _ _ _) = True"
| "is_expression_error _ = False"

lemmas throw_defs = SyntaxErr_def ReferenceErr_def TypeErr_def FunctionErr_def
  TimeoutErr_def DepthExceededErr_def

lemma is_expression_error_throws [simp]:
  "is_expression_error (SyntaxErr m p)" "is_expression_error (ReferenceErr m)"
  "is_expression_error (TypeErr m)" "is_expression_error (FunctionErr m)"
  "is_expression_error (TimeoutErr m)" "is_expression_error (DepthExceededErr m)"
  by (simp_all add: throw_defs)

lemma throw_neq_ShortCircuit [simp]:
  "SyntaxErr m p \<noteq> ShortCircuit" "ReferenceErr m \<noteq> ShortCircuit" "TypeErr m \<noteq> ShortCircuit"
  "FunctionErr m \<noteq> ShortCircuit" "TimeoutErr m \<noteq> ShortCircuit" "DepthExceededErr m \<noteq> ShortCircuit"
  by (simp_all add: throw_defs)

end
