(* ===== verification/Tokenizer.thy ===== *)
theory Tokenizer
  imports ExprError
begin

text \<open>
  The lexer of the expression language (\<open>tokens.ts\<close>, \<open>tokenizer.ts\<close>). Positions are indices into
  the template. The main loop \<open>tokenize_loop\<close> carries the variables of the source's \<open>while\<close>:
  the position, whether it is inside \<open>{{ }}\<close>, the depth of object braces, and the tokens so far.
\<close>

section \<open>Tokens\<close>

datatype token_type =
    TNumber | TString | TBoolean | TNull | TIdentifier
  | TPlus | TMinus | TStar | TSlash | TPercent | TBang
  | TEq | TNeq | TLt | TGt | TLte | TGte | TAnd | TOr
  | TQuestion | TQuestionDot | TColon
  | TDot | TComma | TLParen | TRParen | TLBracket | TRBracket | TLBrace | TRBrace
  | TText | TExprStart | TExprEnd | TEOF

datatype token = Token (tok_type: token_type) (tok_value: string) (tok_pos: int)

definition MAX_EXPRESSION_LENGTH :: nat where
  "MAX_EXPRESSION_LENGTH = 10000"

definition backslash :: char where
  "backslash = char_of (92 :: nat)"

definition dquote :: char where
  "dquote = char_of (34 :: nat)"

definition squote :: char where
  "squote = char_of (39 :: nat)"

section \<open>Character classes\<close>

text \<open>\<open>isDigit\<close> is \<open>is_digit\<close> of the number theory.\<close>

definition isIdentStart :: "char \<Rightarrow> bool" where
  "isIdentStart ch =
     (CHR ''a'' \<le> ch \<and> ch \<le> CHR ''z'' \<or> CHR ''A'' \<le> ch \<and> ch \<le> CHR ''Z'' \<or> ch = CHR ''_'')"

definition isIdentPart :: "char \<Rightarrow> bool" where
  "isIdentPart ch = (isIdentStart ch \<or> is_digit ch)"

section \<open>Readers\<close>

definition skipWhitespace :: "string \<Rightarrow> nat \<Rightarrow> nat" where
  "skipWhitespace input pos = scan_while is_ws input pos"

text \<open>\<open>{{\<close> at \<open>i\<close>, and \<open>\{{\<close> at \<open>i\<close>.\<close>

definition open_at :: "string \<Rightarrow> nat \<Rightarrow> bool" where
  "open_at s i = (char_at s i = Some CHR ''{'' \<and> char_at s (i + 1) = Some CHR ''{'')"

definition escaped_open_at :: "string \<Rightarrow> nat \<Rightarrow> bool" where
  "escaped_open_at s i = (char_at s i = Some backslash \<and> open_at s (i + 1))"

function read_text :: "string \<Rightarrow> nat \<Rightarrow> string \<Rightarrow> string \<times> nat" where
  "read_text input end text =
     (if end < length input then
        (if escaped_open_at input end then read_text input (end + 3) (text @ ''{{'')
         else if open_at input end then (text, end)
         else read_text input (end + 1) (text @ [input ! end]))
      else (text, end))"
  by pat_completeness auto
termination
  by (relation "measure (\<lambda>(s, i, t). length s - i)") auto

declare read_text.simps [simp del]

definition readTemplateSegment :: "string \<Rightarrow> nat \<Rightarrow> (token \<times> nat) option" where
  "readTemplateSegment input pos =
     (if escaped_open_at input pos then Some (Token TText ''{{'' (int pos), pos + 3)
      else if open_at input pos then Some (Token TExprStart ''{{'' (int pos), pos + 2)
      else (let (text, end) = read_text input pos ''''
            in if text \<noteq> [] then Some (Token TText text (int pos), end) else None))"

function skip_string_loop :: "string \<Rightarrow> char \<Rightarrow> nat \<Rightarrow> nat" where
  "skip_string_loop input quote pos =
     (if pos < length input then
        (if input ! pos = backslash then skip_string_loop input quote (pos + 2)
         else if input ! pos = quote then pos + 1
         else skip_string_loop input quote (pos + 1))
      else pos)"
  by pat_completeness auto
termination
  by (relation "measure (\<lambda>(s, q, i). length s - i)") auto

declare skip_string_loop.simps [simp del]

definition skipPastStringEnd :: "string \<Rightarrow> nat \<Rightarrow> nat" where
  "skipPastStringEnd input startPos = skip_string_loop input (input ! startPos) (startPos + 1)"

definition readNumber :: "string \<Rightarrow> nat \<Rightarrow> token" where
  "readNumber input pos =
     (let end = scan_while is_digit input pos;
          end' = (if end < length input \<and> input ! end = CHR ''.'' \<and> end + 1 < length input
                     \<and> is_digit (input ! (end + 1))
                  then scan_while is_digit input (end + 1) else end)
      in Token TNumber (slice input pos end') (int pos))"

definition escape_char :: "char \<Rightarrow> char" where
  "escape_char next =
     (if next = CHR ''n'' then char_of (10 :: nat)
      else if next = CHR ''t'' then char_of (9 :: nat)
      else if next = CHR ''r'' then char_of (13 :: nat)
      else if next = backslash then backslash
      else next)"

function read_string_loop :: "string \<Rightarrow> char \<Rightarrow> nat \<Rightarrow> nat \<Rightarrow> string \<Rightarrow> js_throw + token" where
  "read_string_loop input quote pos end value =
     (if end < length input then
        (if input ! end = backslash \<and> end + 1 < length input
         then read_string_loop input quote pos (end + 2) (value @ [escape_char (input ! (end + 1))])
         else if input ! end = quote then Inr (Token TString value (int pos))
         else read_string_loop input quote pos (end + 1) (value @ [input ! end]))
      else Inl (SyntaxErr ''Unterminated string literal'' (Some (int pos))))"
  by pat_completeness auto
termination
  by (relation "measure (\<lambda>(s, q, p, i, v). length s - i)") auto

declare read_string_loop.simps [simp del]

definition readString :: "string \<Rightarrow> nat \<Rightarrow> js_throw + token" where
  "readString input pos = read_string_loop input (input ! pos) pos (pos + 1) ''''"

definition readIdentifier :: "string \<Rightarrow> nat \<Rightarrow> js_throw + token" where
  "readIdentifier input pos =
     (let dollar = (char_at input pos = Some CHR ''$'');
          end0 = (if dollar then pos + 1 else pos);
          starts = (end0 < length input \<and> isIdentStart (input ! end0));
          end = (if starts then scan_while isIdentPart input (end0 + 1) else end0)
      in if \<not> starts \<and> dollar
         then Inl (SyntaxErr (''Expected identifier after '' @ [squote, CHR ''$'', squote]) (Some (int pos)))
         else let value = slice input pos end
         in if value = ''true'' \<or> value = ''false'' then Inr (Token TBoolean value (int pos))
            else if value = ''null'' then Inr (Token TNull value (int pos))
            else Inr (Token TIdentifier value (int pos)))"

definition two_char_token :: "string \<Rightarrow> token_type option" where
  "two_char_token two =
     (if two = ''=='' then Some TEq
      else if two = ''!='' then Some TNeq
      else if two = ''<='' then Some TLte
      else if two = ''>='' then Some TGte
      else if two = ''&&'' then Some TAnd
      else if two = ''||'' then Some TOr
      else if two = ''?.'' then Some TQuestionDot
      else None)"

definition one_char_token :: "char \<Rightarrow> token_type option" where
  "one_char_token ch =
     map_of [(CHR ''+'', TPlus), (CHR ''-'', TMinus), (CHR ''*'', TStar), (CHR ''/'', TSlash),
             (CHR ''%'', TPercent), (CHR ''!'', TBang), (CHR ''<'', TLt), (CHR ''>'', TGt),
             (CHR ''?'', TQuestion), (CHR '':'', TColon), (CHR ''.'', TDot), (CHR '','', TComma),
             (CHR ''('', TLParen), (CHR '')'', TRParen), (CHR ''['', TLBracket),
             (CHR '']'', TRBracket), (CHR ''{'', TLBrace)] ch"

definition readExpressionToken :: "string \<Rightarrow> nat \<Rightarrow> js_throw + token" where
  "readExpressionToken input pos =
     (let ch = input ! pos;
          two = (if pos + 1 < length input then two_char_token [ch, input ! (pos + 1)] else None)
      in case two of
           Some ty \<Rightarrow> Inr (Token ty [ch, input ! (pos + 1)] (int pos))
         | None \<Rightarrow>
             (case one_char_token ch of
                Some ty \<Rightarrow> Inr (Token ty [ch] (int pos))
              | None \<Rightarrow>
                  if is_digit ch then Inr (readNumber input pos)
                  else if ch = dquote \<or> ch = squote then readString input pos
                  else if ch = CHR ''$'' \<or> isIdentStart ch then readIdentifier input pos
                  else Inl (SyntaxErr (''Unexpected character: '' @ [squote, ch, squote])
                                      (Some (int pos)))))"

text \<open>Where the loop continues after a token: a string token's value does not hold its quotes.\<close>

definition next_pos :: "string \<Rightarrow> token \<Rightarrow> nat" where
  "next_pos input tok =
     (if tok_type tok = TString then skipPastStringEnd input (nat (tok_pos tok))
      else nat (tok_pos tok) + length (tok_value tok))"

section \<open>Every reader advances\<close>

named_theorems reader_facts \<open>what a reader returns, and how far it moves\<close>

lemma read_text_ge [reader_facts]: "read_text input e acc = (t, n) \<Longrightarrow> e \<le> n"
proof (induction input e acc rule: read_text.induct)
  case (1 input e acc)
  then show ?case by (auto simp: read_text.simps[of input e acc] split: if_splits)
qed

lemma read_text_grows: "read_text input e acc = (t, n) \<Longrightarrow> \<exists>u. t = acc @ u"
proof (induction input e acc rule: read_text.induct)
  case (1 input e acc)
  then show ?case by (auto simp: read_text.simps[of input e acc] split: if_splits)
qed

lemma read_text_step:
  assumes "read_text input e acc = (t, n)" and "e < length input"
    and "\<not> escaped_open_at input e" and "\<not> open_at input e"
  shows "e < n" and "t \<noteq> []"
proof -
  from assms have "read_text input (e + 1) (acc @ [input ! e]) = (t, n)"
    by (subst (asm) read_text.simps) simp
  from read_text_ge[OF this] read_text_grows[OF this] show "e < n" and "t \<noteq> []" by auto
qed

lemma readTemplateSegment_Some:
  assumes "pos < length input"
  obtains tok n where "readTemplateSegment input pos = Some (tok, n)"
    and "tok_pos tok = int pos" and "pos < n" and "tok_type tok = TText \<or> tok_type tok = TExprStart"
proof (cases "escaped_open_at input pos \<or> open_at input pos")
  case True
  show ?thesis
  proof (cases "escaped_open_at input pos")
    case True
    with that show ?thesis by (simp add: readTemplateSegment_def)
  next
    case False
    with True that show ?thesis by (simp add: readTemplateSegment_def)
  qed
next
  case False
  obtain t n where tn: "read_text input pos '''' = (t, n)" by (cases "read_text input pos ''''")
  from read_text_step[OF tn assms] False have "pos < n" "t \<noteq> []" by auto
  with False tn that show ?thesis by (simp add: readTemplateSegment_def)
qed

lemma readTemplateSegment_progress [reader_facts]:
  "readTemplateSegment input pos = Some r \<Longrightarrow> pos < length input \<Longrightarrow> pos < snd r"
  using readTemplateSegment_Some[of pos input "pos < snd r"] by auto

lemma skip_string_loop_ge [reader_facts]: "pos \<le> skip_string_loop input q pos"
proof (induction input q pos rule: skip_string_loop.induct)
  case (1 input q pos)
  then show ?case by (subst skip_string_loop.simps) auto
qed

lemma read_string_loop_tok [reader_facts]:
  "read_string_loop input q pos e v = Inr tok \<Longrightarrow> tok_type tok = TString \<and> tok_pos tok = int pos"
proof (induction input q pos e v rule: read_string_loop.induct)
  case (1 input q pos e v)
  then show ?case by (auto simp: read_string_loop.simps[of input q pos e v] split: if_splits)
qed

definition number_end :: "string \<Rightarrow> nat \<Rightarrow> nat" where
  "number_end input pos =
     (let end = scan_while is_digit input pos
      in if end < length input \<and> input ! end = CHR ''.'' \<and> end + 1 < length input
            \<and> is_digit (input ! (end + 1))
         then scan_while is_digit input (end + 1) else end)"

lemma number_end_gt:
  assumes "pos < length input" and "is_digit (input ! pos)"
  shows "pos < number_end input pos"
proof -
  let ?e = "scan_while is_digit input pos"
  have "pos < ?e" using assms by (rule scan_while_gt)
  moreover have "?e + 1 \<le> scan_while is_digit input (?e + 1)" by (rule scan_while_ge)
  ultimately show ?thesis by (auto simp: number_end_def Let_def)
qed

lemma readNumber_progress:
  assumes "pos < length input" and "is_digit (input ! pos)"
  shows "tok_pos (readNumber input pos) = int pos" and "tok_value (readNumber input pos) \<noteq> []"
  using number_end_gt[OF assms] assms(1)
  by (auto simp: readNumber_def number_end_def Let_def slice_def)

lemma readIdentifier_progress:
  assumes "readIdentifier input pos = Inr tok" and "pos < length input"
    and "input ! pos = CHR ''$'' \<or> isIdentStart (input ! pos)"
  shows "tok_pos tok = int pos" and "tok_value tok \<noteq> []" and "tok_type tok \<noteq> TString"
proof -
  have gt: "i < scan_while isIdentPart input (i + 1)" for i
    using scan_while_ge[of "i + 1" isIdentPart input] by linarith
  show "tok_pos tok = int pos" "tok_type tok \<noteq> TString"
    using assms(1) by (auto simp: readIdentifier_def Let_def split: if_splits)
  show "tok_value tok \<noteq> []"
    using assms gt[of pos] gt[of "pos + 1"]
    by (auto simp: readIdentifier_def Let_def slice_def split: if_splits)
qed

lemma readExpressionToken_progress [reader_facts]:
  assumes tok: "readExpressionToken input pos = Inr tok" and pos: "pos < length input"
  shows "tok_pos tok = int pos" and "pos < next_pos input tok"
proof -
  have "tok_pos tok = int pos \<and> (tok_type tok = TString \<or> tok_value tok \<noteq> [])"
    using tok pos readNumber_progress[OF pos] readIdentifier_progress[of input pos tok]
    by (auto simp: readExpressionToken_def Let_def readString_def split: option.splits if_splits
        dest: read_string_loop_tok)
  moreover have "pos < skipPastStringEnd input pos"
    using skip_string_loop_ge[of "pos + 1" input "input ! pos"] by (simp add: skipPastStringEnd_def)
  ultimately show "tok_pos tok = int pos" "pos < next_pos input tok"
    by (auto simp: next_pos_def)
qed

section \<open>The main loop\<close>

definition unterminated :: "nat \<Rightarrow> js_throw" where
  "unterminated pos = SyntaxErr ''Unterminated expression, expected }}'' (Some (int pos))"

function tokenize_loop :: "string \<Rightarrow> nat \<Rightarrow> bool \<Rightarrow> nat \<Rightarrow> token list \<Rightarrow> js_throw + token list" where
  "tokenize_loop input pos inExpression braceDepth tokens =
     (if pos < length input then
        (if inExpression then
           (let p = skipWhitespace input pos
            in if length input \<le> p then Inl (unterminated p)
               else if input ! p = CHR ''}'' \<and> char_at input (p + 1) = Some CHR ''}'' \<and> braceDepth = 0
               then tokenize_loop input (p + 2) False braceDepth
                      (tokens @ [Token TExprEnd ''}}'' (int p)])
               else if input ! p = CHR ''}'' \<and> 0 < braceDepth
               then tokenize_loop input (p + 1) True (braceDepth - 1)
                      (tokens @ [Token TRBrace ''}'' (int p)])
               else case readExpressionToken input p of
                 Inl e \<Rightarrow> Inl e
               | Inr tok \<Rightarrow>
                   tokenize_loop input (next_pos input tok) True
                     (if tok_type tok = TLBrace then braceDepth + 1 else braceDepth)
                     (tokens @ [tok]))
         else case readTemplateSegment input pos of
                Some r \<Rightarrow>
                  tokenize_loop input (snd r) (tok_type (fst r) = TExprStart) braceDepth
                    (tokens @ [fst r])
              | None \<Rightarrow> tokenize_loop input (pos + 1) False braceDepth tokens)
      else if inExpression then Inl (unterminated pos)
      else Inr (tokens @ [Token TEOF '''' (int pos)]))"
  by pat_completeness auto
termination
proof (relation "measure (\<lambda>(s, i, b, d, ts). length s - i)", goal_cases)
  case 1
  show ?case by simp
next
  case (2 input pos inE d ts p)
  have "pos \<le> p" using 2 by (simp add: skipWhitespace_def scan_while_ge)
  moreover have "p < length input" using 2 by simp
  ultimately show ?case by simp
next
  case (3 input pos inE d ts p)
  have "pos \<le> p" using 3 by (simp add: skipWhitespace_def scan_while_ge)
  moreover have "p < length input" using 3 by simp
  ultimately show ?case by simp
next
  case (4 input pos inE d ts p tok)
  have "pos \<le> p" using 4 by (simp add: skipWhitespace_def scan_while_ge)
  moreover have "p < length input" using 4 by simp
  moreover have "p < next_pos input tok"
    using 4 by (intro readExpressionToken_progress) auto
  ultimately show ?case by simp
next
  case 5
  then show ?case by simp
next
  case (6 input pos inE d ts r)
  then show ?case by (simp add: readTemplateSegment_progress diff_less_mono2)
qed

declare tokenize_loop.simps [simp del]

definition tokenize :: "string \<Rightarrow> js_throw + token list" where
  "tokenize input =
     (if MAX_EXPRESSION_LENGTH < length input
      then Inl (SyntaxErr (''Expression exceeds maximum length of '' @ show_nat MAX_EXPRESSION_LENGTH
                           @ '' characters'') None)
      else tokenize_loop input 0 False 0 [])"

end
