(* ===== verification/Parser.thy ===== *)
theory Parser
  imports Tokenizer
begin

text \<open>
  The recursive-descent parser (\<open>ast.ts\<close>, \<open>parser.ts\<close>). The parser's private state, a position in
  the token array, is represented by the tokens from that position on; reading past the end
  gives the end-of-input token. Every method takes \<open>pe\<close>, the \<open>parseExpression\<close> it calls for nested expressions, and
  \<open>n\<close>, a bound on the iterations of its loops; \<open>parseExpression\<close> ties the knot by recursion on a
  fuel argument. \<open>parse\<close> supplies one unit more than there are tokens, and
  \<open>parse_total\<close> shows that this is enough: the result \<open>NoFuel\<close> never escapes.
\<close>

section \<open>Abstract syntax\<close>

datatype binop = OpAdd | OpSub | OpMul | OpDiv | OpMod
  | OpEq | OpNeq | OpLt | OpGt | OpLte | OpGte | OpAnd | OpOr

datatype unop = OpNot | OpNeg

datatype ast =
    NumberLiteral jsnum
  | StringLiteral string
  | BooleanLiteral bool
  | NullLiteral
  | Identifier string
  | MemberExpression ast string bool
  | IndexExpression ast ast bool
  | CallExpression ast "ast list" bool
  | ChainExpression ast
  | UnaryExpression unop ast
  | BinaryExpression binop ast ast
  | TernaryExpression ast ast ast
  | ArrayLiteral "ast list"
  | ObjectLiteral "(string \<times> ast) list"
  | TemplateLiteral "tpart list"
and tpart = TextPart string | ExprPart ast

section \<open>Helper methods\<close>

type_synonym tokens = "token list"

datatype parse_error = NoFuel | ParseErr js_throw

definition current :: "tokens \<Rightarrow> token" where
  "current ts = (case ts of [] \<Rightarrow> Token TEOF '''' (- 1) | t # _ \<Rightarrow> t)"

definition advance :: "tokens \<Rightarrow> tokens" where
  "advance ts = tl ts"

text \<open>\<open>this.match(type)\<close>: the tokens after the match, if there is one.\<close>

definition match_tok :: "token_type \<Rightarrow> tokens \<Rightarrow> tokens option" where
  "match_tok ty ts = (if tok_type (current ts) = ty then Some (advance ts) else None)"

definition type_name :: "token_type \<Rightarrow> string" where
  "type_name ty = (case ty of
      TNumber \<Rightarrow> ''Number'' | TString \<Rightarrow> ''String'' | TBoolean \<Rightarrow> ''Boolean'' | TNull \<Rightarrow> ''Null''
    | TIdentifier \<Rightarrow> ''Identifier'' | TPlus \<Rightarrow> ''Plus'' | TMinus \<Rightarrow> ''Minus'' | TStar \<Rightarrow> ''Star''
    | TSlash \<Rightarrow> ''Slash'' | TPercent \<Rightarrow> ''Percent'' | TBang \<Rightarrow> ''Bang'' | TEq \<Rightarrow> ''Eq''
    | TNeq \<Rightarrow> ''Neq'' | TLt \<Rightarrow> ''Lt'' | TGt \<Rightarrow> ''Gt'' | TLte \<Rightarrow> ''Lte'' | TGte \<Rightarrow> ''Gte''
    | TAnd \<Rightarrow> ''And'' | TOr \<Rightarrow> ''Or'' | TQuestion \<Rightarrow> ''Question'' | TQuestionDot \<Rightarrow> ''QuestionDot''
    | TColon \<Rightarrow> ''Colon'' | TDot \<Rightarrow> ''Dot'' | TComma \<Rightarrow> ''Comma'' | TLParen \<Rightarrow> ''LParen''
    | TRParen \<Rightarrow> ''RParen'' | TLBracket \<Rightarrow> ''LBracket'' | TRBracket \<Rightarrow> ''RBracket''
    | TLBrace \<Rightarrow> ''LBrace'' | TRBrace \<Rightarrow> ''RBrace'' | TText \<Rightarrow> ''Text''
    | TExprStart \<Rightarrow> ''ExprStart'' | TExprEnd \<Rightarrow> ''ExprEnd'' | TEOF \<Rightarrow> ''EOF'')"

definition quoted_value :: "token \<Rightarrow> string" where
  "quoted_value t = '' ('' @ [squote] @ tok_value t @ [squote] @ '')''"

definition syntax_at :: "string \<Rightarrow> token \<Rightarrow> parse_error" where
  "syntax_at msg t = ParseErr (SyntaxErr msg (Some (tok_pos t)))"

definition expect :: "token_type \<Rightarrow> string \<Rightarrow> tokens \<Rightarrow> parse_error + (token \<times> tokens)" where
  "expect ty message ts =
     (let t = current ts
      in if tok_type t \<noteq> ty
         then Inl (syntax_at (message @ '', got '' @ type_name (tok_type t) @ quoted_value t) t)
         else Inr (t, advance ts))"

section \<open>Left-associative binary levels\<close>

type_synonym 'a parsed = "parse_error + ('a \<times> tokens)"

text \<open>
  The six binary methods have one shape: parse an operand with the next method, then loop while
  the current token is one of the level's operators.
\<close>

primrec binaryLoop ::
  "nat \<Rightarrow> (token_type \<times> binop) list \<Rightarrow> (tokens \<Rightarrow> ast parsed) \<Rightarrow> ast \<Rightarrow> tokens \<Rightarrow> ast parsed" where
  "binaryLoop 0 ops sub node ts = Inl NoFuel"
| "binaryLoop (Suc n) ops sub node ts =
     (case map_of ops (tok_type (current ts)) of
        None \<Rightarrow> Inr (node, ts)
      | Some operator \<Rightarrow>
          bindE (sub (advance ts))
            (\<lambda>(right, ts1). binaryLoop n ops sub (BinaryExpression operator node right) ts1))"

definition parseBinary ::
  "nat \<Rightarrow> (token_type \<times> binop) list \<Rightarrow> (tokens \<Rightarrow> ast parsed) \<Rightarrow> tokens \<Rightarrow> ast parsed" where
  "parseBinary n ops sub ts = bindE (sub ts) (\<lambda>(node, ts1). binaryLoop n ops sub node ts1)"

section \<open>Primary and postfix expressions\<close>

primrec argLoop :: "nat \<Rightarrow> (tokens \<Rightarrow> ast parsed) \<Rightarrow> ast list \<Rightarrow> tokens \<Rightarrow> ast list parsed" where
  "argLoop 0 pe args ts = Inl NoFuel"
| "argLoop (Suc n) pe args ts =
     (case match_tok TComma ts of
        None \<Rightarrow> Inr (args, ts)
      | Some ts1 \<Rightarrow> bindE (pe ts1) (\<lambda>(a, ts2). argLoop n pe (args @ [a]) ts2))"

definition parseArgList :: "nat \<Rightarrow> (tokens \<Rightarrow> ast parsed) \<Rightarrow> tokens \<Rightarrow> ast list parsed" where
  "parseArgList n pe ts =
     (if tok_type (current ts) = TRParen then Inr ([], ts)
      else bindE (pe ts) (\<lambda>(a, ts1). argLoop n pe [a] ts1))"

primrec elementLoop :: "nat \<Rightarrow> (tokens \<Rightarrow> ast parsed) \<Rightarrow> ast list \<Rightarrow> tokens \<Rightarrow> ast list parsed" where
  "elementLoop 0 pe els ts = Inl NoFuel"
| "elementLoop (Suc n) pe els ts =
     (case match_tok TComma ts of
        None \<Rightarrow> Inr (els, ts)
      | Some ts1 \<Rightarrow>
          (if tok_type (current ts1) = TRBracket then Inr (els, ts1)
           else bindE (pe ts1) (\<lambda>(el, ts2). elementLoop n pe (els @ [el]) ts2)))"

definition parseArrayLiteral :: "nat \<Rightarrow> (tokens \<Rightarrow> ast parsed) \<Rightarrow> tokens \<Rightarrow> ast parsed" where
  "parseArrayLiteral n pe ts =
     bindE (expect TLBracket ''Expected ['' ts) (\<lambda>(_, ts1).
     bindE (if tok_type (current ts1) \<noteq> TRBracket
            then bindE (pe ts1) (\<lambda>(el, ts2). elementLoop n pe [el] ts2)
            else Inr ([], ts1)) (\<lambda>(els, ts2).
     bindE (expect TRBracket ''Expected ]'' ts2) (\<lambda>(_, ts3). Inr (ArrayLiteral els, ts3))))"

definition parseObjectProperty :: "(tokens \<Rightarrow> ast parsed) \<Rightarrow> tokens \<Rightarrow> (string \<times> ast) parsed" where
  "parseObjectProperty pe ts =
     (let t = current ts
      in if tok_type t = TString \<or> tok_type t = TIdentifier then
           bindE (expect TColon ''Expected : after object key'' (advance ts)) (\<lambda>(_, ts1).
           bindE (pe ts1) (\<lambda>(v, ts2). Inr ((tok_value t, v), ts2)))
         else Inl (syntax_at ''Expected string or identifier as object key'' t))"

primrec propertyLoop ::
  "nat \<Rightarrow> (tokens \<Rightarrow> ast parsed) \<Rightarrow> (string \<times> ast) list \<Rightarrow> tokens \<Rightarrow> (string \<times> ast) list parsed" where
  "propertyLoop 0 pe ps ts = Inl NoFuel"
| "propertyLoop (Suc n) pe ps ts =
     (case match_tok TComma ts of
        None \<Rightarrow> Inr (ps, ts)
      | Some ts1 \<Rightarrow>
          (if tok_type (current ts1) = TRBrace then Inr (ps, ts1)
           else bindE (parseObjectProperty pe ts1) (\<lambda>(p, ts2). propertyLoop n pe (ps @ [p]) ts2)))"

definition parseObjectLiteral :: "nat \<Rightarrow> (tokens \<Rightarrow> ast parsed) \<Rightarrow> tokens \<Rightarrow> ast parsed" where
  "parseObjectLiteral n pe ts =
     bindE (expect TLBrace ''Expected {'' ts) (\<lambda>(_, ts1).
     bindE (if tok_type (current ts1) \<noteq> TRBrace
            then bindE (parseObjectProperty pe ts1) (\<lambda>(p, ts2). propertyLoop n pe [p] ts2)
            else Inr ([], ts1)) (\<lambda>(ps, ts2).
     bindE (expect TRBrace ''Expected }'' ts2) (\<lambda>(_, ts3). Inr (ObjectLiteral ps, ts3))))"

definition parsePrimary :: "nat \<Rightarrow> (tokens \<Rightarrow> ast parsed) \<Rightarrow> tokens \<Rightarrow> ast parsed" where
  "parsePrimary n pe ts =
     (let t = current ts; ty = tok_type t; ts1 = advance ts
      in if ty = TNumber then Inr (NumberLiteral (parse_float (tok_value t)), ts1)
         else if ty = TString then Inr (StringLiteral (tok_value t), ts1)
         else if ty = TBoolean then Inr (BooleanLiteral (tok_value t = ''true''), ts1)
         else if ty = TNull then Inr (NullLiteral, ts1)
         else if ty = TIdentifier then Inr (Identifier (tok_value t), ts1)
         else if ty = TLParen then
           bindE (pe ts1) (\<lambda>(expr, ts2).
           bindE (expect TRParen ''Expected )'' ts2) (\<lambda>(_, ts3). Inr (expr, ts3)))
         else if ty = TLBracket then parseArrayLiteral n pe ts
         else if ty = TLBrace then parseObjectLiteral n pe ts
         else Inl (syntax_at (''Unexpected token: '' @ type_name ty @ quoted_value t) t))"

definition optional_message :: string where
  "optional_message = ''Expected property name, '' @ [dquote, CHR ''['', dquote] @ '', or ''
     @ [dquote, CHR ''('', dquote] @ '' after ?.''"

text \<open>One iteration of the loop in \<open>parsePostfix\<close>: \<open>None\<close> where the source breaks out.\<close>

definition postfixStep ::
  "nat \<Rightarrow> (tokens \<Rightarrow> ast parsed) \<Rightarrow> ast \<Rightarrow> bool \<Rightarrow> tokens \<Rightarrow> (parse_error + ((ast \<times> bool) \<times> tokens)) option" where
  "postfixStep n pe node sawOptional ts =
     (let ty = tok_type (current ts); ts1 = advance ts
      in if ty = TQuestionDot then Some
           (if tok_type (current ts1) = TLBracket then
              bindE (pe (advance ts1)) (\<lambda>(index, ts2).
              bindE (expect TRBracket ''Expected ]'' ts2) (\<lambda>(_, ts3).
              Inr ((IndexExpression node index True, True), ts3)))
            else if tok_type (current ts1) = TLParen then
              bindE (parseArgList n pe (advance ts1)) (\<lambda>(args, ts2).
              bindE (expect TRParen ''Expected )'' ts2) (\<lambda>(_, ts3).
              Inr ((CallExpression node args True, True), ts3)))
            else
              bindE (expect TIdentifier optional_message ts1) (\<lambda>(t, ts2).
              Inr ((MemberExpression node (tok_value t) True, True), ts2)))
         else if ty = TDot then Some
           (bindE (expect TIdentifier ''Expected property name after .'' ts1) (\<lambda>(t, ts2).
            Inr ((MemberExpression node (tok_value t) False, sawOptional), ts2)))
         else if ty = TLBracket then Some
           (bindE (pe ts1) (\<lambda>(index, ts2).
            bindE (expect TRBracket ''Expected ]'' ts2) (\<lambda>(_, ts3).
            Inr ((IndexExpression node index False, sawOptional), ts3))))
         else if ty = TLParen then Some
           (bindE (parseArgList n pe ts1) (\<lambda>(args, ts2).
            bindE (expect TRParen ''Expected )'' ts2) (\<lambda>(_, ts3).
            Inr ((CallExpression node args False, sawOptional), ts3))))
         else None)"

primrec postfixLoop ::
  "nat \<Rightarrow> nat \<Rightarrow> (tokens \<Rightarrow> ast parsed) \<Rightarrow> ast \<Rightarrow> bool \<Rightarrow> tokens \<Rightarrow> ast parsed" where
  "postfixLoop 0 n pe node sawOptional ts = Inl NoFuel"
| "postfixLoop (Suc k) n pe node sawOptional ts =
     (case postfixStep n pe node sawOptional ts of
        None \<Rightarrow> Inr (if sawOptional then ChainExpression node else node, ts)
      | Some r \<Rightarrow> bindE r (\<lambda>((node', saw'), ts1). postfixLoop k n pe node' saw' ts1))"

definition parsePostfix :: "nat \<Rightarrow> (tokens \<Rightarrow> ast parsed) \<Rightarrow> tokens \<Rightarrow> ast parsed" where
  "parsePostfix n pe ts =
     bindE (parsePrimary n pe ts) (\<lambda>(node, ts1). postfixLoop n n pe node False ts1)"

section \<open>Unary, binary and ternary expressions\<close>

primrec unaryLoop :: "nat \<Rightarrow> nat \<Rightarrow> (tokens \<Rightarrow> ast parsed) \<Rightarrow> tokens \<Rightarrow> ast parsed" where
  "unaryLoop 0 n pe ts = Inl NoFuel"
| "unaryLoop (Suc k) n pe ts =
     (case match_tok TBang ts of
        Some ts1 \<Rightarrow> bindE (unaryLoop k n pe ts1) (\<lambda>(operand, ts2).
                      Inr (UnaryExpression OpNot operand, ts2))
      | None \<Rightarrow>
          (case match_tok TMinus ts of
             Some ts1 \<Rightarrow> bindE (unaryLoop k n pe ts1) (\<lambda>(operand, ts2).
                           Inr (UnaryExpression OpNeg operand, ts2))
           | None \<Rightarrow> parsePostfix n pe ts))"

definition parseUnary :: "nat \<Rightarrow> (tokens \<Rightarrow> ast parsed) \<Rightarrow> tokens \<Rightarrow> ast parsed" where
  "parseUnary n pe ts = unaryLoop n n pe ts"

definition parseMultiplication :: "nat \<Rightarrow> (tokens \<Rightarrow> ast parsed) \<Rightarrow> tokens \<Rightarrow> ast parsed" where
  "parseMultiplication n pe ts =
     parseBinary n [(TStar, OpMul), (TSlash, OpDiv), (TPercent, OpMod)] (parseUnary n pe) ts"

definition parseAddition :: "nat \<Rightarrow> (tokens \<Rightarrow> ast parsed) \<Rightarrow> tokens \<Rightarrow> ast parsed" where
  "parseAddition n pe ts =
     parseBinary n [(TPlus, OpAdd), (TMinus, OpSub)] (parseMultiplication n pe) ts"

definition parseComparison :: "nat \<Rightarrow> (tokens \<Rightarrow> ast parsed) \<Rightarrow> tokens \<Rightarrow> ast parsed" where
  "parseComparison n pe ts =
     parseBinary n [(TLt, OpLt), (TGt, OpGt), (TLte, OpLte), (TGte, OpGte)] (parseAddition n pe) ts"

definition parseEquality :: "nat \<Rightarrow> (tokens \<Rightarrow> ast parsed) \<Rightarrow> tokens \<Rightarrow> ast parsed" where
  "parseEquality n pe ts = parseBinary n [(TEq, OpEq), (TNeq, OpNeq)] (parseComparison n pe) ts"

definition parseAnd :: "nat \<Rightarrow> (tokens \<Rightarrow> ast parsed) \<Rightarrow> tokens \<Rightarrow> ast parsed" where
  "parseAnd n pe ts = parseBinary n [(TAnd, OpAnd)] (parseEquality n pe) ts"

definition parseOr :: "nat \<Rightarrow> (tokens \<Rightarrow> ast parsed) \<Rightarrow> tokens \<Rightarrow> ast parsed" where
  "parseOr n pe ts = parseBinary n [(TOr, OpOr)] (parseAnd n pe) ts"

definition parseTernary :: "nat \<Rightarrow> (tokens \<Rightarrow> ast parsed) \<Rightarrow> tokens \<Rightarrow> ast parsed" where
  "parseTernary n pe ts =
     bindE (parseOr n pe ts) (\<lambda>(node, ts1).
     case match_tok TQuestion ts1 of
       None \<Rightarrow> Inr (node, ts1)
     | Some ts2 \<Rightarrow>
         bindE (pe ts2) (\<lambda>(consequent, ts3).
         bindE (expect TColon ''Expected : in ternary expression'' ts3) (\<lambda>(_, ts4).
         bindE (pe ts4) (\<lambda>(alternate, ts5).
         Inr (TernaryExpression node consequent alternate, ts5)))))"

primrec parseExpression :: "nat \<Rightarrow> tokens \<Rightarrow> ast parsed" where
  "parseExpression 0 ts = Inl NoFuel"
| "parseExpression (Suc n) ts = parseTernary (Suc n) (parseExpression n) ts"

section \<open>Templates\<close>

definition parse_fuel :: "tokens \<Rightarrow> nat" where
  "parse_fuel ts = length ts + 1"

text \<open>The loop of \<open>parse\<close>: text and expression parts until the end-of-input token.\<close>

function parse_parts :: "tpart list \<Rightarrow> tokens \<Rightarrow> parse_error + tpart list" where
  "parse_parts parts ts =
     (let t = current ts
      in if tok_type t = TEOF then Inr parts
         else if tok_type t = TText then parse_parts (parts @ [TextPart (tok_value t)]) (advance ts)
         else if tok_type t = TExprStart then
           bindE (parseExpression (parse_fuel ts) (advance ts)) (\<lambda>r.
           bindE (expect TExprEnd ''Expected }}'' (snd r)) (\<lambda>e.
           if length (snd e) < length ts then parse_parts (parts @ [ExprPart (fst r)]) (snd e)
           else Inl NoFuel))
         else Inl (syntax_at (''Unexpected token: '' @ type_name (tok_type t)) t))"
  by pat_completeness auto
termination
  by (relation "measure (\<lambda>(ps, ts). length ts)")
     (auto simp: current_def advance_def split: list.splits)

declare parse_parts.simps [simp del]

definition parse :: "tokens \<Rightarrow> parse_error + ast" where
  "parse ts =
     bindE (parse_parts [] ts) (\<lambda>parts.
       case parts of
         [ExprPart e] \<Rightarrow> Inr e
       | [] \<Rightarrow> Inr (StringLiteral '''')
       | _ \<Rightarrow> Inr (TemplateLiteral parts))"

end
