(* ===== verification/Json.thy ===== *)
theory Json
  imports JsValue
begin

text \<open>
  \<open>JSON.parse\<close>, which the built-in \<open>fromJSON\<close> calls. New arrays and objects take their
  identities from a counter. Every reader consumes at least one character; the tests that the
  rest is shorter make that visible to the recursion, and \<open>json_readers_shorter\<close> shows that
  they never fail.
\<close>

section \<open>Scalars\<close>

definition json_ws :: "char \<Rightarrow> bool" where
  "json_ws c = (of_char c \<in> {9, 10, 13, 32 :: nat})"

definition json_skip :: "string \<Rightarrow> string" where
  "json_skip s = dropWhile json_ws s"

definition json_number :: "string \<Rightarrow> (jsnum \<times> string) option" where
  "json_number s =
     (let (neg, r) = (case s of CHR ''-'' # r \<Rightarrow> (True, r) | _ \<Rightarrow> (False, s));
          (ip, r1) = span is_digit r
      in if ip = [] \<or> (hd ip = CHR ''0'' \<and> 1 < length ip) then None
         else if (case r1 of CHR ''.'' # t \<Rightarrow> (case t of [] \<Rightarrow> True | c # _ \<Rightarrow> \<not> is_digit c) | _ \<Rightarrow> False)
              then None
         else map_option (\<lambda>qr. (round_signed neg (fst qr), snd qr)) (scan_decimal r))"

fun hex4 :: "string \<Rightarrow> nat option" where
  "hex4 [a, b, c, d] = read_base 16 0 [a, b, c, d]"
| "hex4 _ = None"

definition code_unit :: "host \<Rightarrow> nat \<Rightarrow> string" where
  "code_unit h n = (if n < 256 then [char_of n] else h_code_unit h n)"

definition json_escape :: "char \<Rightarrow> char option" where
  "json_escape c =
     (let v = of_char c :: nat
      in if v \<in> {34, 47, 92} then Some c
         else if c = CHR ''b'' then Some (char_of (8 :: nat))
         else if c = CHR ''f'' then Some (char_of (12 :: nat))
         else if c = CHR ''n'' then Some (char_of (10 :: nat))
         else if c = CHR ''r'' then Some (char_of (13 :: nat))
         else if c = CHR ''t'' then Some (char_of (9 :: nat))
         else None)"

text \<open>The characters of a string literal after its opening quote.\<close>

function json_string :: "host \<Rightarrow> string \<Rightarrow> string \<Rightarrow> (string \<times> string) option" where
  "json_string h acc s =
     (case s of
        [] \<Rightarrow> None
      | c # r \<Rightarrow>
          (if of_char c = (34 :: nat) then Some (acc, r)
           else if of_char c < (32 :: nat) then None
           else if of_char c \<noteq> (92 :: nat) then json_string h (acc @ [c]) r
           else case r of
             [] \<Rightarrow> None
           | e # t \<Rightarrow>
               (if e = CHR ''u'' then
                  (case hex4 (take 4 t) of
                     None \<Rightarrow> None
                   | Some n \<Rightarrow> json_string h (acc @ code_unit h n) (drop 4 t))
                else case json_escape e of
                  None \<Rightarrow> None
                | Some x \<Rightarrow> json_string h (acc @ [x]) t)))"
  by pat_completeness auto
termination by (relation "measure (\<lambda>(h, acc, s). length s)") auto

declare json_string.simps [simp del]

lemma json_skip_le: "length (json_skip s) \<le> length s"
  by (simp add: json_skip_def length_dropWhile_le)

lemma json_skip_Cons: "json_skip s = c # r \<Longrightarrow> length r < length s"
  using json_skip_le [of s] by simp

lemma json_string_shorter: "json_string h acc s = Some x \<Longrightarrow> length (snd x) < length s"
proof (induction h acc s rule: json_string.induct)
  case (1 h acc s)
  from 1(4) show ?case
    using 1(1,2,3)
    by (subst (asm) json_string.simps) (fastforce split: list.splits if_splits option.splits)
qed

definition json_word :: "string \<Rightarrow> (jsval \<times> string) option" where
  "json_word s =
     (if starts_with ''null'' s then Some (JNull, drop 4 s)
      else if starts_with ''true'' s then Some (JBool True, drop 4 s)
      else if starts_with ''false'' s then Some (JBool False, drop 5 s)
      else map_option (\<lambda>xr. (JNum (fst xr), snd xr)) (json_number s))"

section \<open>Arrays and objects\<close>

text \<open>
  \<open>json_value\<close> reads a value after optional white space; \<open>json_elements\<close> the elements of a
  non-empty array after its bracket or a comma, \<open>json_members\<close> the members of a non-empty object.
  The second component of a result is the next unused identity.
\<close>

type_synonym 'a json_result = "('a \<times> nat \<times> string) option"

definition shorter :: "'a json_result \<Rightarrow> string \<Rightarrow> 'a json_result" where
  "shorter res s = (case res of
     None \<Rightarrow> None | Some x \<Rightarrow> (if length (snd (snd x)) < length s then Some x else None))"

function (sequential) json_value :: "host \<Rightarrow> nat \<Rightarrow> string \<Rightarrow> jsval json_result"
and json_elements :: "host \<Rightarrow> nat \<Rightarrow> string \<Rightarrow> jsval list json_result"
and json_members :: "host \<Rightarrow> props \<Rightarrow> nat \<Rightarrow> string \<Rightarrow> props json_result" where
  "json_value h i s =
     (case json_skip s of
        [] \<Rightarrow> None
      | c # r \<Rightarrow>
          (if of_char c = (34 :: nat) then
             map_option (\<lambda>xr. (JStr (fst xr), i, snd xr)) (json_string h [] r)
           else if c = CHR ''['' then
             (if starts_with '']'' (json_skip r) then Some (JArr i [], Suc i, tl (json_skip r))
              else map_option (\<lambda>x. (JArr i (fst x), snd x)) (json_elements h (Suc i) r))
           else if c = CHR ''{'' then
             (if starts_with ''}'' (json_skip r) then Some (JObj i [], Suc i, tl (json_skip r))
              else map_option (\<lambda>x. (JObj i (fst x), snd x)) (json_members h [] (Suc i) r))
           else map_option (\<lambda>xr. (fst xr, i, snd xr)) (json_word (c # r))))"
| "json_elements h i s =
     (case shorter (json_value h i s) s of
        None \<Rightarrow> None
      | Some x \<Rightarrow>
          (case json_skip (snd (snd x)) of
             [] \<Rightarrow> None
           | c # r \<Rightarrow>
               (if c = CHR '']'' then Some ([fst x], fst (snd x), r)
                else if c = CHR '','' then
                  map_option (\<lambda>y. (fst x # fst y, snd y)) (json_elements h (fst (snd x)) r)
                else None)))"
| "json_members h ps i s =
     (case json_skip s of
        [] \<Rightarrow> None
      | c # r \<Rightarrow>
          (if of_char c \<noteq> (34 :: nat) then None
           else case json_string h [] r of
             None \<Rightarrow> None
           | Some k \<Rightarrow>
               (case json_skip (snd k) of
                  [] \<Rightarrow> None
                | c1 # r1 \<Rightarrow>
                    (if c1 \<noteq> CHR '':'' then None
                     else case shorter (json_value h i r1) r1 of
                       None \<Rightarrow> None
                     | Some x \<Rightarrow>
                         (case json_skip (snd (snd x)) of
                            [] \<Rightarrow> None
                          | c2 # r2 \<Rightarrow>
                              (if c2 = CHR ''}'' then
                                 Some (define_prop (fst k) (fst x) ps, fst (snd x), r2)
                               else if c2 = CHR '','' then
                                 json_members h (define_prop (fst k) (fst x) ps) (fst (snd x)) r2
                               else None))))))"
  by pat_completeness auto

termination
proof (relation "measure (\<lambda>x. case x of Inl (h, i, s) \<Rightarrow> 2 * length s
    | Inr (Inl (h, i, s)) \<Rightarrow> 2 * length s + 1 | Inr (Inr (h, ps, i, s)) \<Rightarrow> 2 * length s)")
qed (auto simp: shorter_def dest!: json_skip_Cons json_string_shorter split: option.splits if_splits)

declare json_value.simps [simp del] json_elements.simps [simp del] json_members.simps [simp del]

section \<open>The length tests never fail\<close>

lemma span_le: "length (snd (span p s)) \<le> length s"
  by (simp add: span_def length_dropWhile_le)

lemma span_less: "fst (span p s) \<noteq> [] \<Longrightarrow> length (snd (span p s)) < length s"
  by (cases s) (auto simp: span_def length_dropWhile_le less_Suc_eq_le split: if_splits)

lemma scan_exponent_le: "length (snd (scan_exponent s)) \<le> length s"
proof (cases s)
  case (Cons c r)
  show ?thesis
    using span_le [of is_digit r] span_le [of is_digit "tl r"]
    by (auto simp: Cons scan_exponent_def Let_def split_beta split: list.splits char.splits bool.splits)
qed (simp add: scan_exponent_def)

lemma scan_decimal_shorter:
  assumes "scan_decimal s = Some x" shows "length (snd x) < length s"
proof -
  define r1 where "r1 = snd (span is_digit s)"
  define fr where "fr = (case r1 of CHR ''.'' # r \<Rightarrow> (let (fp, r') = span is_digit r
      in if fst (span is_digit s) = [] \<and> fp = [] then ([], r1) else (fp, r')) | _ \<Rightarrow> ([], r1))"
  have fr: "length (snd fr) \<le> length r1" "fst fr \<noteq> [] \<Longrightarrow> length (snd fr) < length r1"
    unfolding fr_def using span_le [of is_digit "tl r1"]
    by (auto simp: Let_def split_beta split: list.splits char.splits bool.splits)
  have "length r1 \<le> length s" "fst (span is_digit s) \<noteq> [] \<Longrightarrow> length r1 < length s"
    by (auto simp: r1_def span_le span_less)
  moreover have "length (snd x) \<le> length (snd fr)" "fst (span is_digit s) \<noteq> [] \<or> fst fr \<noteq> []"
    using assms scan_exponent_le [of "snd fr"]
    unfolding scan_decimal_def fr_def r1_def by (auto simp: Let_def split_beta split: if_splits)
  ultimately show ?thesis using fr by auto
qed

lemma json_number_shorter:
  assumes "json_number s = Some x" shows "length (snd x) < length s"
proof -
  define r where "r = snd (case s of CHR ''-'' # r \<Rightarrow> (True, r) | _ \<Rightarrow> (False, s))"
  have "length r \<le> length s"
    unfolding r_def by (auto split: list.splits char.splits bool.splits)
  moreover have "length (snd x) < length r"
    using assms unfolding json_number_def r_def
    by (auto simp: Let_def split_beta dest!: scan_decimal_shorter split: if_splits)
  ultimately show ?thesis by simp
qed

lemma json_word_shorter: "json_word s = Some x \<Longrightarrow> length (snd x) < length s"
  by (auto simp: json_word_def starts_with_iff dest!: json_number_shorter split: if_splits)

lemma shorter_Some: "shorter res s = Some x \<Longrightarrow> res = Some x \<and> length (snd (snd x)) < length s"
  by (auto simp: shorter_def split: option.splits if_splits)

lemma json_readers_shorter:
  "json_value h i s = Some x \<Longrightarrow> length (snd (snd x)) < length s"
  "json_elements h i s = Some y \<Longrightarrow> length (snd (snd y)) < length s"
  "json_members h ps i s = Some z \<Longrightarrow> length (snd (snd z)) < length s"
proof (induction h i s and h i s and h ps i s arbitrary: x and y and z
       rule: json_value_json_elements_json_members.induct)
  case (1 h i s)
  obtain c r where s: "json_skip s = c # r"
    using "1.prems" by (auto simp: json_value.simps [of h i s] split: list.splits)
  note v = json_value.simps [of h i s]
  note le = json_skip_le [of s, unfolded s] json_skip_le [of r]
  note IH = "1.IH" [OF s]
  show ?case
  proof (cases "of_char c = (34 :: nat)")
    case True
    then show ?thesis using "1.prems" v s le by (auto dest!: json_string_shorter)
  next
    case a: False
    show ?thesis
    proof (cases "c = CHR ''[''")
      case True
      then show ?thesis using "1.prems" v s le IH(1) [OF a]
        by (auto simp: starts_with_iff split: if_splits)
    next
      case b: False
      show ?thesis
      proof (cases "c = CHR ''{''")
        case True
        then show ?thesis using "1.prems" v s le IH(2) [OF a b]
          by (auto simp: starts_with_iff split: if_splits)
      next
        case False
        then show ?thesis using "1.prems" v s le a b by (auto dest!: json_word_shorter)
      qed
    qed
  qed
next
  case (2 h i s)
  obtain x where x: "shorter (json_value h i s) s = Some x"
    using "2.prems" by (auto simp: json_elements.simps [of h i s] split: option.splits)
  obtain c r where c: "json_skip (snd (snd x)) = c # r"
    using "2.prems" x by (auto simp: json_elements.simps [of h i s] split: list.splits)
  note e = json_elements.simps [of h i s]
  have less: "length r < length s"
    using shorter_Some [OF x] json_skip_Cons [OF c] by simp
  show ?case
  proof (cases "c = CHR '']''")
    case True
    then show ?thesis using "2.prems" e x c less by auto
  next
    case False
    then show ?thesis
      using "2.prems" e x c less by (auto split: if_splits dest!: "2.IH"(2) [OF x c False])
  qed
next
  case (3 h ps i s)
  obtain c r where s: "json_skip s = c # r"
    using "3.prems" by (auto simp: json_members.simps [of h ps i s] split: list.splits)
  have q: "\<not> of_char c \<noteq> (34 :: nat)"
    using "3.prems" json_members.simps [of h ps i s] s by (auto split: if_splits)
  obtain k where k: "json_string h [] r = Some k"
    using "3.prems" json_members.simps [of h ps i s] s q by (auto split: option.splits)
  obtain r1 where r1: "json_skip (snd k) = CHR '':'' # r1"
    using "3.prems" json_members.simps [of h ps i s] s q k by (auto split: list.splits if_splits)
  obtain x where x: "shorter (json_value h i r1) r1 = Some x"
    using "3.prems" json_members.simps [of h ps i s] s q k r1 by (auto split: option.splits)
  obtain c2 r2 where c2: "json_skip (snd (snd x)) = c2 # r2"
    using "3.prems" json_members.simps [of h ps i s] s q k r1 x by (auto split: list.splits)
  have less: "length r2 < length s"
    using json_skip_Cons [OF s] json_string_shorter [OF k] json_skip_Cons [OF r1]
      shorter_Some [OF x] json_skip_Cons [OF c2] by simp
  show ?case
  proof (cases "c2 = CHR ''}''")
    case True
    then show ?thesis using "3.prems" json_members.simps [of h ps i s] s q k r1 x c2 less by auto
  next
    case False
    have "c2 = CHR '',''"
      using "3.prems" json_members.simps [of h ps i s] s q k r1 x c2 False by (auto split: if_splits)
    then show ?thesis
      using "3.prems" json_members.simps [of h ps i s] s q k r1 x c2 less
      by (auto dest!: "3.IH"(2) [OF s q k r1 _ x c2 False, simplified])
  qed
qed

lemma shorter_json_value [simp]: "shorter (json_value h i s) s = json_value h i s"
  by (auto simp: shorter_def json_readers_shorter(1) split: option.splits)

section \<open>JSON.parse\<close>

definition json_parse :: "host \<Rightarrow> nat \<Rightarrow> string \<Rightarrow> (jsval \<times> nat) option" where
  "json_parse h i s =
     (case json_value h i s of
        None \<Rightarrow> None
      | Some x \<Rightarrow> (if json_skip (snd (snd x)) = [] then Some (fst x, fst (snd x)) else None))"

end
