(* ===== verification/Builtins.thy ===== *)
theory Builtins
  imports Json ExprError
begin

text \<open>
  The built-in functions of the expression language (\<open>functions/*.ts\<close>). A call runs in the
  evaluation monad of this theory: the state counts the readings of the host (clock, random
  numbers, current date) and holds the next unused identity for new arrays and objects; a
  raised error leaves the state reached so far, as \<open>try\<close>/\<open>catch\<close> does. Missing arguments are
  \<open>undefined\<close>.
\<close>

section \<open>The evaluation monad\<close>

record est =
  e_ticks :: nat
  e_next :: nat

type_synonym 'a ev = "est \<Rightarrow> (js_throw + 'a) \<times> est"

definition retM :: "'a \<Rightarrow> 'a ev" where
  "retM x st = (Inr x, st)"

definition throwM :: "js_throw \<Rightarrow> 'a ev" where
  "throwM e st = (Inl e, st)"

definition bindM :: "'a ev \<Rightarrow> ('a \<Rightarrow> 'b ev) \<Rightarrow> 'b ev" where
  "bindM m f st = (case m st of (Inl e, st') \<Rightarrow> (Inl e, st') | (Inr x, st') \<Rightarrow> f x st')"

definition liftE :: "js_throw + 'a \<Rightarrow> 'a ev" where
  "liftE r st = (r, st)"

text \<open>\<open>try { m } catch (e) { handler(e) }\<close>.\<close>

definition catchM :: "'a ev \<Rightarrow> (js_throw \<Rightarrow> 'a ev) \<Rightarrow> 'a ev" where
  "catchM m handler st = (case m st of (Inl e, st') \<Rightarrow> handler e st' | (Inr x, st') \<Rightarrow> (Inr x, st'))"

definition tickM :: "nat ev" where
  "tickM st = (Inr (e_ticks st), st\<lparr>e_ticks := Suc (e_ticks st)\<rparr>)"

definition new_array :: "jsval list \<Rightarrow> jsval ev" where
  "new_array vs st = (Inr (JArr (e_next st) vs), st\<lparr>e_next := Suc (e_next st)\<rparr>)"

definition new_object :: "props \<Rightarrow> jsval ev" where
  "new_object ps st = (Inr (JObj (e_next st) ps), st\<lparr>e_next := Suc (e_next st)\<rparr>)"

fun mapM_ev :: "('a \<Rightarrow> 'b ev) \<Rightarrow> 'a list \<Rightarrow> 'b list ev" where
  "mapM_ev f [] = retM []"
| "mapM_ev f (x # xs) = bindM (f x) (\<lambda>y. bindM (mapM_ev f xs) (\<lambda>ys. retM (y # ys)))"

lemmas monad_defs = retM_def throwM_def bindM_def liftE_def catchM_def tickM_def
  new_array_def new_object_def

lemma bindM_simps [simp]:
  "bindM (retM x) f = f x"
  "bindM (throwM e) f = throwM e"
  "bindM (bindM m f) g = bindM m (\<lambda>x. bindM (f x) g)"
  by (auto simp: fun_eq_iff monad_defs split: prod.splits sum.splits)

section \<open>Strings\<close>

text \<open>A string longer than the engine supports is a \<open>RangeError\<close>.\<close>

definition js_alloc :: "host \<Rightarrow> string \<Rightarrow> js_throw + string" where
  "js_alloc h s =
     (if h_max_string h < length s then Inl (HostError ''Invalid string length'') else Inr s)"

definition arg :: "jsval list \<Rightarrow> nat \<Rightarrow> jsval" where
  "arg args i = (if i < length args then args ! i else JUndef)"

lemma arg_simps [simp]:
  "arg [] i = JUndef" "arg (v # vs) 0 = v" "arg (v # vs) (Suc i) = arg vs i"
  by (auto simp: arg_def)

fun assertString :: "jsval \<Rightarrow> string \<Rightarrow> string ev" where
  "assertString (JStr s) fnName = retM s"
| "assertString v fnName =
     throwM (TypeErr (fnName @ '' expects a string argument, got '' @ js_typeof v))"

fun find_sub :: "string \<Rightarrow> string \<Rightarrow> nat option" where
  "find_sub p [] = (if p = [] then Some 0 else None)"
| "find_sub p (c # s) =
     (if starts_with p (c # s) then Some 0 else map_option Suc (find_sub p s))"

text \<open>
  The replacement template of \<open>String.prototype.replace\<close> with a string pattern: \<open>$$\<close>, \<open>$&\<close>, and
  the text before and after the match.
\<close>

fun expand_replacement :: "string \<Rightarrow> string \<Rightarrow> string \<Rightarrow> string \<Rightarrow> string" where
  "expand_replacement matched pre post (d # c # t) =
     (if d \<noteq> CHR ''$'' then d # expand_replacement matched pre post (c # t)
      else if c = CHR ''$'' then CHR ''$'' # expand_replacement matched pre post t
      else if c = CHR ''&'' then matched @ expand_replacement matched pre post t
      else if c = CHR 0x60 then pre @ expand_replacement matched pre post t
      else if c = CHR 0x27 then post @ expand_replacement matched pre post t
      else CHR ''$'' # expand_replacement matched pre post (c # t))"
| "expand_replacement matched pre post t = t"

definition js_replace :: "string \<Rightarrow> string \<Rightarrow> string \<Rightarrow> string" where
  "js_replace s search rep =
     (case find_sub search s of
        None \<Rightarrow> s
      | Some i \<Rightarrow>
          (let pre = take i s; post = drop (i + length search) s
           in pre @ expand_replacement search pre post rep @ post))"

text \<open>The filler of \<open>padStart\<close> and \<open>padEnd\<close>: whole copies, then a prefix.\<close>

definition pad_filler :: "host \<Rightarrow> string \<Rightarrow> jsnum \<Rightarrow> string \<Rightarrow> js_throw + string" where
  "pad_filler h s len fill =
     (let n = (if len = PInf then 9007199254740991
               else if len = NInf then 0
               else min 9007199254740991 (max 0 (num_to_int len)))
      in if n \<le> int (length s) \<or> fill = [] then Inr []
         else if int (h_max_string h) < n then Inl (HostError ''Invalid string length'')
         else let k = nat n - length s
              in Inr (take k (concat (replicate (k div length fill + 1) fill))))"

text \<open>\<open>s.split(sep)\<close>: an empty separator gives the single characters.\<close>

definition js_split :: "string \<Rightarrow> string \<Rightarrow> string list" where
  "js_split sep s = (if sep = [] then map (\<lambda>c. [c]) s else js_split_on sep s)"

definition fn_length :: "jsval list \<Rightarrow> jsval ev" where
  "fn_length args = (case arg args 0 of
     JStr s \<Rightarrow> retM (JNum (num_of_nat (length s)))
   | JArr _ vs \<Rightarrow> retM (JNum (num_of_nat (length vs)))
   | _ \<Rightarrow> throwM (TypeErr ''length expects a string or array argument''))"

definition fn_uppercase :: "host \<Rightarrow> jsval list \<Rightarrow> jsval ev" where
  "fn_uppercase h args = bindM (assertString (arg args 0) ''uppercase'') (\<lambda>s. retM (JStr (h_upper h s)))"

definition fn_lowercase :: "host \<Rightarrow> jsval list \<Rightarrow> jsval ev" where
  "fn_lowercase h args = bindM (assertString (arg args 0) ''lowercase'') (\<lambda>s. retM (JStr (h_lower h s)))"

definition fn_trim :: "jsval list \<Rightarrow> jsval ev" where
  "fn_trim args = bindM (assertString (arg args 0) ''trim'') (\<lambda>s. retM (JStr (js_trim s)))"

definition fn_contains :: "jsval list \<Rightarrow> jsval ev" where
  "fn_contains args =
     bindM (assertString (arg args 0) ''contains'') (\<lambda>s.
     bindM (assertString (arg args 1) ''contains'') (\<lambda>sub.
       retM (JBool (find_sub sub s \<noteq> None))))"

definition fn_startsWith :: "jsval list \<Rightarrow> jsval ev" where
  "fn_startsWith args =
     bindM (assertString (arg args 0) ''startsWith'') (\<lambda>s.
     bindM (assertString (arg args 1) ''startsWith'') (\<lambda>p.
       retM (JBool (starts_with p s))))"

definition fn_endsWith :: "jsval list \<Rightarrow> jsval ev" where
  "fn_endsWith args =
     bindM (assertString (arg args 0) ''endsWith'') (\<lambda>s.
     bindM (assertString (arg args 1) ''endsWith'') (\<lambda>p.
       retM (JBool (starts_with (rev p) (rev s)))))"

definition fn_replace :: "host \<Rightarrow> jsval list \<Rightarrow> jsval ev" where
  "fn_replace h args =
     bindM (assertString (arg args 0) ''replace'') (\<lambda>s.
     bindM (assertString (arg args 1) ''replace'') (\<lambda>search.
     bindM (assertString (arg args 2) ''replace'') (\<lambda>rep.
     bindM (liftE (js_alloc h (js_replace s search rep))) (\<lambda>r. retM (JStr r)))))"

definition fn_replaceAll :: "host \<Rightarrow> jsval list \<Rightarrow> jsval ev" where
  "fn_replaceAll h args =
     bindM (assertString (arg args 0) ''replaceAll'') (\<lambda>s.
     bindM (assertString (arg args 1) ''replaceAll'') (\<lambda>search.
     bindM (assertString (arg args 2) ''replaceAll'') (\<lambda>rep.
     bindM (liftE (js_alloc h (js_join rep (js_split search s)))) (\<lambda>r. retM (JStr r)))))"

definition fn_split :: "jsval list \<Rightarrow> jsval ev" where
  "fn_split args =
     bindM (assertString (arg args 0) ''split'') (\<lambda>s.
     bindM (assertString (arg args 1) ''split'') (\<lambda>sep.
       new_array (map JStr (js_split_on sep s))))"

definition fn_join :: "host \<Rightarrow> jsval list \<Rightarrow> jsval ev" where
  "fn_join h args = (case arg args 0 of
     JArr _ vs \<Rightarrow>
       bindM (assertString (arg args 1) ''join'') (\<lambda>sep.
       bindM (liftE (js_alloc h (js_join sep
                (map (\<lambda>v. if is_nullish v then [] else to_js_string h v) vs)))) (\<lambda>r.
         retM (JStr r)))
   | _ \<Rightarrow> throwM (TypeErr ''join expects an array as first argument''))"

text \<open>A \<open>null\<close> end passes the guard and reaches the host, where it counts as \<open>0\<close>.\<close>

fun end_arg :: "jsnum \<Rightarrow> jsval \<Rightarrow> jsnum option" where
  "end_arg dflt JUndef = Some dflt"
| "end_arg dflt JNull = Some (Fin 0)"
| "end_arg dflt (JNum x) = Some x"
| "end_arg dflt _ = None"

definition fn_substring :: "jsval list \<Rightarrow> jsval ev" where
  "fn_substring args =
     bindM (assertString (arg args 0) ''substring'') (\<lambda>s.
       (case arg args 1 of
          JNum start \<Rightarrow>
            (case end_arg (num_of_nat (length s)) (arg args 2) of
               None \<Rightarrow> throwM (TypeErr ''substring expects a number as end index'')
             | Some e \<Rightarrow>
                 (let i = clamp_index (length s) start; j = clamp_index (length s) e
                  in retM (JStr (slice s (min i j) (max i j)))))
        | _ \<Rightarrow> throwM (TypeErr ''substring expects a number as start index'')))"

definition fn_pad :: "string \<Rightarrow> bool \<Rightarrow> host \<Rightarrow> jsval list \<Rightarrow> jsval ev" where
  "fn_pad fnName front h args =
     bindM (assertString (arg args 0) fnName) (\<lambda>s.
       (case arg args 1 of
          JNum len \<Rightarrow>
            bindM (if is_nullish (arg args 2) then retM '' '' else assertString (arg args 2) fnName) (\<lambda>fill.
            bindM (liftE (pad_filler h s len fill)) (\<lambda>p.
              retM (JStr (if front then p @ s else s @ p))))
        | _ \<Rightarrow> throwM (TypeErr (fnName @ '' expects a number as length''))))"

definition fn_padStart :: "host \<Rightarrow> jsval list \<Rightarrow> jsval ev" where
  "fn_padStart = fn_pad ''padStart'' True"

definition fn_padEnd :: "host \<Rightarrow> jsval list \<Rightarrow> jsval ev" where
  "fn_padEnd = fn_pad ''padEnd'' False"

section \<open>Numbers\<close>

fun assertNumber :: "jsval \<Rightarrow> string \<Rightarrow> jsnum ev" where
  "assertNumber (JNum x) fnName =
     (if x = NaN then throwM (TypeErr (fnName @ '' expects a number argument, got number''))
      else retM x)"
| "assertNumber v fnName =
     throwM (TypeErr (fnName @ '' expects a number argument, got '' @ js_typeof v))"

definition fn_round :: "host \<Rightarrow> jsval list \<Rightarrow> jsval ev" where
  "fn_round h args =
     bindM (assertNumber (arg args 0) ''round'') (\<lambda>n.
       if is_nullish (arg args 1) then retM (JNum (num_round n))
       else bindM (assertNumber (arg args 1) ''round'') (\<lambda>d.
         let factor = h_pow10 h d
         in retM (JNum (num_div (num_round (num_mul n factor)) factor))))"

definition fn_ceil :: "jsval list \<Rightarrow> jsval ev" where
  "fn_ceil args = bindM (assertNumber (arg args 0) ''ceil'') (\<lambda>n. retM (JNum (num_ceil n)))"

definition fn_floor :: "jsval list \<Rightarrow> jsval ev" where
  "fn_floor args = bindM (assertNumber (arg args 0) ''floor'') (\<lambda>n. retM (JNum (num_floor n)))"

definition fn_abs :: "jsval list \<Rightarrow> jsval ev" where
  "fn_abs args = bindM (assertNumber (arg args 0) ''abs'') (\<lambda>n. retM (JNum (num_abs n)))"

definition fn_min :: "jsval list \<Rightarrow> jsval ev" where
  "fn_min args =
     (if args = [] then throwM (TypeErr ''min expects at least one argument'')
      else bindM (mapM_ev (\<lambda>a. assertNumber a ''min'') args) (\<lambda>nums.
        retM (JNum (foldl num_min2 PInf nums))))"

definition fn_max :: "jsval list \<Rightarrow> jsval ev" where
  "fn_max args =
     (if args = [] then throwM (TypeErr ''max expects at least one argument'')
      else bindM (mapM_ev (\<lambda>a. assertNumber a ''max'') args) (\<lambda>nums.
        retM (JNum (foldl num_max2 NInf nums))))"

definition dquoted :: "string \<Rightarrow> string" where
  "dquoted s = [CHR 0x22] @ s @ [CHR 0x22]"

definition fn_parseInt :: "jsval list \<Rightarrow> jsval ev" where
  "fn_parseInt args = (case arg args 0 of
     JNum x \<Rightarrow> retM (JNum (num_trunc x))
   | JStr s \<Rightarrow>
       (let result = parse_int10 s
        in if result = NaN then throwM (TypeErr (''Cannot parse '' @ dquoted s @ '' as integer''))
           else retM (JNum result))
   | _ \<Rightarrow> throwM (TypeErr ''parseInt expects a string or number argument''))"

definition fn_parseFloat :: "jsval list \<Rightarrow> jsval ev" where
  "fn_parseFloat args = (case arg args 0 of
     JNum x \<Rightarrow> retM (JNum x)
   | JStr s \<Rightarrow>
       (let result = parse_float s
        in if result = NaN then throwM (TypeErr (''Cannot parse '' @ dquoted s @ '' as float''))
           else retM (JNum result))
   | _ \<Rightarrow> throwM (TypeErr ''parseFloat expects a string or number argument''))"

definition fn_toFixed :: "jsval list \<Rightarrow> jsval ev" where
  "fn_toFixed args =
     bindM (assertNumber (arg args 0) ''toFixed'') (\<lambda>n.
     bindM (assertNumber (arg args 1) ''toFixed'') (\<lambda>d.
       (case to_fixed n d of
          Some s \<Rightarrow> retM (JStr s)
        | None \<Rightarrow> throwM (HostError ''toFixed() digits argument must be between 0 and 100''))))"

definition fn_random :: "host \<Rightarrow> jsval list \<Rightarrow> jsval ev" where
  "fn_random h args = bindM tickM (\<lambda>k. retM (JNum (h_random h k)))"

section \<open>Arrays\<close>

fun assertArray :: "jsval \<Rightarrow> string \<Rightarrow> jsval list ev" where
  "assertArray (JArr _ vs) fnName = retM vs"
| "assertArray v fnName =
     throwM (TypeErr (fnName @ '' expects an array argument, got '' @ js_typeof v))"

text \<open>\<open>new Set(values)\<close>: the first of equal values stays, and negative zero becomes zero.\<close>

fun js_set_add :: "jsval \<Rightarrow> jsval list \<Rightarrow> jsval list" where
  "js_set_add v xs =
     (if \<exists>x \<in> set xs. same_value_zero x v then xs
      else xs @ [if v = JNum NZero then JNum (Fin 0) else v])"

definition js_set :: "jsval list \<Rightarrow> jsval list" where
  "js_set vs = fold js_set_add vs []"

definition fn_first :: "jsval list \<Rightarrow> jsval ev" where
  "fn_first args = bindM (assertArray (arg args 0) ''first'') (\<lambda>a.
     retM (case a of [] \<Rightarrow> JNull | v # _ \<Rightarrow> v))"

definition fn_last :: "jsval list \<Rightarrow> jsval ev" where
  "fn_last args = bindM (assertArray (arg args 0) ''last'') (\<lambda>a.
     retM (if a = [] then JNull else last a))"

definition fn_includes :: "jsval list \<Rightarrow> jsval ev" where
  "fn_includes args = bindM (assertArray (arg args 0) ''includes'') (\<lambda>a.
     retM (JBool (list_ex (\<lambda>x. same_value_zero x (arg args 1)) a)))"

definition fn_reverse :: "jsval list \<Rightarrow> jsval ev" where
  "fn_reverse args = bindM (assertArray (arg args 0) ''reverse'') (\<lambda>a. new_array (rev a))"

definition fn_flatten :: "jsval list \<Rightarrow> jsval ev" where
  "fn_flatten args = bindM (assertArray (arg args 0) ''flatten'') (\<lambda>a.
     new_array (concat (map (\<lambda>v. case v of JArr _ vs \<Rightarrow> vs | _ \<Rightarrow> [v]) a)))"

definition fn_unique :: "jsval list \<Rightarrow> jsval ev" where
  "fn_unique args = bindM (assertArray (arg args 0) ''unique'') (\<lambda>a. new_array (js_set a))"

definition fn_compact :: "jsval list \<Rightarrow> jsval ev" where
  "fn_compact args = bindM (assertArray (arg args 0) ''compact'') (\<lambda>a.
     new_array (filter (\<lambda>v. \<not> is_nullish v) a))"

definition fn_slice :: "jsval list \<Rightarrow> jsval ev" where
  "fn_slice args = bindM (assertArray (arg args 0) ''slice'') (\<lambda>a.
     (case arg args 1 of
        JNum start \<Rightarrow>
          (case end_arg (num_of_nat (length a)) (arg args 2) of
             None \<Rightarrow> throwM (TypeErr ''slice expects a number as end index'')
           | Some e \<Rightarrow>
               new_array (slice a (relative_index (length a) start) (relative_index (length a) e)))
      | _ \<Rightarrow> throwM (TypeErr ''slice expects a number as start index'')))"

definition fn_concat :: "jsval list \<Rightarrow> jsval ev" where
  "fn_concat args =
     bindM (assertArray (arg args 0) ''concat'') (\<lambda>a1.
     bindM (assertArray (arg args 1) ''concat'') (\<lambda>a2. new_array (a1 @ a2)))"

section \<open>Objects\<close>

fun assertObject :: "jsval \<Rightarrow> string \<Rightarrow> props ev" where
  "assertObject (JObj _ ps) fnName = retM ps"
| "assertObject v fnName =
     throwM (TypeErr (fnName @ '' expects an object argument, got '' @
       (if is_array v then ''array'' else js_typeof v)))"

definition fn_keys :: "jsval list \<Rightarrow> jsval ev" where
  "fn_keys args = bindM (assertObject (arg args 0) ''keys'') (\<lambda>ps.
     new_array (map (\<lambda>kv. JStr (fst kv)) ps))"

definition fn_values :: "jsval list \<Rightarrow> jsval ev" where
  "fn_values args = bindM (assertObject (arg args 0) ''values'') (\<lambda>ps. new_array (map snd ps))"

definition fn_entries :: "jsval list \<Rightarrow> jsval ev" where
  "fn_entries args = bindM (assertObject (arg args 0) ''entries'') (\<lambda>ps.
     bindM (mapM_ev (\<lambda>kv. new_array [JStr (fst kv), snd kv]) ps) new_array)"

definition fn_hasKey :: "jsval list \<Rightarrow> jsval ev" where
  "fn_hasKey args = bindM (assertObject (arg args 0) ''hasKey'') (\<lambda>ps.
     (case arg args 1 of
        JStr k \<Rightarrow> retM (JBool (map_of ps k \<noteq> None))
      | _ \<Rightarrow> throwM (TypeErr ''hasKey expects a string as key argument'')))"

text \<open>\<open>{ ...o1, ...o2 }\<close>.\<close>

definition spread :: "props \<Rightarrow> props \<Rightarrow> props" where
  "spread o1 o2 = fold (\<lambda>kv ps. define_prop (fst kv) (snd kv) ps) o2 o1"

definition fn_merge :: "jsval list \<Rightarrow> jsval ev" where
  "fn_merge args =
     bindM (assertObject (arg args 0) ''merge'') (\<lambda>o1.
     bindM (assertObject (arg args 1) ''merge'') (\<lambda>o2. new_object (spread o1 o2)))"

definition pick_props :: "props \<Rightarrow> jsval list \<Rightarrow> props" where
  "pick_props ps keys = fold (\<lambda>k result. case k of
       JStr s \<Rightarrow> (case map_of ps s of Some v \<Rightarrow> assign_prop s v result | None \<Rightarrow> result)
     | _ \<Rightarrow> result) keys []"

definition fn_pick :: "jsval list \<Rightarrow> jsval ev" where
  "fn_pick args = bindM (assertObject (arg args 0) ''pick'') (\<lambda>ps.
     (case arg args 1 of
        JArr _ keys \<Rightarrow> new_object (pick_props ps keys)
      | _ \<Rightarrow> throwM (TypeErr ''pick expects an array of keys as second argument'')))"

definition omit_props :: "props \<Rightarrow> jsval list \<Rightarrow> props" where
  "omit_props ps keys = fold (\<lambda>kv result.
       if JStr (fst kv) \<in> set keys then result else assign_prop (fst kv) (snd kv) result) ps []"

definition fn_omit :: "jsval list \<Rightarrow> jsval ev" where
  "fn_omit args = bindM (assertObject (arg args 0) ''omit'') (\<lambda>ps.
     (case arg args 1 of
        JArr _ keys \<Rightarrow> new_object (omit_props ps keys)
      | _ \<Rightarrow> throwM (TypeErr ''omit expects an array of keys as second argument'')))"

section \<open>Types\<close>

text \<open>
  \<open>JSON.stringify(v)\<close> for an object or array, \<open>String(v)\<close> for the rest, empty for nullish values:
  the body of \<open>toString\<close> here and of \<open>toStringValue\<close> in the evaluator.
\<close>

definition display_string :: "host \<Rightarrow> jsval \<Rightarrow> js_throw + string" where
  "display_string h v =
     (if is_nullish v then Inr []
      else case v of
        JStr s \<Rightarrow> Inr s
      | _ \<Rightarrow>
          (if is_object v
           then js_alloc h (case json_stringify v of Some s \<Rightarrow> s | None \<Rightarrow> [])
           else js_alloc h (to_js_string h v)))"

definition fn_toString :: "host \<Rightarrow> jsval list \<Rightarrow> jsval ev" where
  "fn_toString h args = bindM (liftE (display_string h (arg args 0))) (\<lambda>s. retM (JStr s))"

definition fn_toNumber :: "jsval list \<Rightarrow> jsval ev" where
  "fn_toNumber args = (case arg args 0 of
     JNum x \<Rightarrow> retM (JNum x)
   | JBool b \<Rightarrow> retM (JNum (Fin (if b then 1 else 0)))
   | JStr s \<Rightarrow>
       (let n = string_to_num s
        in if n = NaN then throwM (TypeErr (''Cannot convert '' @ dquoted s @ '' to number''))
           else retM (JNum n))
   | JNull \<Rightarrow> retM (JNum (Fin 0))
   | v \<Rightarrow> throwM (TypeErr (''Cannot convert '' @ js_typeof v @ '' to number'')))"

definition fn_toBoolean :: "jsval list \<Rightarrow> jsval ev" where
  "fn_toBoolean args = retM (JBool (case arg args 0 of
     JUndef \<Rightarrow> False
   | JNull \<Rightarrow> False
   | JBool b \<Rightarrow> b
   | JNum x \<Rightarrow> \<not> num_eq x (Fin 0)
   | JStr s \<Rightarrow> s \<noteq> []
   | JArr _ vs \<Rightarrow> vs \<noteq> []
   | JObj _ ps \<Rightarrow> ps \<noteq> []
   | JFun _ \<Rightarrow> True))"

definition fn_toJSON :: "host \<Rightarrow> jsval list \<Rightarrow> jsval ev" where
  "fn_toJSON h args =
     (case json_stringify (arg args 0) of
        None \<Rightarrow> retM JUndef
      | Some s \<Rightarrow>
          (if h_max_string h < length s
           then throwM (FunctionErr ''Failed to convert value to JSON'') else retM (JStr s)))"

definition fn_fromJSON :: "host \<Rightarrow> jsval list \<Rightarrow> jsval ev" where
  "fn_fromJSON h args = (case arg args 0 of
     JStr s \<Rightarrow> (\<lambda>st.
       (case json_parse h (e_next st) s of
          None \<Rightarrow> (Inl (FunctionErr (''Failed to parse JSON: '' @ dquoted s)), st)
        | Some x \<Rightarrow> (Inr (fst x), st\<lparr>e_next := snd x\<rparr>)))
   | _ \<Rightarrow> throwM (TypeErr ''fromJSON expects a string argument''))"

definition fn_typeOf :: "jsval list \<Rightarrow> jsval ev" where
  "fn_typeOf args = retM (JStr (
     if arg args 0 = JNull then ''null''
     else if is_array (arg args 0) then ''array''
     else js_typeof (arg args 0)))"

definition fn_isEmpty :: "jsval list \<Rightarrow> jsval ev" where
  "fn_isEmpty args = retM (JBool (case arg args 0 of
     JUndef \<Rightarrow> True
   | JNull \<Rightarrow> True
   | JStr s \<Rightarrow> s = []
   | JArr _ vs \<Rightarrow> vs = []
   | JObj _ ps \<Rightarrow> ps = []
   | _ \<Rightarrow> False))"

definition fn_isNull :: "jsval list \<Rightarrow> jsval ev" where
  "fn_isNull args = retM (JBool (is_nullish (arg args 0)))"

section \<open>Dates\<close>

fun assertDateNumber :: "jsval \<Rightarrow> string \<Rightarrow> jsnum ev" where
  "assertDateNumber (JNum x) fnName = retM x"
| "assertDateNumber v fnName =
     throwM (TypeErr (fnName @ '' expects a number argument, got '' @ js_typeof v))"

definition parseDayjs :: "host \<Rightarrow> string \<Rightarrow> string \<Rightarrow> string ev" where
  "parseDayjs h dateStr fnName =
     (if h_day_valid h dateStr then retM dateStr
      else throwM (FunctionErr (fnName @ '': invalid date string '' @ dquoted dateStr)))"

definition time_units :: "(string \<times> string) list" where
  "time_units =
     [(''years'', ''year''), (''year'', ''year''), (''months'', ''month''), (''month'', ''month''),
      (''days'', ''day''), (''day'', ''day''), (''hours'', ''hour''), (''hour'', ''hour''),
      (''minutes'', ''minute''), (''minute'', ''minute''),
      (''seconds'', ''second''), (''second'', ''second'')]"

text \<open>
  \<open>map[unit]\<close> also finds the inherited properties of the table; a truthy one is returned as it
  is.
\<close>

definition normalizeUnit :: "host \<Rightarrow> string \<Rightarrow> jsval ev" where
  "normalizeUnit h unit =
     (case map_of time_units unit of
        Some u \<Rightarrow> retM (JStr u)
      | None \<Rightarrow>
          (case h_object_proto h unit of
             None \<Rightarrow> throwM (FunctionErr (''Invalid time unit: '' @ dquoted unit))
           | Some v \<Rightarrow>
               (if v \<in> {JUndef, JNull, JBool False, JStr [], JNum NaN, JNum NZero, JNum (Fin 0)}
                then throwM (FunctionErr (''Invalid time unit: '' @ dquoted unit))
                else retM v)))"

definition iso_string :: "string option \<Rightarrow> jsval ev" where
  "iso_string d = (case d of
     Some s \<Rightarrow> retM (JStr s) | None \<Rightarrow> throwM (HostError ''Invalid time value''))"

definition fn_formatDate :: "host \<Rightarrow> jsval list \<Rightarrow> jsval ev" where
  "fn_formatDate h args =
     bindM (assertString (arg args 0) ''formatDate'') (\<lambda>s.
     bindM (assertString (arg args 1) ''formatDate'') (\<lambda>p.
     bindM (parseDayjs h s ''formatDate'') (\<lambda>d. retM (JStr (h_day_format h d p)))))"

definition fn_parseDate :: "host \<Rightarrow> jsval list \<Rightarrow> jsval ev" where
  "fn_parseDate h args =
     bindM (assertString (arg args 0) ''parseDate'') (\<lambda>s.
     bindM (parseDayjs h s ''parseDate'') (\<lambda>d. retM (JStr (h_day_iso h d))))"

definition fn_addTime :: "host \<Rightarrow> jsval list \<Rightarrow> jsval ev" where
  "fn_addTime h args =
     bindM (assertString (arg args 0) ''addTime'') (\<lambda>s.
     bindM (assertDateNumber (arg args 1) ''addTime'') (\<lambda>n.
     bindM (assertString (arg args 2) ''addTime'') (\<lambda>u.
     bindM (parseDayjs h s ''addTime'') (\<lambda>d.
     bindM (normalizeUnit h u) (\<lambda>nu. iso_string (h_day_add h d n nu))))))"

definition fn_subtractTime :: "host \<Rightarrow> jsval list \<Rightarrow> jsval ev" where
  "fn_subtractTime h args =
     bindM (assertString (arg args 0) ''subtractTime'') (\<lambda>s.
     bindM (assertDateNumber (arg args 1) ''subtractTime'') (\<lambda>n.
     bindM (assertString (arg args 2) ''subtractTime'') (\<lambda>u.
     bindM (parseDayjs h s ''subtractTime'') (\<lambda>d.
     bindM (normalizeUnit h u) (\<lambda>nu. iso_string (h_day_sub h d n nu))))))"

definition fn_diffTime :: "host \<Rightarrow> jsval list \<Rightarrow> jsval ev" where
  "fn_diffTime h args =
     bindM (assertString (arg args 0) ''diffTime'') (\<lambda>s1.
     bindM (assertString (arg args 1) ''diffTime'') (\<lambda>s2.
     bindM (assertString (arg args 2) ''diffTime'') (\<lambda>u.
     bindM (parseDayjs h s1 ''diffTime'') (\<lambda>d1.
     bindM (parseDayjs h s2 ''diffTime'') (\<lambda>d2.
     bindM (normalizeUnit h u) (\<lambda>nu. retM (JNum (h_day_diff h d1 d2 nu))))))))"

definition fn_now :: "host \<Rightarrow> jsval list \<Rightarrow> jsval ev" where
  "fn_now h args = bindM tickM (\<lambda>k. retM (JStr (h_day_now h k)))"

definition fn_today :: "host \<Rightarrow> jsval list \<Rightarrow> jsval ev" where
  "fn_today h args = bindM tickM (\<lambda>k. retM (JStr (h_day_today h k)))"

section \<open>The registry\<close>

text \<open>The tables of the six files, registered in this order; a later entry would replace an earlier one.\<close>

type_synonym builtin = "jsval list \<Rightarrow> jsval ev"

definition stringFunctions :: "host \<Rightarrow> (string \<times> builtin) list" where
  "stringFunctions h =
     [(''length'', fn_length), (''uppercase'', fn_uppercase h), (''lowercase'', fn_lowercase h),
      (''trim'', fn_trim), (''contains'', fn_contains), (''startsWith'', fn_startsWith),
      (''endsWith'', fn_endsWith), (''replace'', fn_replace h), (''replaceAll'', fn_replaceAll h),
      (''split'', fn_split), (''join'', fn_join h), (''substring'', fn_substring),
      (''padStart'', fn_padStart h), (''padEnd'', fn_padEnd h)]"

definition numberFunctions :: "host \<Rightarrow> (string \<times> builtin) list" where
  "numberFunctions h =
     [(''round'', fn_round h), (''ceil'', fn_ceil), (''floor'', fn_floor), (''abs'', fn_abs),
      (''min'', fn_min), (''max'', fn_max), (''parseInt'', fn_parseInt),
      (''parseFloat'', fn_parseFloat), (''toFixed'', fn_toFixed), (''random'', fn_random h)]"

definition dateFunctions :: "host \<Rightarrow> (string \<times> builtin) list" where
  "dateFunctions h =
     [(''formatDate'', fn_formatDate h), (''parseDate'', fn_parseDate h), (''addTime'', fn_addTime h),
      (''subtractTime'', fn_subtractTime h), (''diffTime'', fn_diffTime h), (''now'', fn_now h),
      (''today'', fn_today h)]"

definition arrayFunctions :: "host \<Rightarrow> (string \<times> builtin) list" where
  "arrayFunctions h =
     [(''first'', fn_first), (''last'', fn_last), (''includes'', fn_includes),
      (''reverse'', fn_reverse), (''flatten'', fn_flatten), (''unique'', fn_unique),
      (''compact'', fn_compact), (''slice'', fn_slice), (''concat'', fn_concat)]"

definition objectFunctions :: "host \<Rightarrow> (string \<times> builtin) list" where
  "objectFunctions h =
     [(''keys'', fn_keys), (''values'', fn_values), (''entries'', fn_entries),
      (''hasKey'', fn_hasKey), (''merge'', fn_merge), (''pick'', fn_pick), (''omit'', fn_omit)]"

definition typeFunctions :: "host \<Rightarrow> (string \<times> builtin) list" where
  "typeFunctions h =
     [(''toString'', fn_toString h), (''toNumber'', fn_toNumber), (''toBoolean'', fn_toBoolean),
      (''toJSON'', fn_toJSON h), (''fromJSON'', fn_fromJSON h), (''typeOf'', fn_typeOf),
      (''isEmpty'', fn_isEmpty), (''isNull'', fn_isNull)]"

definition register :: "(string \<times> builtin) list \<Rightarrow> (string, builtin) jmap \<Rightarrow> (string, builtin) jmap" where
  "register fs m = fold (\<lambda>kv. jput (fst kv) (snd kv)) fs m"

definition registry :: "host \<Rightarrow> (string, builtin) jmap" where
  "registry h =
     register (typeFunctions h) (register (objectFunctions h) (register (arrayFunctions h)
       (register (dateFunctions h) (register (numberFunctions h) (register (stringFunctions h) [])))))"

definition getFunction :: "host \<Rightarrow> string \<Rightarrow> builtin option" where
  "getFunction h name = map_of (registry h) name"

definition hasFunction :: "host \<Rightarrow> string \<Rightarrow> bool" where
  "hasFunction h name = jhas (registry h) name"

definition getAllFunctionNames :: "host \<Rightarrow> string list" where
  "getAllFunctionNames h = jkeys (registry h)"

text \<open>No two built-ins share a name, so registration only appends.\<close>

lemma jput_new: "k \<notin> fst ` set m \<Longrightarrow> jput k v m = m @ [(k, v)]"
  by (induction m) auto

lemma register_append:
  "distinct (map fst fs) \<Longrightarrow> fst ` set fs \<inter> fst ` set m = {} \<Longrightarrow> register fs m = m @ fs"
  unfolding register_def
proof (induction fs arbitrary: m)
  case (Cons kv fs)
  then have "jput (fst kv) (snd kv) m = m @ [kv]" using jput_new [of "fst kv" m "snd kv"] by auto
  then show ?case using Cons by auto
qed simp

lemmas function_tables = stringFunctions_def numberFunctions_def dateFunctions_def
  arrayFunctions_def objectFunctions_def typeFunctions_def

lemma register_step:
  assumes "distinct (map fst ((m @ fs) @ rest))" shows "register fs m = m @ fs"
proof -
  have "distinct (map fst m @ map fst fs)" using assms by (simp only: map_append distinct_append)
  then show ?thesis using register_append [of fs m] by (simp add: Int_commute)
qed

lemma register_tables:
  assumes "distinct (map fst (a @ b @ c @ d @ e @ f))"
  shows "register f (register e (register d (register c (register b (register a []))))) = a @ b @ c @ d @ e @ f"
proof -
  have "register a [] = a" using register_step [of "[]" a "b @ c @ d @ e @ f"] assms by simp
  moreover have "register b a = a @ b" using register_step [of a b "c @ d @ e @ f"] assms by (simp only: append_assoc)
  moreover have "register c (a @ b) = a @ b @ c"
    using register_step [of "a @ b" c "d @ e @ f"] assms by (simp only: append_assoc)
  moreover have "register d (a @ b @ c) = a @ b @ c @ d"
    using register_step [of "a @ b @ c" d "e @ f"] assms by (simp only: append_assoc)
  moreover have "register e (a @ b @ c @ d) = a @ b @ c @ d @ e"
    using register_step [of "a @ b @ c @ d" e f] assms by (simp only: append_assoc)
  moreover have "register f (a @ b @ c @ d @ e) = a @ b @ c @ d @ e @ f"
    using register_step [of "a @ b @ c @ d @ e" f "[]"] assms by (simp only: append_assoc append_Nil2)
  ultimately show ?thesis by simp
qed

lemma registry_tables:
  "registry h = stringFunctions h @ numberFunctions h @ dateFunctions h @ arrayFunctions h
     @ objectFunctions h @ typeFunctions h"
  unfolding registry_def by (rule register_tables) (simp add: function_tables)

lemma hasFunction_iff: "hasFunction h name \<longleftrightarrow> name \<in> fst ` set (registry h)"
  by (simp add: hasFunction_def jhas_def map_of_eq_None_iff)

end
