(* ===== verification/Evaluator.thy ===== *)
theory Evaluator
  imports Parser Builtins
begin

text \<open>
  The tree-walking evaluator (\<open>evaluator.ts\<close>). \<open>evaluator\<close> holds the fields of the class that do
  not change during an evaluation; \<open>depth\<close>, which every call increments and restores in its
  \<open>finally\<close>, is an argument. \<open>evaluate\<close> checks the limits and enters \<open>evaluateNode\<close>; the methods
  for the single node types take the evaluations of their children as computations and run them
  in the order of the code.
\<close>

record evaluator =
  ev_host :: host
  ev_context :: props
  ev_strict :: bool
  ev_timeout :: int
  ev_maxDepth :: int
  ev_startTime :: int

record eval_options =
  opt_strictComparison :: "bool option"
  opt_timeout :: "int option"
  opt_maxDepth :: "int option"

definition DEFAULT_TIMEOUT :: int where "DEFAULT_TIMEOUT = 100"
definition DEFAULT_MAX_DEPTH :: int where "DEFAULT_MAX_DEPTH = 100"
definition MAX_STRING_RESULT :: nat where "MAX_STRING_RESULT = 1048576"

fun opt_or :: "'a \<Rightarrow> 'a option \<Rightarrow> 'a" where
  "opt_or d None = d"
| "opt_or d (Some x) = x"

text \<open>The constructor reads the clock once.\<close>

definition new_Evaluator :: "host \<Rightarrow> props \<Rightarrow> eval_options \<Rightarrow> evaluator ev" where
  "new_Evaluator h ctx opts = bindM tickM (\<lambda>k. retM
     \<lparr>ev_host = h, ev_context = ctx,
      ev_strict = opt_or False (opt_strictComparison opts),
      ev_timeout = opt_or DEFAULT_TIMEOUT (opt_timeout opts),
      ev_maxDepth = opt_or DEFAULT_MAX_DEPTH (opt_maxDepth opts),
      ev_startTime = h_clock h k\<rparr>)"

definition checkLimits :: "evaluator \<Rightarrow> nat \<Rightarrow> unit ev" where
  "checkLimits E depth =
     (if ev_maxDepth E \<le> int depth then
        throwM (DepthExceededErr (''Expression depth exceeded maximum of '' @ show_int (ev_maxDepth E)))
      else bindM tickM (\<lambda>k.
        if ev_timeout E < h_clock (ev_host E) k - ev_startTime E then
          throwM (TimeoutErr (''Expression evaluation exceeded timeout of ''
                    @ show_int (ev_timeout E) @ ''ms''))
        else retM ()))"

section \<open>Coercions\<close>

fun toBooleanValue :: "jsval \<Rightarrow> bool" where
  "toBooleanValue JUndef = False"
| "toBooleanValue JNull = False"
| "toBooleanValue (JBool b) = b"
| "toBooleanValue (JNum x) = (\<not> num_eq x (Fin 0))"
| "toBooleanValue (JStr s) = (s \<noteq> [])"
| "toBooleanValue (JArr _ vs) = (vs \<noteq> [])"
| "toBooleanValue (JObj _ _) = True"
| "toBooleanValue (JFun _) = True"

definition toStringValue :: "host \<Rightarrow> jsval \<Rightarrow> js_throw + string" where
  "toStringValue h v = display_string h v"

fun tryToNumber :: "jsval \<Rightarrow> jsnum option" where
  "tryToNumber (JNum x) = Some x"
| "tryToNumber (JBool b) = Some (Fin (if b then 1 else 0))"
| "tryToNumber (JStr s) = (let n = string_to_num s in if n = NaN then None else Some n)"
| "tryToNumber _ = None"

definition toNumberValue :: "jsval \<Rightarrow> string \<Rightarrow> js_throw + jsnum" where
  "toNumberValue v symbol =
     (case tryToNumber v of
        Some n \<Rightarrow> Inr n
      | None \<Rightarrow> Inl (TypeErr (''Cannot apply '' @ [squote] @ symbol @ [squote]
                      @ '' operator to '' @ js_typeof v)))"

section \<open>Operators\<close>

text \<open>
  \<open>deepEqual\<close> looks up the keys of the first object in the second, inherited properties included.
\<close>

fun deepEqual :: "host \<Rightarrow> jsval \<Rightarrow> jsval \<Rightarrow> bool" where
  "deepEqual h (JArr i vs) b =
     (strict_eq (JArr i vs) b \<or>
      (case b of
         JArr _ ws \<Rightarrow> list_all2 (\<lambda>v w. deepEqual h v w) vs ws
       | _ \<Rightarrow> False))"
| "deepEqual h (JObj i ps) b =
     (strict_eq (JObj i ps) b \<or>
      (case b of
         JObj _ qs \<Rightarrow>
           length ps = length qs \<and> list_all (\<lambda>(k, v). deepEqual h v (obj_get h qs k)) ps
       | _ \<Rightarrow> False))"
| "deepEqual h a b = strict_eq a b"

definition concat_values :: "host \<Rightarrow> jsval \<Rightarrow> jsval \<Rightarrow> js_throw + jsval" where
  "concat_values h left right =
     bindE (toStringValue h left) (\<lambda>l. bindE (toStringValue h right) (\<lambda>r.
     bindE (js_alloc h (l @ r)) (\<lambda>s. Inr (JStr s))))"

fun is_str :: "jsval \<Rightarrow> bool" where
  "is_str (JStr _) = True"
| "is_str _ = False"

definition evalPlus :: "host \<Rightarrow> jsval \<Rightarrow> jsval \<Rightarrow> js_throw + jsval" where
  "evalPlus h left right =
     (if is_str left \<or> is_str right then concat_values h left right
      else case (tryToNumber left, tryToNumber right) of
        (Some lnum, Some rnum) \<Rightarrow> Inr (JNum (num_add lnum rnum))
      | _ \<Rightarrow> concat_values h left right)"

definition evalArithmetic ::
    "jsval \<Rightarrow> jsval \<Rightarrow> (jsnum \<Rightarrow> jsnum \<Rightarrow> jsnum) \<Rightarrow> string \<Rightarrow> js_throw + jsval" where
  "evalArithmetic left right op symbol =
     bindE (toNumberValue left symbol) (\<lambda>lnum.
     bindE (toNumberValue right symbol) (\<lambda>rnum. Inr (JNum (op lnum rnum))))"

definition bool_num :: "bool \<Rightarrow> jsval" where
  "bool_num b = JNum (Fin (if b then 1 else 0))"

text \<open>The coercing comparison; the recursive calls replace a boolean by a number.\<close>

function (sequential) looseEquality :: "host \<Rightarrow> jsval \<Rightarrow> jsval \<Rightarrow> bool" where
  "looseEquality h left right =
     (if is_nullish left \<and> is_nullish right then True
      else if is_nullish left \<or> is_nullish right then False
      else if js_typeof left = js_typeof right then
        (if js_typeof left = ''object'' then deepEqual h left right else strict_eq left right)
      else case (left, right) of
        (JBool b, _) \<Rightarrow> looseEquality h (bool_num b) right
      | (_, JBool b) \<Rightarrow> looseEquality h left (bool_num b)
      | (JNum x, JStr s) \<Rightarrow>
          (let rnum = string_to_num s in if rnum = NaN then False else num_eq x rnum)
      | (JStr s, JNum x) \<Rightarrow>
          (let lnum = string_to_num s in if lnum = NaN then False else num_eq lnum x)
      | _ \<Rightarrow> False)"
  by pat_completeness auto
termination
  by (relation "measure (\<lambda>(h, l, r). (case l of JBool _ \<Rightarrow> 1 | _ \<Rightarrow> 0) + (case r of JBool _ \<Rightarrow> 1 | _ \<Rightarrow> 0))")
     (auto simp: bool_num_def)

declare looseEquality.simps [simp del]

definition evalEquality :: "host \<Rightarrow> bool \<Rightarrow> jsval \<Rightarrow> jsval \<Rightarrow> bool" where
  "evalEquality h strictComparison left right =
     (if strictComparison then
        (if js_typeof left \<noteq> js_typeof right then is_nullish left \<and> is_nullish right
         else if js_typeof left = ''object'' then deepEqual h left right
         else strict_eq left right)
      else looseEquality h left right)"

definition evalComparison ::
    "host \<Rightarrow> jsval \<Rightarrow> jsval \<Rightarrow> (jsnum \<Rightarrow> jsnum \<Rightarrow> bool) \<Rightarrow> js_throw + bool" where
  "evalComparison h left right op =
     (if is_nullish left \<or> is_nullish right then Inr False
      else if js_typeof left = ''object'' \<or> js_typeof right = ''object'' then
        Inl (TypeErr ''Cannot compare objects or arrays with relational operators'')
      else
        let lnum = (case left of JBool b \<Rightarrow> bool_num b | _ \<Rightarrow> left);
            rnum = (case right of JBool b \<Rightarrow> bool_num b | _ \<Rightarrow> right);
            failed = Inl (TypeErr (''Cannot compare '' @ js_typeof left @ '' and '' @ js_typeof right))
        in case (lnum, rnum) of
          (JNum x, JNum y) \<Rightarrow> Inr (op x y)
        | (JStr s, JNum y) \<Rightarrow>
            (let n = string_to_num s in if n = NaN then failed else Inr (op n y))
        | (JNum x, JStr t) \<Rightarrow>
            (let n = string_to_num t in if n = NaN then failed else Inr (op x n))
        | (JStr s, JStr t) \<Rightarrow>
            (let lnn = string_to_num s; rnn = string_to_num t
             in if lnn \<noteq> NaN \<and> rnn \<noteq> NaN then Inr (op lnn rnn)
                else Inr (op (num_of_int (h_locale_compare h s t)) (Fin 0)))
        | _ \<Rightarrow> failed)"

text \<open>The operators that evaluate both operands first.\<close>

definition strict_binary :: "evaluator \<Rightarrow> binop \<Rightarrow> jsval \<Rightarrow> jsval \<Rightarrow> js_throw + jsval" where
  "strict_binary E operator left right =
     (let h = ev_host E; cmp = (\<lambda>op. bindE (evalComparison h left right op) (\<lambda>b. Inr (JBool b)))
      in case operator of
        OpAdd \<Rightarrow> evalPlus h left right
      | OpSub \<Rightarrow> evalArithmetic left right num_sub ''-''
      | OpMul \<Rightarrow> evalArithmetic left right num_mul ''*''
      | OpDiv \<Rightarrow> evalArithmetic left right num_div ''/''
      | OpMod \<Rightarrow> evalArithmetic left right num_mod ''%''
      | OpEq \<Rightarrow> Inr (JBool (evalEquality h (ev_strict E) left right))
      | OpNeq \<Rightarrow> Inr (JBool (\<not> evalEquality h (ev_strict E) left right))
      | OpLt \<Rightarrow> cmp num_less
      | OpGt \<Rightarrow> cmp (\<lambda>a b. num_less b a)
      | OpLte \<Rightarrow> cmp num_le
      | OpGte \<Rightarrow> cmp (\<lambda>a b. num_le b a)
      | _ \<Rightarrow> Inl (TypeErr ''Unknown operator''))"

section \<open>Nodes\<close>

definition evaluateIdentifier :: "evaluator \<Rightarrow> string \<Rightarrow> js_throw + jsval" where
  "evaluateIdentifier E name =
     (let h = ev_host E; ctx = ev_context E;
          undefined_variable = Inl (ReferenceErr (''Undefined variable: '' @ name))
      in if starts_with ''$'' name then
           (if obj_in h ctx name then Inr (obj_get h ctx name) else undefined_variable)
         else if hasFunction h name then Inr (JStr name)
         else if obj_in h ctx name then Inr (obj_get h ctx name)
         else undefined_variable)"

definition evaluateMemberExpression ::
    "evaluator \<Rightarrow> jsval ev \<Rightarrow> string \<Rightarrow> bool \<Rightarrow> jsval ev" where
  "evaluateMemberExpression E object property optional =
     bindM object (\<lambda>obj.
       if is_nullish obj then
         (if optional then throwM ShortCircuit
          else throwM (ReferenceErr (''Cannot read property '' @ [squote] @ property @ [squote]
                 @ '' of '' @ to_js_string (ev_host E) obj)))
       else case obj of
         JArr _ vs \<Rightarrow> retM (nullish_or (arr_get (ev_host E) vs property) JNull)
       | JObj _ ps \<Rightarrow> retM (nullish_or (obj_get (ev_host E) ps property) JNull)
       | _ \<Rightarrow> throwM (TypeErr (''Cannot read property '' @ [squote] @ property @ [squote]
                 @ '' of '' @ js_typeof obj)))"

definition evaluateIndexExpression ::
    "evaluator \<Rightarrow> jsval ev \<Rightarrow> jsval ev \<Rightarrow> bool \<Rightarrow> jsval ev" where
  "evaluateIndexExpression E object index optional =
     bindM object (\<lambda>obj.
       if is_nullish obj then
         (if optional then throwM ShortCircuit
          else throwM (ReferenceErr (''Cannot index into '' @ to_js_string (ev_host E) obj)))
       else bindM index (\<lambda>ix.
         case obj of
           JArr _ vs \<Rightarrow>
             (case ix of
                JNum x \<Rightarrow> retM (nullish_or (arr_index vs x) JNull)
              | _ \<Rightarrow> throwM (TypeErr ''Array index must be a number''))
         | JObj _ ps \<Rightarrow>
             (case ix of
                JStr s \<Rightarrow> retM (nullish_or (obj_get (ev_host E) ps s) JNull)
              | JNum x \<Rightarrow> retM (nullish_or (obj_get (ev_host E) ps (num_to_string x)) JNull)
              | _ \<Rightarrow> throwM (TypeErr ''Object key must be a string or number''))
         | _ \<Rightarrow> throwM (TypeErr (''Cannot index into '' @ js_typeof obj))))"

fun error_message :: "js_throw \<Rightarrow> string" where
  "error_message (ExpressionError _ msg _) = msg"
| "error_message ShortCircuit = ''undefined''"
| "error_message (HostError msg) = msg"

definition evaluateCallExpression ::
    "evaluator \<Rightarrow> ast \<Rightarrow> jsval list ev \<Rightarrow> bool \<Rightarrow> jsval ev" where
  "evaluateCallExpression E callee args optional =
     (case callee of
        Identifier fnName \<Rightarrow>
          (case getFunction (ev_host E) fnName of
             None \<Rightarrow>
               (if optional then throwM ShortCircuit
                else throwM (FunctionErr (''Unknown function: '' @ fnName)))
           | Some fn \<Rightarrow>
               bindM args (\<lambda>vs.
                 catchM (fn vs) (\<lambda>e.
                   if is_expression_error e then throwM e
                   else throwM (FunctionErr (''Error in function '' @ fnName @ '': '' @ error_message e)))))
      | _ \<Rightarrow> throwM (FunctionErr ''Only named function calls are supported''))"

definition evaluateUnaryExpression :: "unop \<Rightarrow> jsval ev \<Rightarrow> jsval ev" where
  "evaluateUnaryExpression operator operand =
     bindM operand (\<lambda>v.
       case operator of
         OpNot \<Rightarrow> retM (JBool (\<not> toBooleanValue v))
       | OpNeg \<Rightarrow>
           (case v of
              JNum x \<Rightarrow> retM (JNum (num_uminus x))
            | _ \<Rightarrow> throwM (TypeErr (''Cannot negate '' @ js_typeof v))))"

definition evaluateBinaryExpression ::
    "evaluator \<Rightarrow> binop \<Rightarrow> jsval ev \<Rightarrow> jsval ev \<Rightarrow> jsval ev" where
  "evaluateBinaryExpression E operator left right =
     (if operator = OpAnd then
        bindM left (\<lambda>l. if \<not> toBooleanValue l then retM l else right)
      else if operator = OpOr then
        bindM left (\<lambda>l. if toBooleanValue l then retM l else right)
      else bindM left (\<lambda>l. bindM right (\<lambda>r. liftE (strict_binary E operator l r))))"

definition evaluateTernaryExpression :: "jsval ev \<Rightarrow> jsval ev \<Rightarrow> jsval ev \<Rightarrow> jsval ev" where
  "evaluateTernaryExpression condition consequent alternate =
     bindM condition (\<lambda>c. if toBooleanValue c then consequent else alternate)"

definition evaluateTemplateLiteral :: "evaluator \<Rightarrow> string list ev \<Rightarrow> jsval ev" where
  "evaluateTemplateLiteral E parts =
     bindM parts (\<lambda>ps.
     bindM (liftE (js_alloc (ev_host E) (concat ps))) (\<lambda>result.
       if MAX_STRING_RESULT < length result
       then throwM (TypeErr (''String result exceeds maximum size of ''
                      @ show_nat MAX_STRING_RESULT @ '' bytes''))
       else retM (JStr result)))"

definition evaluateChain :: "jsval ev \<Rightarrow> jsval ev" where
  "evaluateChain expression =
     catchM expression (\<lambda>e. if e = ShortCircuit then retM JNull else throwM e)"

text \<open>
  \<open>evaluate(node)\<close> at depth \<open>d\<close> is \<open>entering E d\<close> of \<open>evaluateNode\<close> at depth \<open>Suc d\<close>: the limits are
  checked before every node. Parts, arguments, elements and properties are evaluated from left to
  right; properties are assigned in that order.
\<close>

definition entering :: "evaluator \<Rightarrow> nat \<Rightarrow> 'a ev \<Rightarrow> 'a ev" where
  "entering E d m = bindM (checkLimits E d) (\<lambda>_. m)"

primrec evaluateNode :: "ast \<Rightarrow> evaluator \<Rightarrow> nat \<Rightarrow> jsval ev"
and evaluatePart :: "tpart \<Rightarrow> evaluator \<Rightarrow> nat \<Rightarrow> string ev"
and evaluateArgs :: "ast list \<Rightarrow> evaluator \<Rightarrow> nat \<Rightarrow> jsval list ev"
and evaluateProps :: "(string \<times> ast) list \<Rightarrow> evaluator \<Rightarrow> nat \<Rightarrow> props \<Rightarrow> props ev"
and evaluateProp :: "string \<times> ast \<Rightarrow> evaluator \<Rightarrow> nat \<Rightarrow> props \<Rightarrow> props ev"
and evaluateParts :: "tpart list \<Rightarrow> evaluator \<Rightarrow> nat \<Rightarrow> string list ev"
where
  "evaluateNode (NumberLiteral x) = (\<lambda>E d. retM (JNum x))"
| "evaluateNode (StringLiteral s) = (\<lambda>E d. retM (JStr s))"
| "evaluateNode (BooleanLiteral b) = (\<lambda>E d. retM (JBool b))"
| "evaluateNode NullLiteral = (\<lambda>E d. retM JNull)"
| "evaluateNode (Identifier name) = (\<lambda>E d. liftE (evaluateIdentifier E name))"
| "evaluateNode (MemberExpression ob property optional) = (\<lambda>E d.
     evaluateMemberExpression E (entering E d (evaluateNode ob E (Suc d))) property optional)"
| "evaluateNode (IndexExpression ob index optional) = (\<lambda>E d.
     evaluateIndexExpression E (entering E d (evaluateNode ob E (Suc d)))
       (entering E d (evaluateNode index E (Suc d))) optional)"
| "evaluateNode (CallExpression callee args optional) = (\<lambda>E d.
     evaluateCallExpression E callee (evaluateArgs args E d) optional)"
| "evaluateNode (ChainExpression e) = (\<lambda>E d.
     evaluateChain (entering E d (evaluateNode e E (Suc d))))"
| "evaluateNode (UnaryExpression operator e) = (\<lambda>E d.
     evaluateUnaryExpression operator (entering E d (evaluateNode e E (Suc d))))"
| "evaluateNode (BinaryExpression operator l r) = (\<lambda>E d.
     evaluateBinaryExpression E operator (entering E d (evaluateNode l E (Suc d)))
       (entering E d (evaluateNode r E (Suc d))))"
| "evaluateNode (TernaryExpression c t e) = (\<lambda>E d.
     evaluateTernaryExpression (entering E d (evaluateNode c E (Suc d)))
       (entering E d (evaluateNode t E (Suc d))) (entering E d (evaluateNode e E (Suc d))))"
| "evaluateNode (ArrayLiteral es) = (\<lambda>E d. bindM (evaluateArgs es E d) new_array)"
| "evaluateNode (ObjectLiteral ps) = (\<lambda>E d. bindM (evaluateProps ps E d []) new_object)"
| "evaluateNode (TemplateLiteral ps) = (\<lambda>E d. evaluateTemplateLiteral E (evaluateParts ps E d))"
| "evaluatePart (TextPart s) = (\<lambda>E d. retM s)"
| "evaluatePart (ExprPart e) = (\<lambda>E d.
     bindM (entering E d (evaluateNode e E (Suc d))) (\<lambda>v. liftE (toStringValue (ev_host E) v)))"
| "evaluateArgs [] = (\<lambda>E d. retM [])"
| "evaluateArgs (e # es) = (\<lambda>E d.
     bindM (entering E d (evaluateNode e E (Suc d))) (\<lambda>v.
     bindM (evaluateArgs es E d) (\<lambda>vs. retM (v # vs))))"
| "evaluateProps [] = (\<lambda>E d obj. retM obj)"
| "evaluateProps (p # ps) = (\<lambda>E d obj. bindM (evaluateProp p E d obj) (evaluateProps ps E d))"
| "evaluateProp (key, e) = (\<lambda>E d obj.
     bindM (entering E d (evaluateNode e E (Suc d))) (\<lambda>v. retM (assign_prop key v obj)))"
| "evaluateParts [] = (\<lambda>E d. retM [])"
| "evaluateParts (p # ps) = (\<lambda>E d.
     bindM (evaluatePart p E d) (\<lambda>s. bindM (evaluateParts ps E d) (\<lambda>ss. retM (s # ss))))"

definition evaluate :: "evaluator \<Rightarrow> nat \<Rightarrow> ast \<Rightarrow> jsval ev" where
  "evaluate E d node = entering E d (evaluateNode node E (Suc d))"

text \<open>Simultaneous induction over nodes, parts, and the lists of nodes, parts and properties.\<close>

lemmas ast_inducts [case_names NumberLiteral StringLiteral BooleanLiteral NullLiteral Identifier
    MemberExpression IndexExpression CallExpression ChainExpression UnaryExpression BinaryExpression
    TernaryExpression ArrayLiteral ObjectLiteral TemplateLiteral TextPart ExprPart
    Args_Nil Args_Cons Parts_Nil Parts_Cons Prop Props_Nil Props_Cons] =
  evaluateNode_evaluatePart_evaluateArgs_evaluateProps_evaluateProp_evaluateParts.induct
    [THEN conjunct1]
  evaluateNode_evaluatePart_evaluateArgs_evaluateProps_evaluateProp_evaluateParts.induct
    [THEN conjunct2, THEN conjunct1]
  evaluateNode_evaluatePart_evaluateArgs_evaluateProps_evaluateProp_evaluateParts.induct
    [THEN conjunct2, THEN conjunct2, THEN conjunct1]
  evaluateNode_evaluatePart_evaluateArgs_evaluateProps_evaluateProp_evaluateParts.induct
    [THEN conjunct2, THEN conjunct2, THEN conjunct2, THEN conjunct1]
  evaluateNode_evaluatePart_evaluateArgs_evaluateProps_evaluateProp_evaluateParts.induct
    [THEN conjunct2, THEN conjunct2, THEN conjunct2, THEN conjunct2, THEN conjunct1]
  evaluateNode_evaluatePart_evaluateArgs_evaluateProps_evaluateProp_evaluateParts.induct
    [THEN conjunct2, THEN conjunct2, THEN conjunct2, THEN conjunct2, THEN conjunct2]

end
