(* ===== verification/ParserFacts.thy ===== *)
theory ParserFacts
  imports Parser
begin

text \<open>
  Facts about the parser. \<open>outcome m Q r\<close> says that a method did not run out of fuel: it failed with
  a syntax error at the position of a token or it succeeded, left fewer than \<open>m\<close> tokens and built a result with \<open>Q\<close>. The locale \<open>ast_invariant\<close>
  is the contract between the grammar and a property of syntax trees: every construct the parser
  builds preserves it. It is interpreted for the trivial property (totality) and for
  \<open>guarded False\<close>: an optional step occurs only inside a \<open>ChainExpression\<close>.
\<close>

section \<open>Outcomes\<close>

text \<open>The errors the parser reports: syntax errors at the position of a token.\<close>

fun reported :: "parse_error \<Rightarrow> bool" where
  "reported NoFuel = False"
| "reported (ParseErr e) = (\<exists>msg pos. e = SyntaxErr msg (Some pos))"

lemma reported_syntax_at [simp]: "reported (syntax_at msg t)"
  by (auto simp: syntax_at_def)

definition outcome :: "nat \<Rightarrow> ('a \<Rightarrow> bool) \<Rightarrow> 'a parsed \<Rightarrow> bool" where
  "outcome m Q r = (case r of Inl e \<Rightarrow> reported e | Inr (a, ts) \<Rightarrow> length ts < m \<and> Q a)"

named_theorems outcome_intros \<open>rules that build the outcome of a method\<close>

lemma outcome_Inl [simp]: "outcome m Q (Inl e) \<longleftrightarrow> reported e"
  by (simp add: outcome_def)

lemma outcome_Inr [simp]: "outcome m Q (Inr (a, ts)) \<longleftrightarrow> length ts < m \<and> Q a"
  by (simp add: outcome_def)

lemma outcome_bind [outcome_intros]:
  assumes "outcome m Q r" and "\<And>a ts. length ts < m \<Longrightarrow> Q a \<Longrightarrow> outcome m' R (f (a, ts))"
  shows "outcome m' R (bindE r f)"
  using assms by (cases r) auto

lemma outcome_mono: "outcome m Q r \<Longrightarrow> m \<le> m' \<Longrightarrow> outcome m' Q r"
  by (auto simp: outcome_def split: sum.splits)

lemma outcome_InrD: "outcome m Q r \<Longrightarrow> r = Inr (a, ts) \<Longrightarrow> length ts < m \<and> Q a"
  by simp

lemma current_Nil [simp]: "tok_type (current []) = TEOF"
  by (simp add: current_def)

lemma current_Cons [simp]: "current (t # ts) = t"
  by (simp add: current_def)

lemma advance_Cons [simp]: "advance (t # ts) = ts"
  by (simp add: advance_def)

lemma advance_less: "tok_type (current ts) \<noteq> TEOF \<Longrightarrow> length (advance ts) < length ts"
  by (cases ts) (auto simp: advance_def)

lemma advance_le [simp]: "length (advance ts) \<le> length ts"
  by (simp add: advance_def)

lemma match_tok_Some:
  "match_tok ty ts = Some ts' \<Longrightarrow> ty \<noteq> TEOF \<Longrightarrow> length ts' < length ts \<and> tok_type (current ts) = ty"
  by (auto simp: match_tok_def advance_less split: if_splits)

lemma outcome_expect:
  assumes "ty \<noteq> TEOF"
  shows "outcome (length ts) (\<lambda>t. tok_type t = ty) (expect ty msg ts)"
  using assms advance_less[of ts] by (auto simp: expect_def Let_def)

lemma outcome_close:
  assumes "ty \<noteq> TEOF" and "length ts \<le> m" and "R x"
  shows "outcome m R (bindE (expect ty msg ts) (\<lambda>(_, ts1). Inr (x, ts1)))"
  using outcome_bind [OF outcome_expect [OF assms(1)], where m' = m and R = R] assms(2,3)
  by (auto split: prod.splits)

text \<open>Parse a nested expression and then a closing token.\<close>

lemma outcome_enclosed:
  assumes "outcome (length ts) Q (pe ts)" and "ty \<noteq> TEOF" and "length ts \<le> m"
    and "\<And>a. Q a \<Longrightarrow> R (f a)"
  shows "outcome m R (bindE (pe ts) (\<lambda>(a, ts1).
           bindE (expect ty msg ts1) (\<lambda>(_, ts2). Inr (f a, ts2))))"
proof (rule outcome_bind [OF assms(1)], unfold split_conv)
  fix a and ts1 :: tokens
  assume "length ts1 < length ts" "Q a"
  with assms show "outcome m R (bindE (expect ty msg ts1) (\<lambda>(_, ts2). Inr (f a, ts2)))"
    by (intro outcome_close) auto
qed

section \<open>The contract of the grammar\<close>

locale ast_invariant =
  fixes Q :: "ast \<Rightarrow> bool"
    and P :: "bool \<Rightarrow> ast \<Rightarrow> bool"  \<comment> \<open>of the node a postfix loop has built, with its \<open>sawOptional\<close>\<close>
  assumes q_number: "Q (NumberLiteral x)"
    and q_text: "Q (StringLiteral s)"
    and q_bool: "Q (BooleanLiteral b)"
    and q_null: "Q NullLiteral"
    and q_ident: "Q (Identifier s)"
    and array: "(\<And>e. e \<in> set es \<Longrightarrow> Q e) \<Longrightarrow> Q (ArrayLiteral es)"
    and object: "(\<And>kv. kv \<in> set ps \<Longrightarrow> Q (snd kv)) \<Longrightarrow> Q (ObjectLiteral ps)"
    and unary: "Q e \<Longrightarrow> Q (UnaryExpression uop e)"
    and binary: "Q l \<Longrightarrow> Q r \<Longrightarrow> Q (BinaryExpression bop l r)"
    and ternary: "Q c \<Longrightarrow> Q t \<Longrightarrow> Q f \<Longrightarrow> Q (TernaryExpression c t f)"
    and postfix_start: "Q e \<Longrightarrow> P False e"
    and postfix_plain: "P False e \<Longrightarrow> Q e"
    and postfix_chain: "P True e \<Longrightarrow> Q (ChainExpression e)"
    and member: "P saw e \<Longrightarrow> P (saw \<or> opt) (MemberExpression e p opt)"
    and index: "P saw e \<Longrightarrow> Q i \<Longrightarrow> P (saw \<or> opt) (IndexExpression e i opt)"
    and call: "P saw e \<Longrightarrow> (\<And>a. a \<in> set args \<Longrightarrow> Q a) \<Longrightarrow> P (saw \<or> opt) (CallExpression e args opt)"
begin

definition good :: "nat \<Rightarrow> (tokens \<Rightarrow> ast parsed) \<Rightarrow> bool" where
  "good k pe = (\<forall>ts. length ts < k \<longrightarrow> outcome (length ts) Q (pe ts))"

abbreviation Qs :: "ast list \<Rightarrow> bool" where
  "Qs es \<equiv> \<forall>e \<in> set es. Q e"

abbreviation Qps :: "(string \<times> ast) list \<Rightarrow> bool" where
  "Qps ps \<equiv> \<forall>kv \<in> set ps. Q (snd kv)"

lemma goodD: "good k pe \<Longrightarrow> length ts < k \<Longrightarrow> outcome (length ts) Q (pe ts)"
  by (simp add: good_def)

lemma binaryLoop_outcome:
  assumes sub: "good k sub" and ops: "map_of ops TEOF = None"
  shows "length ts < n \<Longrightarrow> length ts < k \<Longrightarrow> Q node
    \<Longrightarrow> outcome (Suc (length ts)) Q (binaryLoop n ops sub node ts)"
proof (induction n arbitrary: node ts)
  case (Suc n)
  show ?case
  proof (cases "map_of ops (tok_type (current ts))")
    case None
    with Suc.prems show ?thesis by simp
  next
    case (Some bop)
    with ops have adv: "length (advance ts) < length ts" by (intro advance_less) auto
    have "outcome (Suc (length ts)) Q (bindE (sub (advance ts))
        (\<lambda>(right, ts1). binaryLoop n ops sub (BinaryExpression bop node right) ts1))"
    proof (rule outcome_bind)
      show "outcome (length (advance ts)) Q (sub (advance ts))"
        using Suc.prems adv by (intro goodD [OF sub]) auto
    next
      fix a and ts1 :: tokens
      assume a: "length ts1 < length (advance ts)" "Q a"
      have "outcome (Suc (length ts1)) Q (binaryLoop n ops sub (BinaryExpression bop node a) ts1)"
        using a Suc.prems adv by (intro Suc.IH) (auto intro: binary)
      then show "outcome (Suc (length ts)) Q
          (case (a, ts1) of (right, ts1) \<Rightarrow> binaryLoop n ops sub (BinaryExpression bop node right) ts1)"
        using a adv by (auto elim: outcome_mono)
    qed
    with Some show ?thesis by simp
  qed
qed simp

lemma parseBinary_good:
  assumes sub: "good k sub" and ops: "map_of ops TEOF = None" and n: "k \<le> n"
  shows "good k (parseBinary n ops sub)"
  unfolding good_def parseBinary_def
proof (intro allI impI)
  fix ts :: tokens
  assume k: "length ts < k"
  show "outcome (length ts) Q (bindE (sub ts) (\<lambda>(node, ts1). binaryLoop n ops sub node ts1))"
  proof (rule outcome_bind [OF goodD [OF sub k]])
    fix a and ts1 :: tokens
    assume a: "length ts1 < length ts" "Q a"
    have "outcome (Suc (length ts1)) Q (binaryLoop n ops sub a ts1)"
      using a k n by (intro binaryLoop_outcome [OF sub ops]) auto
    with a show "outcome (length ts) Q (case (a, ts1) of (node, ts1) \<Rightarrow> binaryLoop n ops sub node ts1)"
      by (auto elim: outcome_mono)
  qed
qed


text \<open>The list loops: an item after each comma.\<close>

lemma argLoop_outcome:
  assumes pe: "good k pe"
  shows "length ts < n \<Longrightarrow> length ts \<le> k \<Longrightarrow> Qs es
    \<Longrightarrow> outcome (Suc (length ts)) Qs (argLoop n pe es ts)"
proof (induction n arbitrary: es ts)
  case (Suc n)
  show ?case
  proof (cases "match_tok TComma ts")
    case (Some ts1)
    then have l: "length ts1 < length ts" by (auto dest: match_tok_Some)
    have "outcome (Suc (length ts)) Qs (bindE (pe ts1) (\<lambda>(a, ts2). argLoop n pe (es @ [a]) ts2))"
    proof (rule outcome_bind)
      show "outcome (length ts1) Q (pe ts1)" using Suc.prems l by (intro goodD [OF pe]) auto
      fix a and ts2 :: tokens assume a: "length ts2 < length ts1" "Q a"
      have "outcome (Suc (length ts2)) Qs (argLoop n pe (es @ [a]) ts2)"
        using Suc.prems a l by (intro Suc.IH) auto
      with a l show "outcome (Suc (length ts)) Qs (case (a, ts2) of (a, ts2) \<Rightarrow> argLoop n pe (es @ [a]) ts2)"
        by (auto elim: outcome_mono)
    qed
    with Some show ?thesis by simp
  qed (use Suc.prems in simp)
qed simp

lemma parseArgList_outcome:
  assumes pe: "good k pe" and "length ts < k" and "k \<le> n"
  shows "outcome (Suc (length ts)) Qs (parseArgList n pe ts)"
proof (cases "tok_type (current ts) = TRParen")
  case False
  have "outcome (Suc (length ts)) Qs (bindE (pe ts) (\<lambda>(a, ts1). argLoop n pe [a] ts1))"
  proof (rule outcome_bind [OF goodD [OF pe assms(2)]])
    fix a and ts1 :: tokens assume a: "length ts1 < length ts" "Q a"
    have "outcome (Suc (length ts1)) Qs (argLoop n pe [a] ts1)"
      using a assms by (intro argLoop_outcome [OF pe]) auto
    with a show "outcome (Suc (length ts)) Qs (case (a, ts1) of (a, ts1) \<Rightarrow> argLoop n pe [a] ts1)"
      by (auto elim: outcome_mono)
  qed
  with False show ?thesis by (simp add: parseArgList_def)
qed (simp add: parseArgList_def)

lemma elementLoop_outcome:
  assumes pe: "good k pe"
  shows "length ts < n \<Longrightarrow> length ts \<le> k \<Longrightarrow> Qs es
    \<Longrightarrow> outcome (Suc (length ts)) Qs (elementLoop n pe es ts)"
proof (induction n arbitrary: es ts)
  case (Suc n)
  show ?case
  proof (cases "match_tok TComma ts")
    case (Some ts1)
    then have l: "length ts1 < length ts" by (auto dest: match_tok_Some)
    have "outcome (Suc (length ts)) Qs (bindE (pe ts1) (\<lambda>(a, ts2). elementLoop n pe (es @ [a]) ts2))"
    proof (rule outcome_bind)
      show "outcome (length ts1) Q (pe ts1)" using Suc.prems l by (intro goodD [OF pe]) auto
      fix a and ts2 :: tokens assume a: "length ts2 < length ts1" "Q a"
      have "outcome (Suc (length ts2)) Qs (elementLoop n pe (es @ [a]) ts2)"
        using Suc.prems a l by (intro Suc.IH) auto
      with a l show "outcome (Suc (length ts)) Qs (case (a, ts2) of (a, ts2) \<Rightarrow> elementLoop n pe (es @ [a]) ts2)"
        by (auto elim: outcome_mono)
    qed
    with Some l Suc.prems show ?thesis by simp
  qed (use Suc.prems in simp)
qed simp

lemma parseArrayLiteral_good:
  assumes pe: "good k pe" and k: "length ts \<le> k" and n: "k < n"
  shows "outcome (length ts) Q (parseArrayLiteral n pe ts)"
  unfolding parseArrayLiteral_def
proof (rule outcome_bind [OF outcome_expect], simp, unfold split_conv, rule outcome_bind)
  fix t and ts1 :: tokens
  assume l: "length ts1 < length ts"
  show "outcome (Suc (length ts1)) Qs (if tok_type (current ts1) \<noteq> TRBracket
      then bindE (pe ts1) (\<lambda>(el, ts2). elementLoop n pe [el] ts2) else Inr ([], ts1))"
  proof (cases "tok_type (current ts1) \<noteq> TRBracket")
    case True
    have "outcome (Suc (length ts1)) Qs (bindE (pe ts1) (\<lambda>(el, ts2). elementLoop n pe [el] ts2))"
    proof (rule outcome_bind)
      show "outcome (length ts1) Q (pe ts1)" using l k by (intro goodD [OF pe]) auto
      fix a and ts2 :: tokens assume a: "length ts2 < length ts1" "Q a"
      have "outcome (Suc (length ts2)) Qs (elementLoop n pe [a] ts2)"
        using l a k n by (intro elementLoop_outcome [OF pe]) auto
      with a show "outcome (Suc (length ts1)) Qs (case (a, ts2) of (el, ts2) \<Rightarrow> elementLoop n pe [el] ts2)"
        by (auto elim: outcome_mono)
    qed
    with True show ?thesis by simp
  qed simp
next
  fix t and ts1 :: tokens and es and ts2 :: tokens
  assume l: "length ts1 < length ts" "length ts2 < Suc (length ts1)" "Qs es"
  show "outcome (length ts) Q (case (es, ts2) of (els, ts2) \<Rightarrow>
      bindE (expect TRBracket ''Expected ]'' ts2) (\<lambda>(_, ts3). Inr (ArrayLiteral els, ts3)))"
    unfolding split_conv using l by (intro outcome_close) (auto intro: array)
qed


lemma parseObjectProperty_outcome:
  assumes pe: "good k pe" and k: "length ts \<le> k"
  shows "outcome (length ts) (\<lambda>kv. Q (snd kv)) (parseObjectProperty pe ts)"
proof (cases "tok_type (current ts) = TString \<or> tok_type (current ts) = TIdentifier")
  case True
  then have l: "length (advance ts) < length ts" by (intro advance_less) auto
  have "outcome (length ts) (\<lambda>kv. Q (snd kv))
      (bindE (expect TColon ''Expected : after object key'' (advance ts)) (\<lambda>(_, ts1).
       bindE (pe ts1) (\<lambda>(v, ts2). Inr ((tok_value (current ts), v), ts2))))"
  proof (rule outcome_bind [OF outcome_expect], simp, unfold split_conv)
    fix t and ts1 :: tokens assume a: "length ts1 < length (advance ts)"
    with l k have "outcome (length ts1) Q (pe ts1)" by (intro goodD [OF pe]) auto
    then show "outcome (length ts) (\<lambda>kv. Q (snd kv))
        (bindE (pe ts1) (\<lambda>(v, ts2). Inr ((tok_value (current ts), v), ts2)))"
      by (rule outcome_bind) (use a l in auto)
  qed
  with True show ?thesis by (simp add: parseObjectProperty_def)
qed (auto simp: parseObjectProperty_def Let_def)

lemma propertyLoop_outcome:
  assumes pe: "good k pe"
  shows "length ts < n \<Longrightarrow> length ts \<le> k \<Longrightarrow> Qps ps
    \<Longrightarrow> outcome (Suc (length ts)) Qps (propertyLoop n pe ps ts)"
proof (induction n arbitrary: ps ts)
  case (Suc n)
  show ?case
  proof (cases "match_tok TComma ts")
    case (Some ts1)
    then have l: "length ts1 < length ts" by (auto dest: match_tok_Some)
    have "outcome (Suc (length ts)) Qps
        (bindE (parseObjectProperty pe ts1) (\<lambda>(p, ts2). propertyLoop n pe (ps @ [p]) ts2))"
    proof (rule outcome_bind)
      show "outcome (length ts1) (\<lambda>kv. Q (snd kv)) (parseObjectProperty pe ts1)"
        using Suc.prems l by (intro parseObjectProperty_outcome [OF pe]) auto
      fix p :: "string \<times> ast" and ts2 :: tokens assume a: "length ts2 < length ts1" "Q (snd p)"
      have "outcome (Suc (length ts2)) Qps (propertyLoop n pe (ps @ [p]) ts2)"
        using Suc.prems a l by (intro Suc.IH) auto
      with a l show "outcome (Suc (length ts)) Qps
          (case (p, ts2) of (p, ts2) \<Rightarrow> propertyLoop n pe (ps @ [p]) ts2)"
        by (auto elim: outcome_mono)
    qed
    with Some l Suc.prems show ?thesis by simp
  qed (use Suc.prems in simp)
qed simp

lemma parseObjectLiteral_good:
  assumes pe: "good k pe" and k: "length ts \<le> k" and n: "k < n"
  shows "outcome (length ts) Q (parseObjectLiteral n pe ts)"
  unfolding parseObjectLiteral_def
proof (rule outcome_bind [OF outcome_expect], simp, unfold split_conv, rule outcome_bind)
  fix t and ts1 :: tokens
  assume l: "length ts1 < length ts"
  show "outcome (Suc (length ts1)) Qps (if tok_type (current ts1) \<noteq> TRBrace
      then bindE (parseObjectProperty pe ts1) (\<lambda>(p, ts2). propertyLoop n pe [p] ts2)
      else Inr ([], ts1))"
  proof (cases "tok_type (current ts1) \<noteq> TRBrace")
    case True
    have "outcome (Suc (length ts1)) Qps
        (bindE (parseObjectProperty pe ts1) (\<lambda>(p, ts2). propertyLoop n pe [p] ts2))"
    proof (rule outcome_bind)
      show "outcome (length ts1) (\<lambda>kv. Q (snd kv)) (parseObjectProperty pe ts1)"
        using l k by (intro parseObjectProperty_outcome [OF pe]) auto
      fix p :: "string \<times> ast" and ts2 :: tokens assume a: "length ts2 < length ts1" "Q (snd p)"
      have "outcome (Suc (length ts2)) Qps (propertyLoop n pe [p] ts2)"
        using l a k n by (intro propertyLoop_outcome [OF pe]) auto
      with a show "outcome (Suc (length ts1)) Qps
          (case (p, ts2) of (p, ts2) \<Rightarrow> propertyLoop n pe [p] ts2)"
        by (auto elim: outcome_mono)
    qed
    with True show ?thesis by simp
  qed simp
next
  fix t and ts1 :: tokens and ps and ts2 :: tokens
  assume l: "length ts1 < length ts" "length ts2 < Suc (length ts1)" "Qps ps"
  show "outcome (length ts) Q (case (ps, ts2) of (ps, ts2) \<Rightarrow>
      bindE (expect TRBrace ''Expected }'' ts2) (\<lambda>(_, ts3). Inr (ObjectLiteral ps, ts3)))"
    unfolding split_conv using l by (intro outcome_close) (auto intro: object)
qed

lemma parsePrimary_good:
  assumes pe: "good k pe" and k: "length ts \<le> k" and n: "k < n"
  shows "outcome (length ts) Q (parsePrimary n pe ts)"
proof -
  have paren: "outcome (length ts) Q (bindE (pe (advance ts)) (\<lambda>(expr, ts2).
      bindE (expect TRParen ''Expected )'' ts2) (\<lambda>(_, ts3). Inr (expr, ts3))))"
    if "tok_type (current ts) = TLParen"
  proof (rule outcome_enclosed)
    have "length (advance ts) < k" using that k advance_less[of ts] by simp
    then show "outcome (length (advance ts)) Q (pe (advance ts))" by (rule goodD [OF pe])
  qed auto
  show ?thesis
    unfolding parsePrimary_def Let_def
    using paren parseArrayLiteral_good[OF pe k n] parseObjectLiteral_good[OF pe k n]
    by (simp add: q_number q_text q_bool q_null q_ident advance_less)
qed


text \<open>The step of the postfix loop consumes a token and keeps the invariant of the node.\<close>

definition step_ok :: "nat \<Rightarrow> (parse_error + ((ast \<times> bool) \<times> tokens)) \<Rightarrow> bool" where
  "step_ok m r = outcome m (\<lambda>(node, saw). P saw node) r"

lemma step_member:
  assumes "P saw node"
  shows "step_ok (length ts) (bindE (expect TIdentifier msg ts)
           (\<lambda>(t, ts2). Inr ((MemberExpression node (tok_value t) opt, saw \<or> opt), ts2)))"
  unfolding step_ok_def
  by (rule outcome_bind [OF outcome_expect]) (use assms in \<open>auto intro: member\<close>)

lemma step_index:
  assumes "P saw node" and "good k pe" and "length ts < k" and "length ts \<le> m"
  shows "step_ok m (bindE (pe ts) (\<lambda>(i, ts2).
           bindE (expect TRBracket msg ts2) (\<lambda>(_, ts3).
           Inr ((IndexExpression node i opt, saw \<or> opt), ts3))))"
  unfolding step_ok_def
  by (rule outcome_enclosed [where Q = Q and pe = pe])
     (use assms in \<open>auto intro: index goodD\<close>)

lemma step_call:
  assumes "P saw node" and "good k pe" and "length ts < k" and "k \<le> n" and "length ts < m"
  shows "step_ok m (bindE (parseArgList n pe ts) (\<lambda>(args, ts2).
           bindE (expect TRParen msg ts2) (\<lambda>(_, ts3).
           Inr ((CallExpression node args opt, saw \<or> opt), ts3))))"
  unfolding step_ok_def
proof (rule outcome_bind [OF parseArgList_outcome [OF assms(2-4)]], unfold split_conv)
  fix args and ts2 :: tokens
  assume a: "length ts2 < Suc (length ts)" "Qs args"
  then have "P (saw \<or> opt) (CallExpression node args opt)" using assms(1) by (intro call) auto
  then show "outcome m (\<lambda>(node, saw). P saw node) (bindE (expect TRParen msg ts2)
      (\<lambda>(_, ts3). Inr ((CallExpression node args opt, saw \<or> opt), ts3)))"
    using a assms(5) by (intro outcome_close) auto
qed

lemma postfixStep_ok:
  assumes pe: "good k pe" and k: "length ts \<le> k" and n: "k < n" and node: "P saw node"
    and r: "postfixStep n pe node saw ts = Some r"
  shows "step_ok (length ts) r"
proof -
  let ?ts1 = "advance ts"
  have ne: "tok_type (current ts) \<noteq> TEOF"
    using r by (auto simp: postfixStep_def Let_def split: if_splits)
  then have l1: "length ?ts1 < length ts" by (rule advance_less)
  have l2: "length (advance ?ts1) < length ts" using l1 advance_le[of ?ts1] by linarith
  note mono = step_ok_def outcome_mono [OF _ less_imp_le [OF l1]]
  have m: "step_ok (length ts) (bindE (expect TIdentifier msg ?ts1)
      (\<lambda>(t, ts2). Inr ((MemberExpression node (tok_value t) opt, saw \<or> opt), ts2)))" for msg opt
    using step_member[OF node, of ?ts1 msg opt] by (auto simp: mono)
  have i1: "step_ok (length ts) (bindE (pe ?ts1) (\<lambda>(i, ts2). bindE (expect TRBracket msg ts2)
      (\<lambda>(_, ts3). Inr ((IndexExpression node i opt, saw \<or> opt), ts3))))" for msg opt
    using l1 k by (intro step_index [OF node pe]) auto
  have i2: "step_ok (length ts) (bindE (pe (advance ?ts1)) (\<lambda>(i, ts2). bindE (expect TRBracket msg ts2)
      (\<lambda>(_, ts3). Inr ((IndexExpression node i opt, saw \<or> opt), ts3))))" for msg opt
    using l2 k by (intro step_index [OF node pe]) auto
  have c1: "step_ok (length ts) (bindE (parseArgList n pe ?ts1) (\<lambda>(a, ts2). bindE (expect TRParen msg ts2)
      (\<lambda>(_, ts3). Inr ((CallExpression node a opt, saw \<or> opt), ts3))))" for msg opt
    using l1 k n by (intro step_call [OF node pe]) auto
  have c2: "step_ok (length ts) (bindE (parseArgList n pe (advance ?ts1)) (\<lambda>(a, ts2).
      bindE (expect TRParen msg ts2)
      (\<lambda>(_, ts3). Inr ((CallExpression node a opt, saw \<or> opt), ts3))))" for msg opt
    using l2 k n by (intro step_call [OF node pe]) auto
  show ?thesis
    using r m[where opt = True] m[where opt = False] i1[where opt = False] i2[where opt = True]
      c1[where opt = False] c2[where opt = True]
    unfolding postfixStep_def Let_def by (auto split: if_splits)
qed

lemma postfixLoop_outcome:
  assumes pe: "good k pe" and n: "k < n"
  shows "length ts < j \<Longrightarrow> length ts \<le> k \<Longrightarrow> P saw node
    \<Longrightarrow> outcome (Suc (length ts)) Q (postfixLoop j n pe node saw ts)"
proof (induction j arbitrary: node saw ts)
  case (Suc j)
  show ?case
  proof (cases "postfixStep n pe node saw ts")
    case None
    with Suc.prems show ?thesis by (cases saw) (auto intro: postfix_plain postfix_chain)
  next
    case (Some r)
    have "step_ok (length ts) r"
      using Suc.prems n Some by (intro postfixStep_ok [OF pe]) auto
    then have "outcome (length ts) (\<lambda>(node, saw). P saw node) r" by (simp add: step_ok_def)
    then have "outcome (Suc (length ts)) Q
        (bindE r (\<lambda>((node', saw'), ts1). postfixLoop j n pe node' saw' ts1))"
    proof (rule outcome_bind)
      fix ns :: "ast \<times> bool" and ts1 :: tokens
      assume a: "length ts1 < length ts" "case ns of (node, saw) \<Rightarrow> P saw node"
      have "outcome (Suc (length ts1)) Q (postfixLoop j n pe (fst ns) (snd ns) ts1)"
        using a Suc.prems by (intro Suc.IH) auto
      then have "outcome (Suc (length ts)) Q (postfixLoop j n pe (fst ns) (snd ns) ts1)"
        by (rule outcome_mono) (use a in simp)
      then show "outcome (Suc (length ts)) Q
          (case (ns, ts1) of (x, ts1) \<Rightarrow> (case x of (node', saw') \<Rightarrow> postfixLoop j n pe node' saw') ts1)"
        by (simp add: split_beta)
    qed
    with Some show ?thesis by simp
  qed
qed simp

lemma parsePostfix_good:
  assumes pe: "good k pe" and k: "length ts \<le> k" and n: "k < n"
  shows "outcome (length ts) Q (parsePostfix n pe ts)"
  unfolding parsePostfix_def
proof (rule outcome_bind [OF parsePrimary_good [OF pe k n]], unfold split_conv)
  fix a and ts1 :: tokens
  assume a: "length ts1 < length ts" "Q a"
  have "outcome (Suc (length ts1)) Q (postfixLoop n n pe a False ts1)"
    using a k n by (intro postfixLoop_outcome [OF pe]) (auto intro: postfix_start)
  with a show "outcome (length ts) Q (postfixLoop n n pe a False ts1)"
    by (elim outcome_mono) simp
qed


lemma unaryLoop_outcome:
  assumes pe: "good k pe" and n: "k < n"
  shows "length ts < j \<Longrightarrow> length ts \<le> k \<Longrightarrow> outcome (length ts) Q (unaryLoop j n pe ts)"
proof (induction j arbitrary: ts)
  case (Suc j)
  have prefix: "outcome (length ts) Q (bindE (unaryLoop j n pe ts1)
      (\<lambda>(operand, ts2). Inr (UnaryExpression uop operand, ts2)))"
    if "length ts1 < length ts" for ts1 uop
  proof (rule outcome_bind)
    show "outcome (length ts1) Q (unaryLoop j n pe ts1)" using that Suc.prems by (intro Suc.IH) auto
  qed (use that in \<open>auto intro: unary\<close>)
  show ?case
    using prefix parsePostfix_good[OF pe Suc.prems(2) n]
    by (auto split: option.split dest: match_tok_Some)
qed simp

lemma parseTernary_good:
  assumes pe: "good k pe" and n: "Suc k = n"
  shows "good n (parseTernary n pe)"
proof -
  have un: "good n (parseUnary n pe)"
    unfolding good_def parseUnary_def using n by (auto intro: unaryLoop_outcome [OF pe])
  have or: "good n (parseOr n pe)"
    unfolding parseOr_def parseAnd_def parseEquality_def parseComparison_def parseAddition_def
      parseMultiplication_def
    by (intro parseBinary_good un) auto
  show ?thesis
    unfolding good_def parseTernary_def
  proof (intro allI impI)
    fix ts :: tokens
    assume k: "length ts < n"
    show "outcome (length ts) Q (bindE (parseOr n pe ts) (\<lambda>(node, ts1).
        case match_tok TQuestion ts1 of None \<Rightarrow> Inr (node, ts1)
        | Some ts2 \<Rightarrow> bindE (pe ts2) (\<lambda>(consequent, ts3).
            bindE (expect TColon ''Expected : in ternary expression'' ts3) (\<lambda>(_, ts4).
            bindE (pe ts4) (\<lambda>(alternate, ts5). Inr (TernaryExpression node consequent alternate, ts5))))))"
    proof (rule outcome_bind [OF goodD [OF or k]], unfold split_conv)
      fix c and ts1 :: tokens
      assume c: "length ts1 < length ts" "Q c"
      have branch: "outcome (length ts) Q (bindE (pe ts2) (\<lambda>(consequent, ts3).
            bindE (expect TColon ''Expected : in ternary expression'' ts3) (\<lambda>(_, ts4).
            bindE (pe ts4) (\<lambda>(alternate, ts5). Inr (TernaryExpression c consequent alternate, ts5)))))"
        if l2: "length ts2 < length ts1" for ts2
      proof (rule outcome_bind, unfold split_conv)
        show "outcome (length ts2) Q (pe ts2)" using l2 c k n by (intro goodD [OF pe]) auto
        fix t and ts3 :: tokens
        assume t: "length ts3 < length ts2" "Q t"
        show "outcome (length ts) Q (bindE (expect TColon ''Expected : in ternary expression'' ts3)
            (\<lambda>(_, ts4). bindE (pe ts4) (\<lambda>(alternate, ts5). Inr (TernaryExpression c t alternate, ts5))))"
        proof (rule outcome_bind [OF outcome_expect], simp, unfold split_conv)
          fix tk and ts4 :: tokens
          assume l4: "length ts4 < length ts3"
          then have "outcome (length ts4) Q (pe ts4)" using l2 t c k n by (intro goodD [OF pe]) auto
          then show "outcome (length ts) Q
              (bindE (pe ts4) (\<lambda>(alternate, ts5). Inr (TernaryExpression c t alternate, ts5)))"
            by (rule outcome_bind) (use l4 l2 t c in \<open>auto intro: ternary\<close>)
        qed
      qed
      show "outcome (length ts) Q (case match_tok TQuestion ts1 of None \<Rightarrow> Inr (c, ts1)
        | Some ts2 \<Rightarrow> bindE (pe ts2) (\<lambda>(consequent, ts3).
            bindE (expect TColon ''Expected : in ternary expression'' ts3) (\<lambda>(_, ts4).
            bindE (pe ts4) (\<lambda>(alternate, ts5). Inr (TernaryExpression c consequent alternate, ts5)))))"
        using branch c by (auto split: option.split dest: match_tok_Some)
    qed
  qed
qed

lemma parseExpression_good: "good n (parseExpression n)"
proof (induction n)
  case 0
  show ?case by (simp add: good_def)
next
  case (Suc n)
  have "good (Suc n) (parseTernary (Suc n) (parseExpression n))"
    by (rule parseTernary_good [OF Suc]) simp
  then show ?case by (simp add: good_def)
qed

fun Qpart :: "tpart \<Rightarrow> bool" where
  "Qpart (TextPart s) = True"
| "Qpart (ExprPart e) = Q e"

lemma parse_parts_outcome:
  "\<forall>p \<in> set parts. Qpart p \<Longrightarrow>
     (case parse_parts parts ts of Inl e \<Rightarrow> reported e | Inr ps \<Rightarrow> \<forall>p \<in> set ps. Qpart p)"
proof (induction parts ts rule: parse_parts.induct)
  case (1 parts ts)
  let ?t = "current ts"
  have expr: "case bindE (parseExpression (parse_fuel ts) (advance ts)) (\<lambda>r.
        bindE (expect TExprEnd ''Expected }}'' (snd r)) (\<lambda>e.
        if length (snd e) < length ts then parse_parts (parts @ [ExprPart (fst r)]) (snd e)
        else Inl NoFuel)) of Inl e \<Rightarrow> reported e | Inr ps \<Rightarrow> \<forall>p \<in> set ps. Qpart p"
    if ty: "tok_type ?t = TExprStart"
  proof -
    have l: "length (advance ts) < length ts" using ty by (intro advance_less) auto
    have o1: "outcome (length (advance ts)) Q (parseExpression (parse_fuel ts) (advance ts))"
      by (rule goodD [OF parseExpression_good]) (use l in \<open>simp add: parse_fuel_def\<close>)
    show ?thesis
    proof (cases "parseExpression (parse_fuel ts) (advance ts)")
      case (Inl e)
      with o1 show ?thesis by simp
    next
      case (Inr r)
      with o1 have r: "length (snd r) < length (advance ts)" "Q (fst r)" by (cases r, simp)+
      have o2: "outcome (length (snd r)) (\<lambda>t. tok_type t = TExprEnd) (expect TExprEnd ''Expected }}'' (snd r))"
        by (rule outcome_expect) simp
      show ?thesis
      proof (cases "expect TExprEnd ''Expected }}'' (snd r)")
        case (Inl e)
        with o2 \<open>parseExpression _ _ = Inr r\<close> show ?thesis by simp
      next
        case (Inr e)
        with o2 have "length (snd e) < length (snd r)" by (cases e) simp
        with r l have le: "length (snd e) < length ts" by simp
        have "\<forall>p \<in> set (parts @ [ExprPart (fst r)]). Qpart p" using "1.prems" r by auto
        from "1.IH"(2)[OF refl _ _ ty \<open>parseExpression _ _ = Inr r\<close> Inr le this] ty le Inr
          \<open>parseExpression _ _ = Inr r\<close>
        show ?thesis by simp
      qed
    qed
  qed
  show ?case
    using "1.prems" "1.IH"(1)[OF refl] expr
    by (subst parse_parts.simps) (auto simp: Let_def)
qed

lemma parse_outcome:
  "case parse ts of Inl e \<Rightarrow> reported e
   | Inr a \<Rightarrow> Q a \<or> (\<exists>ps. a = TemplateLiteral ps \<and> (\<forall>p \<in> set ps. Qpart p))"
proof -
  have "case parse_parts [] ts of Inl e \<Rightarrow> reported e | Inr ps \<Rightarrow> \<forall>p \<in> set ps. Qpart p"
    by (rule parse_parts_outcome) simp
  then show ?thesis
    by (cases "parse_parts [] ts") (auto simp: parse_def q_text split: list.split tpart.split)
qed

end


section \<open>Optional steps stay inside their chain\<close>

text \<open>
  \<open>guarded c e\<close>: every optional step of \<open>e\<close> lies on the spine of an enclosing
  \<open>ChainExpression\<close>; \<open>c\<close> says whether \<open>e\<close> itself is on such a spine.
\<close>

fun guarded :: "bool \<Rightarrow> ast \<Rightarrow> bool" and guarded_part :: "tpart \<Rightarrow> bool" where
  "guarded c (MemberExpression e p opt) = ((opt \<longrightarrow> c) \<and> guarded c e)"
| "guarded c (IndexExpression e i opt) = ((opt \<longrightarrow> c) \<and> guarded c e \<and> guarded False i)"
| "guarded c (CallExpression e args opt) = ((opt \<longrightarrow> c) \<and> guarded c e \<and> (\<forall>a \<in> set args. guarded False a))"
| "guarded c (ChainExpression e) = guarded True e"
| "guarded c (UnaryExpression uop e) = guarded False e"
| "guarded c (BinaryExpression bop l r) = (guarded False l \<and> guarded False r)"
| "guarded c (TernaryExpression e t f) = (guarded False e \<and> guarded False t \<and> guarded False f)"
| "guarded c (ArrayLiteral es) = (\<forall>e \<in> set es. guarded False e)"
| "guarded c (ObjectLiteral ps) = (\<forall>kv \<in> set ps. guarded False (snd kv))"
| "guarded c (TemplateLiteral ps) = (\<forall>p \<in> set ps. guarded_part p)"
| "guarded c (NumberLiteral _) = True"
| "guarded c (StringLiteral _) = True"
| "guarded c (BooleanLiteral _) = True"
| "guarded c NullLiteral = True"
| "guarded c (Identifier _) = True"
| "guarded_part (TextPart s) = True"
| "guarded_part (ExprPart e) = guarded False e"

lemma guarded_mono:
  shows "guarded False e \<Longrightarrow> guarded c e"
    and "guarded_part p \<Longrightarrow> guarded_part p"
  by (induction c e and p rule: guarded_guarded_part.induct) auto

interpretation total: ast_invariant "\<lambda>_. True" "\<lambda>_ _. True"
  by unfold_locales auto

interpretation chain: ast_invariant "guarded False" "\<lambda>saw e. guarded True e \<and> (\<not> saw \<longrightarrow> guarded False e)"
  by unfold_locales (auto intro: guarded_mono(1))

lemma chain_Qpart: "chain.Qpart = guarded_part"
proof
  fix p show "chain.Qpart p = guarded_part p" by (cases p) auto
qed

lemma parse_reported: "parse ts = Inl e \<Longrightarrow> reported e"
  using total.parse_outcome[of ts] by auto

lemma parse_no_NoFuel: "parse ts \<noteq> Inl NoFuel"
  using parse_reported by force

lemma parse_guarded_ast: "parse ts = Inr a \<Longrightarrow> guarded False a"
  using chain.parse_outcome[of ts] by (auto simp: chain_Qpart)

end
