(* ===== verification/EvaluatorFacts.thy ===== *)
theory EvaluatorFacts
  imports Evaluator ParserFacts
begin

text \<open>
  What evaluation can raise, and how much of the clock it reads. \<open>raises ok m\<close> bounds the errors of
  a computation; the rules below carry the bound through the monad, so that each built-in and each
  node is a goal for the collection \<open>raises_intros\<close>.
\<close>

named_theorems raises_intros \<open>rules for the errors of a computation\<close>

section \<open>The errors of a computation\<close>

definition raises :: "(js_throw \<Rightarrow> bool) \<Rightarrow> 'a ev \<Rightarrow> bool" where
  "raises ok m = (\<forall>st e st'. m st = (Inl e, st') \<longrightarrow> ok e)"

lemma raisesD: "raises ok m \<Longrightarrow> m st = (Inl e, st') \<Longrightarrow> ok e"
  by (auto simp: raises_def)

lemma raises_mono: "raises ok m \<Longrightarrow> (\<And>e. ok e \<Longrightarrow> ok' e) \<Longrightarrow> raises ok' m"
  by (auto simp: raises_def)

lemma raises_ret [raises_intros]: "raises ok (retM x)"
  by (simp add: raises_def retM_def)

lemma raises_throw [raises_intros]: "ok e \<Longrightarrow> raises ok (throwM e)"
  by (simp add: raises_def throwM_def)

lemma raises_lift [raises_intros]: "(\<And>e. r = Inl e \<Longrightarrow> ok e) \<Longrightarrow> raises ok (liftE r)"
  by (simp add: raises_def liftE_def)

lemma raises_tick [raises_intros]: "raises ok tickM"
  by (simp add: raises_def tickM_def)

lemma raises_new_array [raises_intros]: "raises ok (new_array vs)"
  by (simp add: raises_def new_array_def)

lemma raises_new_object [raises_intros]: "raises ok (new_object ps)"
  by (simp add: raises_def new_object_def)

lemma raises_bind [raises_intros]:
  "raises ok m \<Longrightarrow> (\<And>x. raises ok (f x)) \<Longrightarrow> raises ok (bindM m f)"
  by (fastforce simp: raises_def bindM_def split: prod.splits sum.splits)

lemma raises_catch:
  "raises ok' m \<Longrightarrow> (\<And>e. ok' e \<Longrightarrow> raises ok (handler e)) \<Longrightarrow> raises ok (catchM m handler)"
  by (fastforce simp: raises_def catchM_def split: prod.splits sum.splits)

lemma raises_mapM [raises_intros]: "(\<And>x. raises ok (f x)) \<Longrightarrow> raises ok (mapM_ev f xs)"
  by (induction xs) (auto intro!: raises_intros)

lemma raises_if [raises_intros]:
  "(b \<Longrightarrow> raises ok m) \<Longrightarrow> (\<not> b \<Longrightarrow> raises ok m') \<Longrightarrow> raises ok (if b then m else m')"
  by simp

lemma register_all:
  assumes "map_of (register fs m) k = Some f"
    and "\<And>kv. kv \<in> set fs \<Longrightarrow> P (snd kv)" and "\<And>k f. map_of m k = Some f \<Longrightarrow> P f"
  shows "P f"
  using assms
proof (induction fs arbitrary: m)
  case (Cons kv fs)
  have "P (snd kv)" by (rule Cons.prems(2)) simp
  then have "P f'" if "map_of (jput (fst kv) (snd kv) m) k' = Some f'" for k' f'
    using that Cons.prems(3) [of k' f'] by (simp split: if_splits)
  moreover have "map_of (register fs (jput (fst kv) (snd kv) m)) k = Some f"
    using Cons.prems(1) by (simp add: register_def)
  ultimately show ?case using Cons.IH [of "jput (fst kv) (snd kv) m"] Cons.prems(2) by simp
qed (auto simp: register_def)

section \<open>Errors of the built-in functions\<close>

text \<open>
  The contract between the evaluator's error classes and a bound \<open>ok\<close> on errors: the errors that
  built-ins, operators and nodes construct satisfy it. The limit checks are added by the locale
  below.
\<close>

locale throw_contract =
  fixes ok :: "js_throw \<Rightarrow> bool"
  assumes ok_type [simp]: "ok (TypeErr m)"
    and ok_reference [simp]: "ok (ReferenceErr m)"
    and ok_function [simp]: "ok (FunctionErr m)"
    and ok_host [simp]: "ok (HostError m)"
begin

lemma assert_runtime [raises_intros]:
  "raises ok (assertString v f)" "raises ok (assertNumber v f)" "raises ok (assertArray v f)"
  "raises ok (assertObject v f)" "raises ok (assertDateNumber v f)"
  by (cases v; simp add: raises_ret raises_throw)+

lemma js_alloc_throw [simp]: "js_alloc h s = Inl e \<Longrightarrow> ok e"
  by (auto simp: js_alloc_def split: if_splits)

lemma pad_filler_throw [simp]: "pad_filler h s len fill = Inl e \<Longrightarrow> ok e"
  by (auto simp: pad_filler_def Let_def split: if_splits)

lemma display_string_throw [simp]: "display_string h v = Inl e \<Longrightarrow> ok e"
  by (auto simp: display_string_def js_alloc_def split: if_splits jsval.splits)

lemma parseDayjs_runtime [raises_intros]: "raises ok (parseDayjs h s f)"
  by (auto simp: parseDayjs_def intro!: raises_intros)

lemma normalizeUnit_runtime [raises_intros]: "raises ok (normalizeUnit h u)"
  by (auto simp: normalizeUnit_def split: option.splits intro!: raises_intros)

lemma iso_string_runtime [raises_intros]: "raises ok (iso_string d)"
  by (auto simp: iso_string_def split: option.splits intro!: raises_intros)

lemma string_functions_runtime:
  "raises ok (fn_length args)" "raises ok (fn_uppercase h args)" "raises ok (fn_lowercase h args)"
  "raises ok (fn_trim args)" "raises ok (fn_contains args)" "raises ok (fn_startsWith args)"
  "raises ok (fn_endsWith args)" "raises ok (fn_replace h args)" "raises ok (fn_replaceAll h args)"
  "raises ok (fn_split args)" "raises ok (fn_join h args)" "raises ok (fn_substring args)"
  "raises ok (fn_padStart h args)" "raises ok (fn_padEnd h args)"
  by (auto simp: fn_length_def fn_uppercase_def fn_lowercase_def fn_trim_def fn_contains_def
        fn_startsWith_def fn_endsWith_def fn_replace_def fn_replaceAll_def fn_split_def fn_join_def
        fn_substring_def fn_padStart_def fn_padEnd_def fn_pad_def Let_def
      split: jsval.split option.split intro!: raises_intros)

lemma number_functions_runtime:
  "raises ok (fn_round h args)" "raises ok (fn_ceil args)" "raises ok (fn_floor args)"
  "raises ok (fn_abs args)" "raises ok (fn_min args)" "raises ok (fn_max args)"
  "raises ok (fn_parseInt args)" "raises ok (fn_parseFloat args)" "raises ok (fn_toFixed args)"
  "raises ok (fn_random h args)"
  by (auto simp: fn_round_def fn_ceil_def fn_floor_def fn_abs_def fn_min_def fn_max_def
        fn_parseInt_def fn_parseFloat_def fn_toFixed_def fn_random_def Let_def
      split: jsval.split option.split intro!: raises_intros)

lemma date_functions_runtime:
  "raises ok (fn_formatDate h args)" "raises ok (fn_parseDate h args)" "raises ok (fn_addTime h args)"
  "raises ok (fn_subtractTime h args)" "raises ok (fn_diffTime h args)" "raises ok (fn_now h args)"
  "raises ok (fn_today h args)"
  by (auto simp: fn_formatDate_def fn_parseDate_def fn_addTime_def fn_subtractTime_def
        fn_diffTime_def fn_now_def fn_today_def intro!: raises_intros)

lemma array_functions_runtime:
  "raises ok (fn_first args)" "raises ok (fn_last args)" "raises ok (fn_includes args)"
  "raises ok (fn_reverse args)" "raises ok (fn_flatten args)" "raises ok (fn_unique args)"
  "raises ok (fn_compact args)" "raises ok (fn_slice args)" "raises ok (fn_concat args)"
  by (auto simp: fn_first_def fn_last_def fn_includes_def fn_reverse_def fn_flatten_def
        fn_unique_def fn_compact_def fn_slice_def fn_concat_def
      split: jsval.split option.split intro!: raises_intros)

lemma object_functions_runtime:
  "raises ok (fn_keys args)" "raises ok (fn_values args)" "raises ok (fn_entries args)"
  "raises ok (fn_hasKey args)" "raises ok (fn_merge args)" "raises ok (fn_pick args)"
  "raises ok (fn_omit args)"
  by (auto simp: fn_keys_def fn_values_def fn_entries_def fn_hasKey_def fn_merge_def fn_pick_def
        fn_omit_def split: jsval.split intro!: raises_intros)

lemma fromJSON_runtime: "raises ok (fn_fromJSON h args)"
  by (auto simp: fn_fromJSON_def raises_def throwM_def split: jsval.splits option.splits)

lemma type_functions_runtime:
  "raises ok (fn_toString h args)" "raises ok (fn_toNumber args)" "raises ok (fn_toBoolean args)"
  "raises ok (fn_toJSON h args)" "raises ok (fn_fromJSON h args)" "raises ok (fn_typeOf args)"
  "raises ok (fn_isEmpty args)" "raises ok (fn_isNull args)"
  by (auto simp: fn_toString_def fn_toNumber_def fn_toBoolean_def fn_toJSON_def fn_typeOf_def
        fn_isEmpty_def fn_isNull_def Let_def fromJSON_runtime
      split: jsval.split option.split intro!: raises_intros)

lemma getFunction_runtime: "getFunction h name = Some f \<Longrightarrow> raises ok (f args)"
  unfolding getFunction_def registry_def
  by (elim register_all [where P = "\<lambda>f. raises ok (f args)"])
     (auto simp: typeFunctions_def objectFunctions_def arrayFunctions_def dateFunctions_def
         numberFunctions_def stringFunctions_def type_functions_runtime object_functions_runtime
         array_functions_runtime date_functions_runtime number_functions_runtime
         string_functions_runtime)

text \<open>On the spine of a chain the short-circuit signal may also be raised.\<close>

definition spine_throw :: "bool \<Rightarrow> js_throw \<Rightarrow> bool" where
  "spine_throw c e = (ok e \<or> (c \<and> e = ShortCircuit))"

lemma spine_throw_simps [simp]:
  "ok e \<Longrightarrow> spine_throw c e" "spine_throw True ShortCircuit"
  "spine_throw False e = ok e"
  by (auto simp: spine_throw_def)

lemma spine_runtime: "raises ok m \<Longrightarrow> raises (spine_throw c) m"
  by (erule raises_mono) simp

lemma spine_False [simp]: "raises (spine_throw False) m = raises ok m"
  by (simp add: raises_def)

section \<open>Errors of the operators\<close>

lemma concat_values_throw [simp]: "concat_values h l r = Inl e \<Longrightarrow> ok e"
  by (auto simp: concat_values_def toStringValue_def bindE_Inl_iff)

lemma evalPlus_throw [simp]: "evalPlus h l r = Inl e \<Longrightarrow> ok e"
  by (auto simp: evalPlus_def split: if_splits option.splits)

lemma evalArithmetic_throw [simp]: "evalArithmetic l r f sy = Inl e \<Longrightarrow> ok e"
  by (auto simp: evalArithmetic_def toNumberValue_def bindE_Inl_iff split: option.splits)

lemma evalComparison_throw [simp]:
  assumes "evalComparison h l r f = Inl e" shows "ok e"
proof -
  have "evalComparison h l r f = Inl e \<Longrightarrow> \<exists>m. e = TypeErr m"
    by (cases l; cases r) (auto simp: evalComparison_def Let_def bool_num_def split: if_splits)
  then show ?thesis using assms by auto
qed

lemma strict_binary_throw [simp]: "strict_binary E uop l r = Inl e \<Longrightarrow> ok e"
  by (cases uop) (auto simp: strict_binary_def Let_def bindE_Inl_iff)

lemma evaluateIdentifier_throw [simp]: "evaluateIdentifier E name = Inl e \<Longrightarrow> ok e"
  by (auto simp: evaluateIdentifier_def Let_def split: if_splits)

section \<open>Errors of the nodes\<close>

lemma member_raises:
  assumes "raises (spine_throw c) m" and "optional \<longrightarrow> c"
  shows "raises (spine_throw c) (evaluateMemberExpression E m p optional)"
  unfolding evaluateMemberExpression_def using assms
  by (auto split: jsval.split intro!: raises_intros)

lemma index_raises:
  assumes "raises (spine_throw c) m" and "raises ok i" and "optional \<longrightarrow> c"
  shows "raises (spine_throw c) (evaluateIndexExpression E m i optional)"
  unfolding evaluateIndexExpression_def using assms spine_runtime [OF assms(2)]
  by (auto split: jsval.split intro!: raises_intros)

lemma call_raises:
  assumes "raises ok args" and "optional \<longrightarrow> c"
  shows "raises (spine_throw c) (evaluateCallExpression E callee args optional)"
proof -
  have "raises ok (catchM (fn vs) (\<lambda>e. if is_expression_error e then throwM e
      else throwM (FunctionErr (''Error in function '' @ name @ '': '' @ error_message e))))"
    if "getFunction (ev_host E) name = Some fn" for fn vs name
    by (rule raises_catch [OF getFunction_runtime [OF that]]) (auto intro!: raises_intros)
  then show ?thesis
    unfolding evaluateCallExpression_def using assms spine_runtime [OF assms(1)]
    by (auto split: ast.split option.split intro!: raises_intros intro: spine_runtime)
qed

lemma chain_runtime: "raises (spine_throw True) m \<Longrightarrow> raises ok (evaluateChain m)"
  unfolding evaluateChain_def
  by (rule raises_catch [where ok' = "spine_throw True"])
     (auto simp: spine_throw_def intro!: raises_intros)

lemma unary_runtime: "raises ok m \<Longrightarrow> raises ok (evaluateUnaryExpression uop m)"
  by (auto simp: evaluateUnaryExpression_def split: unop.split jsval.split intro!: raises_intros)

lemma binary_runtime: "raises ok l \<Longrightarrow> raises ok r \<Longrightarrow> raises ok (evaluateBinaryExpression E uop l r)"
  by (auto simp: evaluateBinaryExpression_def intro!: raises_intros)

lemma ternary_runtime:
  "raises ok c \<Longrightarrow> raises ok t \<Longrightarrow> raises ok e \<Longrightarrow> raises ok (evaluateTernaryExpression c t e)"
  by (auto simp: evaluateTernaryExpression_def intro!: raises_intros)

lemma template_runtime: "raises ok ps \<Longrightarrow> raises ok (evaluateTemplateLiteral E ps)"
  by (auto simp: evaluateTemplateLiteral_def intro!: raises_intros)

end

section \<open>Limits\<close>

text \<open>
  How deep evaluation nests below a node: the depth at which the limits of its deepest descendant
  are checked. The callee of a call is not evaluated.
\<close>

primrec height :: "ast \<Rightarrow> nat" and height_part :: "tpart \<Rightarrow> nat"
and height_args :: "ast list \<Rightarrow> nat" and height_parts :: "tpart list \<Rightarrow> nat"
and height_prop :: "string \<times> ast \<Rightarrow> nat" and height_props :: "(string \<times> ast) list \<Rightarrow> nat"
where
  "height (NumberLiteral x) = 0"
| "height (StringLiteral s) = 0"
| "height (BooleanLiteral b) = 0"
| "height NullLiteral = 0"
| "height (Identifier name) = 0"
| "height (MemberExpression e property optional) = Suc (height e)"
| "height (IndexExpression e i optional) = Suc (max (height e) (height i))"
| "height (CallExpression callee args optional) = height_args args"
| "height (ChainExpression e) = Suc (height e)"
| "height (UnaryExpression operator e) = Suc (height e)"
| "height (BinaryExpression operator l r) = Suc (max (height l) (height r))"
| "height (TernaryExpression c t e) = Suc (max (height c) (max (height t) (height e)))"
| "height (ArrayLiteral es) = height_args es"
| "height (ObjectLiteral kvs) = height_props kvs"
| "height (TemplateLiteral ps) = height_parts ps"
| "height_part (TextPart s) = 0"
| "height_part (ExprPart e) = Suc (height e)"
| "height_args [] = 0"
| "height_args (e # es) = max (Suc (height e)) (height_args es)"
| "height_parts [] = 0"
| "height_parts (p # ps) = max (height_part p) (height_parts ps)"
| "height_prop (k, e) = Suc (height e)"
| "height_props [] = 0"
| "height_props (kv # kvs) = max (height_prop kv) (height_props kvs)"

text \<open>Below depth \<open>D\<close> the limit checks of the evaluator \<open>E\<close> raise only errors within the bound.\<close>

locale limits_contract = throw_contract +
  fixes E :: evaluator and D :: nat
  assumes limits: "d < D \<Longrightarrow> raises ok (checkLimits E d)"
begin

lemma entering_raises:
  "d < D \<Longrightarrow> raises (spine_throw c) m \<Longrightarrow> raises (spine_throw c) (entering E d m)"
  unfolding entering_def by (intro raises_bind [OF spine_runtime [OF limits]])

lemma entering_runtime: "d < D \<Longrightarrow> raises ok m \<Longrightarrow> raises ok (entering E d m)"
  unfolding entering_def by (intro raises_bind limits)

lemma child_runtime:
  assumes "\<And>c d. guarded c e \<Longrightarrow> d + height e \<le> D \<Longrightarrow> raises (spine_throw c) (evaluateNode e E d)"
    and "guarded False e" and "Suc (d + height e) \<le> D"
  shows "raises ok (entering E d (evaluateNode e E (Suc d)))"
  using assms(1) [OF assms(2), of "Suc d"] assms(3) by (simp add: entering_runtime)

lemma evaluateNode_raises:
  shows "guarded c a \<Longrightarrow> d + height a \<le> D \<Longrightarrow> raises (spine_throw c) (evaluateNode a E d)"
    and "guarded_part p \<Longrightarrow> d + height_part p \<le> D \<Longrightarrow> raises ok (evaluatePart p E d)"
    and "\<forall>x \<in> set es. guarded False x \<Longrightarrow> d + height_args es \<le> D \<Longrightarrow> raises ok (evaluateArgs es E d)"
    and "\<forall>x \<in> set ps. guarded_part x \<Longrightarrow> d + height_parts ps \<le> D \<Longrightarrow> raises ok (evaluateParts ps E d)"
    and "guarded False (snd kv) \<Longrightarrow> d + height_prop kv \<le> D \<Longrightarrow> raises ok (evaluateProp kv E d obj)"
    and "\<forall>x \<in> set kvs. guarded False (snd x) \<Longrightarrow> d + height_props kvs \<le> D
      \<Longrightarrow> raises ok (evaluateProps kvs E d obj)"
proof (induction a and p and es and ps and kv and kvs
    arbitrary: c d and d and d and d and d obj and d obj rule: ast_inducts)
  case (MemberExpression e p optional)
  then show ?case by (auto intro!: member_raises entering_raises)
next
  case (IndexExpression e i optional)
  have "raises ok (entering E d (evaluateNode i E (Suc d)))"
    using IndexExpression by (auto intro!: child_runtime)
  then show ?case using IndexExpression by (auto intro!: index_raises entering_raises)
next
  case (CallExpression e args optional)
  then show ?case by (auto intro!: call_raises)
next
  case (ChainExpression e)
  then show ?case by (auto intro!: spine_runtime [OF chain_runtime [OF entering_raises]])
next
  case (UnaryExpression uop e)
  then show ?case by (auto intro!: spine_runtime [OF unary_runtime] child_runtime)
next
  case (BinaryExpression uop l r)
  then show ?case by (auto intro!: spine_runtime [OF binary_runtime] child_runtime)
next
  case (TernaryExpression x t f)
  then show ?case by (auto intro!: spine_runtime [OF ternary_runtime] child_runtime)
qed (auto intro!: raises_intros template_runtime child_runtime intro: spine_runtime simp: toStringValue_def)

lemma evaluate_raises:
  "guarded False tree \<Longrightarrow> d + height tree < D \<Longrightarrow> raises ok (evaluate E d tree)"
  using evaluateNode_raises(1) [of False tree "Suc d"] by (simp add: evaluate_def entering_runtime)

end

section \<open>Run-time errors\<close>

text \<open>
  An error of evaluation proper: an expression error other than a syntax error, without a source
  position, or an error of the host. The short-circuit signal is neither.
\<close>

fun runtime_throw :: "js_throw \<Rightarrow> bool" where
  "runtime_throw (ExpressionError code _ pos) = (code \<noteq> EXPR_SYNTAX_ERROR \<and> pos = None)"
| "runtime_throw (HostError _) = True"
| "runtime_throw ShortCircuit = False"

interpretation runtime: limits_contract runtime_throw E D for E D
  by unfold_locales (auto simp: checkLimits_def throw_defs intro!: raises_intros)

text \<open>An error that is neither of the two limits, and evaluators that cannot reach the limits.\<close>

fun no_limit_throw :: "js_throw \<Rightarrow> bool" where
  "no_limit_throw (ExpressionError code _ _) = (code \<notin> {EXPR_DEPTH_EXCEEDED, EXPR_TIMEOUT})"
| "no_limit_throw _ = True"

definition in_time :: "evaluator \<Rightarrow> bool" where
  "in_time E = (\<forall>k. h_clock (ev_host E) k - ev_startTime E \<le> ev_timeout E)"

lemma checkLimits_within:
  assumes "in_time E" and "int d < ev_maxDepth E"
  shows "checkLimits E d = bindM tickM (\<lambda>k. retM ())"
proof -
  have "\<not> ev_timeout E < h_clock (ev_host E) k - ev_startTime E" for k
    using assms(1) by (simp add: in_time_def not_less)
  then show ?thesis using assms(2) by (simp add: checkLimits_def)
qed

lemma no_limit_contract:
  "in_time E \<Longrightarrow> limits_contract no_limit_throw E (nat (ev_maxDepth E))"
  by unfold_locales (auto simp: checkLimits_within throw_defs intro!: raises_intros)

end
