(* ===== verification/TokenizerFacts.thy ===== *)
theory TokenizerFacts
  imports Tokenizer
begin

text \<open>
  What the tokenizer promises: its errors are syntax errors, string tokens end at their closing
  quote, token positions increase, expression markers alternate, and a text whose \<open>{{\<close> are escaped
  is one sequence of text tokens.
\<close>

section \<open>Errors\<close>

fun is_syntax_error :: "js_throw \<Rightarrow> bool" where
  "is_syntax_error (ExpressionError code _ _) = (code = EXPR_SYNTAX_ERROR)"
| "is_syntax_error _ = False"

lemma is_syntax_error_SyntaxErr [simp]: "is_syntax_error (SyntaxErr m p)"
  by (simp add: SyntaxErr_def)

lemma is_syntax_error_iff: "is_syntax_error e \<longleftrightarrow> (\<exists>m p. e = SyntaxErr m p)"
  by (cases e) (auto simp: SyntaxErr_def)

lemma read_string_loop_error: "read_string_loop input q pos e v = Inl err \<Longrightarrow> is_syntax_error err"
proof (induction input q pos e v rule: read_string_loop.induct)
  case (1 input q pos e v)
  then show ?case by (auto simp: read_string_loop.simps [of input q pos e v] split: if_splits)
qed

lemma readExpressionToken_error: "readExpressionToken input pos = Inl err \<Longrightarrow> is_syntax_error err"
  by (auto simp: readExpressionToken_def readString_def readIdentifier_def Let_def
      dest: read_string_loop_error split: option.splits if_splits)

text \<open>
  The contract between the loop of \<open>tokenize\<close> and a property \<open>P\<close> of its state (position, inside an
  expression, brace depth, tokens so far): every step of the loop preserves it.
\<close>

locale token_invariant =
  fixes input :: string
    and P :: "nat \<Rightarrow> bool \<Rightarrow> nat \<Rightarrow> token list \<Rightarrow> bool"
    and Q :: "token list \<Rightarrow> bool"
  assumes close: "\<And>pos d ts p. P pos True d ts \<Longrightarrow> pos \<le> p \<Longrightarrow> p + 2 \<le> length input
      \<Longrightarrow> P (p + 2) False d (ts @ [Token TExprEnd ''}}'' (int p)])"
    and rbrace: "\<And>pos d ts p. P pos True d ts \<Longrightarrow> pos \<le> p \<Longrightarrow> p < length input
      \<Longrightarrow> P (p + 1) True (d - 1) (ts @ [Token TRBrace ''}'' (int p)])"
    and item: "\<And>pos d ts p tok. P pos True d ts \<Longrightarrow> pos \<le> p \<Longrightarrow> p < length input
      \<Longrightarrow> readExpressionToken input p = Inr tok
      \<Longrightarrow> P (next_pos input tok) True (if tok_type tok = TLBrace then d + 1 else d) (ts @ [tok])"
    and segment: "\<And>pos d ts r. P pos False d ts \<Longrightarrow> pos < length input
      \<Longrightarrow> readTemplateSegment input pos = Some r
      \<Longrightarrow> P (snd r) (tok_type (fst r) = TExprStart) d (ts @ [fst r])"
    and finish: "\<And>pos d ts. P pos False d ts \<Longrightarrow> length input \<le> pos
      \<Longrightarrow> Q (ts @ [Token TEOF '''' (int pos)])"
begin

lemma loop_outcome:
  "P pos b d ts \<Longrightarrow>
    (case tokenize_loop input pos b d ts of Inl e \<Rightarrow> is_syntax_error e | Inr ts' \<Rightarrow> Q ts')"
proof (induction "length input - pos" arbitrary: pos b d ts rule: less_induct)
  case less
  note unfold = tokenize_loop.simps [of input pos]
  define p where "p = skipWhitespace input pos"
  have p: "pos \<le> p" by (simp add: p_def skipWhitespace_def scan_while_ge)
  consider (finished) "length input \<le> pos" | (white) "pos < length input" b "length input \<le> p"
    | (inner) "pos < length input" b "p < length input" | (outer) "pos < length input" "\<not> b"
    by (meson not_less)
  then show ?case
  proof cases
    case finished
    then show ?thesis using finish [of pos d ts] less.prems by (auto simp: unfold unterminated_def)
  next
    case white
    then show ?thesis by (simp add: unfold p_def unterminated_def)
  next
    case outer
    obtain tok n where seg: "readTemplateSegment input pos = Some (tok, n)" "pos < n"
      using readTemplateSegment_Some [OF outer(1)] by metis
    have "P n (tok_type tok = TExprStart) d (ts @ [tok])"
      using segment [OF _ outer(1) seg(1)] less.prems outer by simp
    from less.hyps [OF _ this] show ?thesis
      using seg outer by (simp add: unfold)
  next
    case inner
    consider (close) "input ! p = CHR ''}''" "char_at input (p + 1) = Some CHR ''}''" "d = 0"
      | (rbrace) "input ! p = CHR ''}''" "0 < d"
      | (item) "\<not> (input ! p = CHR ''}'' \<and> char_at input (p + 1) = Some CHR ''}'' \<and> d = 0)"
          "\<not> (input ! p = CHR ''}'' \<and> 0 < d)"
      by blast
    then show ?thesis
    proof cases
      case c: close
      then have "P (p + 2) False d (ts @ [Token TExprEnd ''}}'' (int p)])"
        using close [OF _ p, of d ts] less.prems inner by simp
      from less.hyps [OF _ this] have "length input - (p + 2) < length input - pos \<Longrightarrow> ?thesis"
        using c inner p by (simp add: unfold p_def [symmetric] Let_def)
      then show ?thesis using inner p by linarith
    next
      case r: rbrace
      then have "P (p + 1) True (d - 1) (ts @ [Token TRBrace ''}'' (int p)])"
        using rbrace [OF _ p, of d ts] less.prems inner by simp
      from less.hyps [OF _ this] show ?thesis
        using r inner p by (simp add: unfold p_def [symmetric] Let_def diff_less_mono2)
    next
      case i: item
      show ?thesis
      proof (cases "readExpressionToken input p")
        case (Inl e)
        then show ?thesis
          using i inner readExpressionToken_error [OF Inl] by (auto simp add: unfold p_def [symmetric] Let_def)
      next
        case (Inr tok)
        have "P (next_pos input tok) True (if tok_type tok = TLBrace then d + 1 else d) (ts @ [tok])"
          using item [OF _ p inner(3) Inr] less.prems inner by simp
        moreover have "length input - next_pos input tok < length input - pos"
          using readExpressionToken_progress(2) [OF Inr inner(3)] inner p by linarith
        moreover have "tokenize_loop input pos b d ts
            = tokenize_loop input (next_pos input tok) True
                (if tok_type tok = TLBrace then d + 1 else d) (ts @ [tok])"
          using i inner Inr by (subst unfold) (auto simp: p_def [symmetric] Let_def)
        ultimately show ?thesis using less.hyps by metis
      qed
    qed
  qed
qed

lemma tokenize_outcome:
  assumes "P 0 False 0 []"
  shows "case tokenize input of Inl e \<Rightarrow> is_syntax_error e | Inr ts \<Rightarrow> Q ts"
  using loop_outcome [OF assms] by (simp add: tokenize_def)

end

interpretation tok_total: token_invariant input "\<lambda>pos b d ts. True" "\<lambda>ts. True" for input
  by unfold_locales auto

lemma tokenize_error: "tokenize input = Inl err \<Longrightarrow> is_syntax_error err"
  using tok_total.tokenize_outcome [of input] by simp

section \<open>String tokens\<close>

text \<open>
  The loop of \<open>tokenize\<close> finds the end of a string by a scan of its own (\<open>skipPastStringEnd\<close>); it
  stops at the quote where the reader stopped.
\<close>

lemma string_scans_agree:
  "read_string_loop input q pos e v = Inr tok \<Longrightarrow> q \<noteq> backslash \<Longrightarrow>
    e < skip_string_loop input q e \<and> skip_string_loop input q e \<le> length input
    \<and> input ! (skip_string_loop input q e - 1) = q"
proof (induction input q pos e v rule: read_string_loop.induct)
  case (1 input q pos e v)
  note unfold = read_string_loop.simps [of input q pos e v] skip_string_loop.simps [of input q e]
  consider (escape) "e < length input" "input ! e = backslash" "e + 1 < length input"
    | (dangling) "e < length input" "input ! e = backslash" "\<not> e + 1 < length input"
    | (other) "e < length input" "input ! e \<noteq> backslash"
    using "1.prems" by (auto simp: unfold split: if_splits)
  then show ?case
  proof cases
    case escape
    then show ?thesis using "1.prems" "1.IH"(1) by (simp add: unfold)
  next
    case dangling
    then show ?thesis
      using "1.prems" read_string_loop.simps [of input q pos "e + 1"] by (simp add: unfold)
  next
    case other
    then show ?thesis using "1.prems" "1.IH"(2) by (cases "input ! e = q") (simp_all add: unfold)
  qed
qed

lemma readString_end:
  assumes "readString input pos = Inr tok" and "input ! pos = dquote \<or> input ! pos = squote"
  shows "pos + 1 < skipPastStringEnd input pos"
    and "skipPastStringEnd input pos \<le> length input"
    and "input ! (skipPastStringEnd input pos - 1) = input ! pos"
  using string_scans_agree [OF assms(1) [unfolded readString_def]] assms(2)
  by (auto simp: skipPastStringEnd_def dquote_def squote_def backslash_def)

section \<open>The shape of a token list\<close>

text \<open>
  A reader of the tokens is inside or outside an expression: markers switch, text appears only
  outside and expression tokens only inside. \<open>None\<close> marks a violation.
\<close>

definition marker_step :: "token \<Rightarrow> bool option \<Rightarrow> bool option" where
  "marker_step t s = (case s of
     None \<Rightarrow> None
   | Some inside \<Rightarrow>
       (if tok_type t = TExprStart then (if inside then None else Some True)
        else if tok_type t = TExprEnd then (if inside then Some False else None)
        else if tok_type t \<in> {TText, TEOF} then (if inside then None else Some False)
        else if inside then Some True else None))"

definition template_state :: "token list \<Rightarrow> bool option" where
  "template_state ts = fold marker_step ts (Some False)"

definition scanned :: "nat \<Rightarrow> bool \<Rightarrow> token list \<Rightarrow> bool" where
  "scanned pos b ts =
     (template_state ts = Some b \<and> sorted_wrt (\<lambda>s t. tok_pos s < tok_pos t) ts
      \<and> (\<forall>t \<in> set ts. tok_pos t < int pos \<and> tok_type t \<noteq> TEOF))"

lemma scanned_step:
  assumes "scanned pos b ts" and "int pos \<le> tok_pos t" and "tok_pos t < int n"
    and "marker_step t (Some b) = Some b'" and "tok_type t \<noteq> TEOF"
  shows "scanned n b' (ts @ [t])"
  using assms by (fastforce simp: scanned_def template_state_def sorted_wrt_append)

lemma read_string_loop_type: "read_string_loop input q pos e v = Inr tok \<Longrightarrow> tok_type tok = TString"
  using read_string_loop_tok by blast

definition inner_type :: "token_type \<Rightarrow> bool" where
  "inner_type ty = (ty \<notin> {TText, TExprStart, TExprEnd, TEOF})"

lemma two_char_token_type: "two_char_token s = Some ty \<Longrightarrow> inner_type ty"
  by (auto simp: two_char_token_def inner_type_def split: if_splits)

lemma one_char_token_type: "one_char_token c = Some ty \<Longrightarrow> inner_type ty"
  unfolding one_char_token_def by (drule map_of_SomeD) (auto simp: inner_type_def)

lemma readIdentifier_type: "readIdentifier input pos = Inr tok \<Longrightarrow> inner_type (tok_type tok)"
  by (auto simp: readIdentifier_def inner_type_def Let_def split: if_splits)

lemma readExpressionToken_type:
  assumes "readExpressionToken input pos = Inr tok"
  shows "inner_type (tok_type tok)"
  using assms
  by (auto simp: readExpressionToken_def readString_def readNumber_def Let_def inner_type_def
      dest: read_string_loop_type two_char_token_type one_char_token_type readIdentifier_type
      split: option.splits if_splits)

interpretation tok_shape: token_invariant input "\<lambda>pos b d ts. scanned pos b ts"
    "\<lambda>ts. \<exists>ts' n. ts = ts' @ [Token TEOF '''' (int n)] \<and> scanned n False ts'" for input
proof (unfold_locales, goal_cases)
  case (1 pos d ts p)
  then show ?case by (auto intro!: scanned_step simp: marker_step_def)
next
  case (2 pos d ts p)
  then show ?case by (auto intro!: scanned_step simp: marker_step_def)
next
  case (3 pos d ts p tok)
  then show ?case
    using readExpressionToken_type [OF 3(4)] readExpressionToken_progress [OF 3(4,3)]
    by (auto intro!: scanned_step [OF 3(1)] simp: marker_step_def inner_type_def)
next
  case (4 pos d ts r)
  obtain tok n where "readTemplateSegment input pos = Some (tok, n)" "tok_pos tok = int pos"
      "pos < n" "tok_type tok = TText \<or> tok_type tok = TExprStart"
    using readTemplateSegment_Some [OF 4(2)] by metis
  then show ?case using 4 by (auto intro!: scanned_step simp: marker_step_def)
next
  case (5 pos d ts)
  then show ?case by auto
qed

lemma scanned_Nil: "scanned 0 False []"
  by (simp add: scanned_def template_state_def)

section \<open>Escaped text\<close>

text \<open>Every \<open>{{\<close> of a text gets the backslash that keeps the tokenizer from opening an expression.\<close>

fun escape_template :: "string \<Rightarrow> string" where
  "escape_template (a # b # s) =
     (if a = CHR ''{'' \<and> b = CHR ''{'' then [backslash, CHR ''{'', CHR ''{''] @ escape_template s
      else a # escape_template (b # s))"
| "escape_template s = s"

lemma backslash_code: "backslash = CHR 0x5C"
  by code_simp

lemma escape_template_hd:
  "escape_template (b # s) = c # t \<Longrightarrow> c = b \<or> (c = backslash \<and> b = CHR ''{'')"
  by (cases s) (auto split: if_splits)

lemma escape_template_open: "escape_template s \<noteq> CHR ''{'' # CHR ''{'' # t"
  by (induction s arbitrary: t rule: escape_template.induct)
     (auto simp: backslash_code dest: escape_template_hd split: if_splits)

lemma drop_Cons_iff: "drop i s = c # t \<longleftrightarrow> i < length s \<and> s ! i = c \<and> drop (Suc i) s = t"
  by (metis Cons_nth_drop_Suc drop_all leI list.discI list.inject)

lemma char_at_drop: "char_at s i = (case drop i s of [] \<Rightarrow> None | c # _ \<Rightarrow> Some c)"
  by (auto simp: char_at_def Cons_nth_drop_Suc [symmetric])

lemma open_at_drop: "open_at s i \<longleftrightarrow> (\<exists>t. drop i s = CHR ''{'' # CHR ''{'' # t)"
  by (auto simp: open_at_def drop_Cons_iff)

lemma escaped_open_at_drop:
  "escaped_open_at s i \<longleftrightarrow> (\<exists>t. drop i s = backslash # CHR ''{'' # CHR ''{'' # t)"
  by (auto simp: escaped_open_at_def open_at_def drop_Cons_iff)

lemma read_text_escaped:
  "drop e input = escape_template s \<Longrightarrow> e \<le> length input \<Longrightarrow>
    read_text input e acc = (acc @ s, length input)"
proof (induction s arbitrary: e acc rule: escape_template.induct [case_names Two Nil One])
  case (Two a b s)
  show ?case
  proof (cases "a = CHR ''{'' \<and> b = CHR ''{''")
    case True
    then have "escaped_open_at input e" and e: "e < length input"
      using Two.prems(1) by (auto simp: escaped_open_at_drop drop_Cons_iff)
    moreover have "drop (e + 3) input = escape_template s" and "e + 3 \<le> length input"
      using Two.prems(1) True by (auto simp: drop_Cons_iff numeral_3_eq_3)
    ultimately show ?thesis
      using Two.IH(1) True by (simp add: read_text.simps [of input e])
  next
    case False
    then have d: "drop e input = a # escape_template (b # s)" using Two.prems(1) by auto
    then have e: "e < length input" "input ! e = a" "drop (Suc e) input = escape_template (b # s)"
      by (auto simp: drop_Cons_iff)
    have "\<not> open_at input e" "\<not> escaped_open_at input e"
      using d False escape_template_open [of "b # s"]
      by (auto simp: open_at_drop escaped_open_at_drop backslash_code dest!: escape_template_hd)
    then show ?thesis using e Two.IH(2) False by (simp add: read_text.simps [of input e])
  qed
next
  case Nil
  then show ?case by (simp add: read_text.simps [of input e])
next
  case (One v)
  then have e: "e < length input" "input ! e = v" "drop (Suc e) input = []"
    by (auto simp: drop_Cons_iff)
  then have "\<not> open_at input e" "\<not> escaped_open_at input e"
    using One.prems by (auto simp: open_at_drop escaped_open_at_drop)
  then show ?case
    using e by (simp add: read_text.simps [of input e] read_text.simps [of input "Suc e"])
qed

text \<open>The tokens of an escaped text: text tokens that concatenate to the text.\<close>

definition text_tokens :: "string \<Rightarrow> token list \<Rightarrow> bool" where
  "text_tokens s ts = ((\<forall>t \<in> set ts. tok_type t = TText) \<and> concat (map tok_value ts) = s)"

lemma tokenize_loop_end:
  "tokenize_loop input (length input) False d acc = Inr (acc @ [Token TEOF '''' (int (length input))])"
  by (simp add: tokenize_loop.simps [of input "length input"])

lemma tokenize_loop_escaped:
  "drop pos input = escape_template s \<Longrightarrow> pos \<le> length input \<Longrightarrow>
    \<exists>ts. text_tokens s ts \<and> tokenize_loop input pos False d acc
      = Inr (acc @ ts @ [Token TEOF '''' (int (length input))])"
proof (induction s arbitrary: pos acc rule: length_induct)
  case (1 s)
  note unfold = tokenize_loop.simps [of input pos]
  show ?case
  proof (cases s)
    case Nil
    then have "pos = length input" using 1 by simp
    then show ?thesis using Nil
      by (intro exI [of _ "[]"]) (simp add: text_tokens_def tokenize_loop_end)
  next
    case (Cons a r)
    have pos: "pos < length input"
      using 1(2) Cons by (cases r) (auto simp: drop_Cons_iff split: if_splits)
    show ?thesis
    proof (cases "\<exists>u. s = CHR ''{'' # CHR ''{'' # u")
      case True
      then obtain u where u: "s = CHR ''{'' # CHR ''{'' # u" by blast
      then have esc: "escaped_open_at input pos" and d: "drop (pos + 3) input = escape_template u"
        and le: "pos + 3 \<le> length input"
        using 1(2) by (auto simp: escaped_open_at_drop drop_Cons_iff numeral_3_eq_3)
      obtain ts where ts: "text_tokens u ts" "tokenize_loop input (pos + 3) False d
          (acc @ [Token TText ''{{'' (int pos)])
          = Inr ((acc @ [Token TText ''{{'' (int pos)]) @ ts @ [Token TEOF '''' (int (length input))])"
        using 1(1) [rule_format, of u "pos + 3" "acc @ [Token TText ''{{'' (int pos)]"] d le u by auto
      then show ?thesis
        using esc pos u
        by (intro exI [of _ "Token TText ''{{'' (int pos) # ts"])
           (auto simp: text_tokens_def unfold readTemplateSegment_def)
    next
      case False
      have "\<not> escaped_open_at input pos" "\<not> open_at input pos"
      proof -
        show "\<not> open_at input pos"
          using 1(2) escape_template_open by (auto simp: open_at_drop)
        show "\<not> escaped_open_at input pos"
          using 1(2) False Cons escape_template_open
          by (cases r) (auto simp: escaped_open_at_drop backslash_code split: if_splits)
      qed
      then have "readTemplateSegment input pos = Some (Token TText s (int pos), length input)"
        using read_text_escaped [OF 1(2,3), of "''''"] Cons by (simp add: readTemplateSegment_def)
      then have "tokenize_loop input pos False d acc
          = Inr (acc @ [Token TText s (int pos)] @ [Token TEOF '''' (int (length input))])"
        using pos by (simp add: unfold tokenize_loop_end)
      then show ?thesis
        by (intro exI [of _ "[Token TText s (int pos)]"]) (simp add: text_tokens_def)
    qed
  qed
qed

lemma tokenize_escaped:
  assumes "length (escape_template s) \<le> MAX_EXPRESSION_LENGTH"
  obtains ts n where "text_tokens s ts" and "tokenize (escape_template s) = Inr (ts @ [Token TEOF '''' n])"
  using tokenize_loop_escaped [of 0 "escape_template s" s 0 "[]"] assms that
  by (auto simp: tokenize_def)

end
