(* ===== verification/Engine.thy ===== *)
theory Engine
  imports EvaluatorFacts TokenizerFacts
begin

text \<open>
  The public functions of the expression package (\<open>index.ts\<close>): \<open>evaluate\<close> (here
  \<open>evaluateTemplate\<close>) and \<open>validate\<close>, with the properties of the whole pipeline.
\<close>

section \<open>Definitions\<close>

text \<open>\<open>parse\<close> never runs out of its bound (\<open>parse_total\<close>), so the first equation is not reached.\<close>

fun thrown :: "parse_error \<Rightarrow> js_throw" where
  "thrown NoFuel = HostError ''parse bound''"
| "thrown (ParseErr e) = e"

definition compile :: "string \<Rightarrow> js_throw + ast" where
  "compile template =
     bindE (tokenize template) (\<lambda>tokens.
       case parse tokens of Inl e \<Rightarrow> Inl (thrown e) | Inr tree \<Rightarrow> Inr tree)"

definition evaluateTemplate :: "host \<Rightarrow> string \<Rightarrow> props \<Rightarrow> eval_options \<Rightarrow> jsval ev" where
  "evaluateTemplate h template ctx opts =
     bindM (liftE (compile template)) (\<lambda>tree.
     bindM (new_Evaluator h ctx opts) (\<lambda>evaluator.
       evaluate evaluator 0 tree))"

record validation =
  val_valid :: bool
  val_errors :: "js_throw list"

definition validate :: "string \<Rightarrow> validation" where
  "validate template =
     (case compile template of
        Inr _ \<Rightarrow> \<lparr>val_valid = True, val_errors = []\<rparr>
      | Inl e \<Rightarrow>
          (if is_expression_error e then \<lparr>val_valid = False, val_errors = [e]\<rparr>
           else \<lparr>val_valid = False, val_errors = [SyntaxErr (error_message e) None]\<rparr>))"

section \<open>Errors of the pipeline\<close>

lemma compile_error: "compile template = Inl e \<Longrightarrow> is_syntax_error e"
proof -
  assume e: "compile template = Inl e"
  show "is_syntax_error e"
  proof (cases "tokenize template")
    case (Inl x)
    then show ?thesis using e tokenize_error by (simp add: compile_def)
  next
    case (Inr tokens)
    then obtain x where x: "parse tokens = Inl x" "e = thrown x"
      using e by (auto simp: compile_def split: sum.splits)
    then show ?thesis using parse_reported [OF x(1)] by (cases x) auto
  qed
qed

lemma compile_guarded: "compile template = Inr tree \<Longrightarrow> guarded False tree"
proof -
  assume "compile template = Inr tree"
  then obtain tokens where "parse tokens = Inr tree"
    by (cases "tokenize template") (auto simp: compile_def split: sum.splits)
  then show ?thesis by (rule parse_guarded_ast)
qed

lemma evaluate_runtime: "guarded False tree \<Longrightarrow> raises runtime_throw (evaluate E d tree)"
  using runtime.evaluate_raises [of tree d "Suc (d + height tree)" E] by simp

lemma evaluateTemplate_error:
  assumes "evaluateTemplate h template ctx opts st = (Inl e, st')"
  shows "compile template = Inl e \<or> (\<exists>tree. compile template = Inr tree) \<and> runtime_throw e"
proof (cases "compile template")
  case (Inl x)
  then show ?thesis using assms by (simp add: evaluateTemplate_def liftE_def bindM_def)
next
  case (Inr tree)
  have "raises runtime_throw (bindM (new_Evaluator h ctx opts) (\<lambda>E. evaluate E 0 tree))"
    using evaluate_runtime [OF compile_guarded [OF Inr]]
    by (auto simp: new_Evaluator_def intro!: raises_intros)
  then show ?thesis
    using assms Inr by (auto simp: evaluateTemplate_def liftE_def bindM_def raises_def)
qed

lemma runtime_not_syntax: "runtime_throw e \<Longrightarrow> \<not> is_syntax_error e"
  by (cases e) auto

section \<open>Escaped text\<close>

lemma parse_parts_text:
  "\<forall>t \<in> set ts. tok_type t = TText \<Longrightarrow>
    parse_parts acc (ts @ [Token TEOF '''' n]) = Inr (acc @ map (\<lambda>t. TextPart (tok_value t)) ts)"
proof (induction ts arbitrary: acc)
  case Nil
  then show ?case by (simp add: parse_parts.simps [of acc] current_def)
next
  case (Cons t ts)
  then show ?case
    by (simp add: parse_parts.simps [of acc] current_def advance_def)
qed

lemma evaluateParts_text:
  "evaluateParts (map (\<lambda>t. TextPart (tok_value t)) ts) E d = retM (map tok_value ts)"
  by (induction ts) simp_all

lemma compile_escaped:
  assumes "length (escape_template s) \<le> MAX_EXPRESSION_LENGTH"
  obtains ts where "text_tokens s ts"
    and "compile (escape_template s) =
      Inr (if ts = [] then StringLiteral '''' else TemplateLiteral (map (\<lambda>t. TextPart (tok_value t)) ts))"
proof -
  obtain ts n where ts: "text_tokens s ts" "tokenize (escape_template s) = Inr (ts @ [Token TEOF '''' n])"
    using tokenize_escaped [OF assms] .
  then have "parse_parts [] (ts @ [Token TEOF '''' n]) = Inr (map (\<lambda>t. TextPart (tok_value t)) ts)"
    using parse_parts_text [of ts "[]" n] by (simp add: text_tokens_def)
  then have "parse (ts @ [Token TEOF '''' n])
      = Inr (if ts = [] then StringLiteral '''' else TemplateLiteral (map (\<lambda>t. TextPart (tok_value t)) ts))"
    by (cases ts) (auto simp: parse_def split: list.splits)
  then show thesis using ts that by (simp add: compile_def)
qed

lemma length_escape_template: "length s \<le> length (escape_template s)"
  by (induction s rule: escape_template.induct) auto

lemma evaluate_text:
  assumes "text_tokens s ts" and "in_time E" and "int d < ev_maxDepth E"
    and "length s \<le> MAX_STRING_RESULT" and "length s \<le> h_max_string (ev_host E)"
  shows "fst (evaluate E d (if ts = [] then StringLiteral ''''
           else TemplateLiteral (map (\<lambda>t. TextPart (tok_value t)) ts)) st) = Inr (JStr s)"
proof (cases ts)
  case Nil
  then show ?thesis
    using assms by (simp add: evaluate_def entering_def checkLimits_within text_tokens_def)
       (simp add: monad_defs)
next
  case (Cons t r)
  have s: "concat (map tok_value ts) = s" using assms(1) by (simp add: text_tokens_def)
  have "evaluateTemplateLiteral E (retM (map tok_value ts)) = retM (JStr s)"
    using assms(4,5) by (simp add: evaluateTemplateLiteral_def s js_alloc_def)
       (simp add: fun_eq_iff monad_defs)
  then show ?thesis
    using assms(2,3) Cons evaluateParts_text [of ts E "Suc d"]
    by (simp add: evaluate_def entering_def checkLimits_within) (simp add: monad_defs)
qed

section \<open>Property paths\<close>

text \<open>\<open>x.p1?.p2 ...\<close> as a tree, and what it denotes: nested lookups that stop at the first optional
  step from a nullish value.\<close>

definition member_tree :: "string \<Rightarrow> (string \<times> bool) list \<Rightarrow> ast" where
  "member_tree x steps = foldl (\<lambda>e s. MemberExpression e (fst s) (snd s)) (Identifier x) steps"

definition read_member :: "host \<Rightarrow> jsval \<Rightarrow> string \<Rightarrow> js_throw + jsval" where
  "read_member h obj p =
     (if is_nullish obj then
        Inl (ReferenceErr (''Cannot read property '' @ [squote] @ p @ [squote] @ '' of '' @ to_js_string h obj))
      else case obj of
        JArr _ vs \<Rightarrow> Inr (nullish_or (arr_get h vs p) JNull)
      | JObj _ ps \<Rightarrow> Inr (nullish_or (obj_get h ps p) JNull)
      | _ \<Rightarrow> Inl (TypeErr (''Cannot read property '' @ [squote] @ p @ [squote] @ '' of '' @ js_typeof obj)))"

fun read_path :: "host \<Rightarrow> jsval \<Rightarrow> (string \<times> bool) list \<Rightarrow> js_throw + jsval" where
  "read_path h v [] = Inr v"
| "read_path h v ((p, optional) # steps) =
     (if is_nullish v \<and> optional then Inr JNull
      else bindE (read_member h v p) (\<lambda>w. read_path h w steps))"

fun raw_path :: "host \<Rightarrow> jsval \<Rightarrow> (string \<times> bool) list \<Rightarrow> js_throw + jsval" where
  "raw_path h v [] = Inr v"
| "raw_path h v ((p, optional) # steps) =
     (if is_nullish v \<and> optional then Inl ShortCircuit
      else bindE (read_member h v p) (\<lambda>w. raw_path h w steps))"

lemma read_member_not_signal: "read_member h v p \<noteq> Inl ShortCircuit"
  by (cases v) (auto simp: read_member_def)

lemma read_path_raw:
  "read_path h v steps =
     (case raw_path h v steps of Inl e \<Rightarrow> if e = ShortCircuit then Inr JNull else Inl e | Inr w \<Rightarrow> Inr w)"
proof (induction steps arbitrary: v)
  case (Cons s steps)
  then show ?case
    using read_member_not_signal [of h v "fst s"]
    by (cases s; cases "read_member h v (fst s)") auto
qed simp

lemma raw_path_snoc:
  "raw_path h v (steps @ [(p, optional)]) =
     bindE (raw_path h v steps) (\<lambda>w. if is_nullish w \<and> optional then Inl ShortCircuit else read_member h w p)"
proof (induction h v steps rule: raw_path.induct)
  case (1 h v)
  then show ?case by (cases "read_member h v p") auto
next
  case (2 h v q opt' steps)
  then show ?case by (cases "read_member h v q") auto
qed

lemma member_step:
  "fst (m st) = r \<Longrightarrow> fst (evaluateMemberExpression E m p optional st) =
     bindE r (\<lambda>w. if is_nullish w \<and> optional then Inl ShortCircuit else read_member (ev_host E) w p)"
  by (cases "m st"; cases r)
     (auto simp: evaluateMemberExpression_def read_member_def bindM_def throwM_def retM_def
       split: jsval.splits)

lemma entering_within:
  "in_time E \<Longrightarrow> int d < ev_maxDepth E \<Longrightarrow>
    fst (entering E d m st) = fst (m (st\<lparr>e_ticks := Suc (e_ticks st)\<rparr>))"
  by (simp add: entering_def checkLimits_within) (simp add: monad_defs)

lemma member_tree_raw:
  assumes "in_time E" and "evaluateIdentifier E x = Inr v"
  shows "int (d + length steps) \<le> ev_maxDepth E \<Longrightarrow>
    fst (evaluateNode (member_tree x steps) E d st) = raw_path (ev_host E) v steps"
proof (induction steps arbitrary: d st rule: rev_induct)
  case Nil
  then show ?case using assms by (simp add: member_tree_def liftE_def)
next
  case (snoc s steps)
  obtain p optional where s: "s = (p, optional)" by (cases s)
  have "fst (entering E d (evaluateNode (member_tree x steps) E (Suc d)) st)
      = raw_path (ev_host E) v steps"
    using snoc by (simp add: entering_within [OF assms(1)])
  from member_step [where m = "entering E d (evaluateNode (member_tree x steps) E (Suc d))", OF this]
  show ?case by (simp add: s member_tree_def raw_path_snoc)
qed

lemma chain_result:
  "fst (evaluateChain m st) =
     (case fst (m st) of Inl e \<Rightarrow> if e = ShortCircuit then Inr JNull else Inl e | Inr w \<Rightarrow> Inr w)"
  by (cases "m st"; cases "fst (m st)") (auto simp: evaluateChain_def monad_defs)

section \<open>Equality\<close>

text \<open>
  Values without \<open>undefined\<close> and functions, with distinct keys none of which is inherited: what
  JSON can express.
\<close>

fun plain_value :: "host \<Rightarrow> jsval \<Rightarrow> bool" where
  "plain_value h JUndef = False"
| "plain_value h (JFun _) = False"
| "plain_value h (JArr _ vs) = list_all (plain_value h) vs"
| "plain_value h (JObj _ ps) =
     (distinct (map fst ps) \<and> list_all (\<lambda>kv. h_object_proto h (fst kv) = None \<and> plain_value h (snd kv)) ps)"
| "plain_value h _ = True"

lemma deepEqual_undefined [simp]: "plain_value h v \<Longrightarrow> \<not> deepEqual h v JUndef"
  by (cases v) auto

lemma same_keys:
  assumes "length ps = length qs" "distinct (map fst ps)" "distinct (map fst qs)"
    and "fst ` set ps \<subseteq> fst ` set qs"
  shows "fst ` set ps = fst ` set qs"
  using assms by (intro card_subset_eq) (auto simp: card_image distinct_map distinct_card)

lemma obj_get_plain:
  assumes "plain_value h (JObj i ps)" and "(k, v) \<in> set ps"
  shows "obj_get h ps k = v" and "plain_value h v" and "h_object_proto h k = None"
  using assms by (auto simp: obj_get_def list_all_iff)

lemma obj_get_defined:
  assumes "obj_get h ps k \<noteq> JUndef" and "h_object_proto h k = None"
  shows "(k, obj_get h ps k) \<in> set ps"
  using assms by (auto simp: obj_get_def split: option.splits dest: map_of_SomeD)

lemma deepEqual_sym:
  "plain_value h a \<Longrightarrow> plain_value h b \<Longrightarrow> deepEqual h a b \<Longrightarrow> deepEqual h b a"
proof (induction a arbitrary: b)
  case (JArr i vs)
  show ?case
  proof (cases b)
    case b: (JArr j ws)
    have "list_all2 (deepEqual h) ws vs" if eq: "list_all2 (deepEqual h) vs ws"
    proof (rule list_all2_all_nthI)
      show "length ws = length vs" using list_all2_lengthD [OF eq] by simp
    next
      fix n assume "n < length ws"
      then show "deepEqual h (ws ! n) (vs ! n)"
        using JArr eq b by (auto simp: list_all2_conv_all_nth list_all_length)
    qed
    then show ?thesis using JArr.prems b by auto
  qed (use JArr.prems in auto)
next
  case (JObj i ps)
  show ?case
  proof (cases b)
    case b: (JObj j qs)
    have "length qs = length ps \<and> list_all (\<lambda>(k, w). deepEqual h w (obj_get h ps k)) qs"
      if eq: "length ps = length qs" "list_all (\<lambda>(k, v). deepEqual h v (obj_get h qs k)) ps"
    proof -
      have found: "(k, obj_get h qs k) \<in> set qs \<and> deepEqual h v (obj_get h qs k)" if "(k, v) \<in> set ps" for k v
      proof -
        have "deepEqual h v (obj_get h qs k)" using eq(2) that by (auto simp: list_all_iff)
        moreover from this have "obj_get h qs k \<noteq> JUndef"
          using deepEqual_undefined obj_get_plain(2) [OF JObj.prems(1) that] by metis
        ultimately show ?thesis
          using obj_get_defined obj_get_plain(3) [OF JObj.prems(1) that] by blast
      qed
      then have "fst ` set ps \<subseteq> fst ` set qs" by force
      then have keys: "fst ` set ps = fst ` set qs"
        using same_keys [OF eq(1)] JObj.prems(1,2) b by simp
      have "deepEqual h w (obj_get h ps k)" if kw: "(k, w) \<in> set qs" for k w
      proof -
        obtain v where kv: "(k, v) \<in> set ps" using keys kw by force
        have "obj_get h qs k = w" using obj_get_plain(1) [of h j qs] JObj.prems(2) b kw by simp
        then have "deepEqual h v w" using found [OF kv] by simp
        then show ?thesis
          using JObj.IH [of "(k, v)" v w] kv kw obj_get_plain [OF JObj.prems(1) kv]
            obj_get_plain(2) [of h j qs k w] JObj.prems(2) b by simp
      qed
      then show ?thesis using eq(1) by (auto simp: list_all_iff)
    qed
    then show ?thesis using JObj.prems(3) b by auto
  qed (use JObj.prems in auto)
next
  case (JNum x)
  then show ?case by (cases b) (auto simp: num_eq_sym)
qed auto

lemma looseEquality_sym_base:
  assumes "plain_value h a" "plain_value h b" and "\<forall>x. a \<noteq> JBool x" "\<forall>y. b \<noteq> JBool y"
  shows "looseEquality h a b = looseEquality h b a"
proof -
  have deep: "deepEqual h a b = deepEqual h b a" using assms deepEqual_sym by metis
  then show ?thesis
    using assms(3,4)
    unfolding looseEquality.simps [of h a b] looseEquality.simps [of h b a]
    by (cases a; cases b) (simp_all add: Let_def num_eq_sym eq_commute, blast+)
qed

lemma looseEquality_bool:
  assumes "\<not> is_nullish b" and "\<forall>y. b \<noteq> JBool y"
  shows "looseEquality h (JBool x) b = looseEquality h (bool_num x) b"
    and "looseEquality h b (JBool x) = looseEquality h b (bool_num x)"
  using assms
  unfolding looseEquality.simps [of h "JBool x" b] looseEquality.simps [of h b "JBool x"]
  by (cases b; simp)+

lemma looseEquality_sym:
  assumes "plain_value h a" "plain_value h b"
  shows "looseEquality h a b = looseEquality h b a"
proof -
  have bool: "looseEquality h (JBool x) b = looseEquality h b (JBool x)"
    if b: "plain_value h b" for x b
  proof (cases "is_nullish b \<or> (\<exists>y. b = JBool y)")
    case True
    then show ?thesis
      by (auto simp: looseEquality.simps [of h "JBool x"] looseEquality.simps [of h _ "JBool x"])
  next
    case False
    then show ?thesis
      using looseEquality_bool [of b h x] looseEquality_sym_base [of h "bool_num x" b] b
      by (simp add: bool_num_def)
  qed
  show ?thesis
  proof (cases "\<exists>x. a = JBool x")
    case True
    then show ?thesis using bool assms by blast
  next
    case a: False
    show ?thesis
    proof (cases "\<exists>y. b = JBool y")
      case True
      then show ?thesis using bool [OF assms(1)] by metis
    next
      case False
      then show ?thesis using looseEquality_sym_base assms a by blast
    qed
  qed
qed

lemma evalEquality_sym:
  "plain_value h a \<Longrightarrow> plain_value h b \<Longrightarrow> evalEquality h strict a b = evalEquality h strict b a"
  using deepEqual_sym [of h a b] deepEqual_sym [of h b a] looseEquality_sym [of h a b]
  by (auto simp: evalEquality_def strict_eq_sym)

definition started :: "host \<Rightarrow> props \<Rightarrow> eval_options \<Rightarrow> est \<Rightarrow> evaluator" where
  "started h ctx opts st = \<lparr>ev_host = h, ev_context = ctx,
      ev_strict = opt_or False (opt_strictComparison opts),
      ev_timeout = opt_or DEFAULT_TIMEOUT (opt_timeout opts),
      ev_maxDepth = opt_or DEFAULT_MAX_DEPTH (opt_maxDepth opts),
      ev_startTime = h_clock h (e_ticks st)\<rparr>"

lemma evaluateTemplate_compiled:
  "compile template = Inr tree \<Longrightarrow> evaluateTemplate h template ctx opts st
    = evaluate (started h ctx opts st) 0 tree (st\<lparr>e_ticks := Suc (e_ticks st)\<rparr>)"
  by (simp add: evaluateTemplate_def new_Evaluator_def started_def bindM_def liftE_def tickM_def retM_def)

lemma started_fields [simp]:
  "ev_host (started h ctx opts st) = h"
  "ev_maxDepth (started h ctx opts st) = opt_or DEFAULT_MAX_DEPTH (opt_maxDepth opts)"
  by (simp_all add: started_def)

lemma started_in_time:
  "\<forall>k. h_clock h k - h_clock h (e_ticks st) \<le> opt_or DEFAULT_TIMEOUT (opt_timeout opts)
    \<Longrightarrow> in_time (started h ctx opts st)"
  by (simp add: in_time_def started_def)

section \<open>Arguments that are indices\<close>

lemma num_of_nat_small: "int n \<le> 2 ^ 53 \<Longrightarrow> num_of_nat n = Fin (of_nat n)"
  by (simp add: num_of_int_small)

lemma clamp_index_of_nat: "clamp_index m (Fin (of_nat n)) = min m n"
proof -
  have "num_to_int (Fin (of_nat n)) = int n" by (simp add: num_to_int_def rat_trunc_def)
  then show ?thesis by (simp add: clamp_index_def min_def)
qed

section \<open>A host for the concrete instances\<close>

definition sample_host :: host where
  "sample_host = \<lparr>h_clock = (\<lambda>_. 0), h_random = (\<lambda>_. Fin 0), h_pow10 = (\<lambda>_. Fin 1), h_upper = id,
     h_lower = id, h_locale_compare = (\<lambda>_ _. 0), h_fun_source = id, h_object_proto = (\<lambda>_. None),
     h_array_proto = (\<lambda>_. None), h_code_unit = (\<lambda>_. []), h_max_string = 536870888,
     h_day_valid = (\<lambda>_. False), h_day_format = (\<lambda>_ _. []), h_day_iso = id,
     h_day_add = (\<lambda>_ _ _. None), h_day_sub = (\<lambda>_ _ _. None), h_day_diff = (\<lambda>_ _ _. Fin 0),
     h_day_now = (\<lambda>_. []), h_day_today = (\<lambda>_. [])\<rparr>"

definition sample_options :: eval_options where
  "sample_options = \<lparr>opt_strictComparison = None, opt_timeout = None, opt_maxDepth = None\<rparr>"

definition sample_evaluator :: evaluator where
  "sample_evaluator = \<lparr>ev_host = sample_host, ev_context = [(''x'', JNull)], ev_strict = False,
     ev_timeout = 100, ev_maxDepth = 100, ev_startTime = 0\<rparr>"

lemma sample_in_time: "in_time sample_evaluator"
  by (simp add: in_time_def sample_evaluator_def sample_host_def)

section \<open>Properties\<close>

text \<open>C23. The private short-circuit signal of optional chaining never leaves the engine: whatever
  the template, the context and the options, evaluation gives a value, an expression error or an
  error of the host.\<close>

theorem signal_never_escapes:
  "fst (evaluateTemplate h template ctx opts st) \<noteq> Inl ShortCircuit"
proof
  assume "fst (evaluateTemplate h template ctx opts st) = Inl ShortCircuit"
  then obtain st' where "evaluateTemplate h template ctx opts st = (Inl ShortCircuit, st')"
    by (metis fst_conv surj_pair)
  from evaluateTemplate_error [OF this] show False
    using compile_error by force
qed

text \<open>C24. \<open>validate\<close> accepts exactly the templates that no evaluation rejects with a syntax error,
  and the single error it reports otherwise is the one every evaluation raises.\<close>

theorem validate_correct:
  "(val_valid (validate template) \<longleftrightarrow>
      (\<forall>h ctx opts st e. fst (evaluateTemplate h template ctx opts st) = Inl e \<longrightarrow> \<not> is_syntax_error e))
   \<and> (\<not> val_valid (validate template) \<longrightarrow>
      (\<exists>e. val_errors (validate template) = [e] \<and> is_syntax_error e \<and>
        (\<forall>h ctx opts st. evaluateTemplate h template ctx opts st = (Inl e, st))))"
proof (cases "compile template")
  case (Inl e)
  then have "is_syntax_error e" by (rule compile_error)
  moreover have "evaluateTemplate h template ctx opts st = (Inl e, st)" for h ctx opts st
    using Inl by (simp add: evaluateTemplate_def liftE_def bindM_def)
  moreover have "is_expression_error e" using \<open>is_syntax_error e\<close> by (cases e) auto
  ultimately show ?thesis using Inl by (auto simp: validate_def)
next
  case (Inr tree)
  have "\<not> is_syntax_error e" if "fst (evaluateTemplate h template ctx opts st) = Inl e" for h ctx opts st e
    using that Inr evaluateTemplate_error [of h template ctx opts st e] runtime_not_syntax
    by (metis Inl_Inr_False prod.collapse)
  then show ?thesis using Inr by (auto simp: validate_def)
qed

theorem validate_correct_witness:
  "\<not> val_valid (validate ''{{ 1 +'')
   \<and> (\<exists>e. val_errors (validate ''{{ 1 +'') = [e] \<and> is_syntax_error e)"
proof -
  have "\<not> val_valid (validate ''{{ 1 +'')" by code_simp
  then show ?thesis using validate_correct [of "''{{ 1 +''"] by blast
qed



text \<open>C29. The two limits only stop evaluations that reach them: when the expression nests less
  deeply than the maximum depth and the clock stays within the time limit, no evaluation fails
  with a depth or timeout error.\<close>

theorem limits_exact:
  assumes "compile template = Inr tree"
    and "int (height tree) < opt_or DEFAULT_MAX_DEPTH (opt_maxDepth opts)"
    and "\<forall>k. h_clock h k - h_clock h (e_ticks st) \<le> opt_or DEFAULT_TIMEOUT (opt_timeout opts)"
    and "fst (evaluateTemplate h template ctx opts st) = Inl (ExpressionError code msg pos)"
  shows "code \<noteq> EXPR_DEPTH_EXCEEDED \<and> code \<noteq> EXPR_TIMEOUT"
proof -
  have "limits_contract no_limit_throw (started h ctx opts st) (nat (ev_maxDepth (started h ctx opts st)))"
    by (rule no_limit_contract [OF started_in_time [OF assms(3)]])
  moreover have "0 + height tree < nat (ev_maxDepth (started h ctx opts st))" using assms(2) by simp
  ultimately have r: "raises no_limit_throw (evaluate (started h ctx opts st) 0 tree)"
    using limits_contract.evaluate_raises compile_guarded [OF assms(1)] by blast
  obtain st' where "evaluate (started h ctx opts st) 0 tree (st\<lparr>e_ticks := Suc (e_ticks st)\<rparr>)
      = (Inl (ExpressionError code msg pos), st')"
    using assms(4) by (metis evaluateTemplate_compiled [OF assms(1)] prod.collapse)
  from raisesD [OF r this] show ?thesis by simp
qed

theorem limits_exact_witness:
  "\<exists>code msg. compile ''{{ -true }}'' = Inr (UnaryExpression OpNeg (BooleanLiteral True))
     \<and> fst (evaluateTemplate sample_host ''{{ -true }}'' [] sample_options \<lparr>e_ticks = 0, e_next = 0\<rparr>)
       = Inl (ExpressionError code msg None) \<and> code \<noteq> EXPR_DEPTH_EXCEEDED \<and> code \<noteq> EXPR_TIMEOUT"
proof -
  have c: "compile ''{{ -true }}'' = Inr (UnaryExpression OpNeg (BooleanLiteral True))" by code_simp
  have e: "fst (evaluateTemplate sample_host ''{{ -true }}'' [] sample_options \<lparr>e_ticks = 0, e_next = 0\<rparr>)
      = Inl (ExpressionError EXPR_TYPE_ERROR ''Cannot negate boolean'' None)"
    by (simp add: evaluateTemplate_compiled [OF c] evaluate_def entering_def checkLimits_def
          started_def sample_host_def sample_options_def DEFAULT_MAX_DEPTH_def DEFAULT_TIMEOUT_def)
       (simp add: evaluateUnaryExpression_def monad_defs TypeErr_def)
  show ?thesis
    using c e limits_exact [OF c _ _ e]
    by (simp add: sample_options_def sample_host_def DEFAULT_TIMEOUT_def DEFAULT_MAX_DEPTH_def)
qed

text \<open>C28. A chain of property accesses denotes nested lookups: the first optional step from a
  nullish value ends the whole chain with \<open>null\<close>, the first other step from one is a reference
  error, and a missing property reads as \<open>null\<close>.\<close>

theorem member_chain_semantics:
  assumes "in_time E" and "evaluateIdentifier E x = Inr v"
    and "int (d + length steps) < ev_maxDepth E"
  shows "fst (evaluateNode (ChainExpression (member_tree x steps)) E d st) = read_path (ev_host E) v steps"
  using member_tree_raw [OF assms(1,2), of "Suc d" steps] assms(3)
  by (simp add: chain_result entering_within [OF assms(1)] read_path_raw)

theorem member_chain_semantics_witness:
  "fst (evaluateNode (ChainExpression (member_tree ''x'' [(''a'', True), (''b'', False)]))
     sample_evaluator 0 \<lparr>e_ticks = 0, e_next = 0\<rparr>) = Inr JNull"
proof -
  have "evaluateIdentifier sample_evaluator ''x'' = Inr JNull" 
    by (simp add: evaluateIdentifier_def hasFunction_iff registry_tables function_tables
        starts_with_def sample_evaluator_def sample_host_def obj_in_def obj_get_def)
  from member_chain_semantics [OF sample_in_time this, of 0 "[(''a'', True), (''b'', False)]"]
  show ?thesis by (simp add: sample_evaluator_def)
qed

text \<open>C34. Both comparison modes are symmetric on the values that JSON can express, as long as no object has a key
  that every object inherits (such as \<open>toString\<close> or \<open>__proto__\<close>).\<close>

theorem equality_symmetric:
  assumes "plain_value h a" and "plain_value h b"
  shows "evalEquality h strict a b = evalEquality h strict b a"
  using evalEquality_sym [OF assms] .

theorem equality_symmetric_witness:
  "evalEquality sample_host False (JStr ''1'') (JNum (Fin 1))
   = evalEquality sample_host False (JNum (Fin 1)) (JStr ''1'')"
  by (rule equality_symmetric) simp_all

text \<open>With an \<open>undefined\<close> property the comparison depends on the order of its operands: a key
  that only the left object has is looked up in the right one, where its absence reads as the
  same \<open>undefined\<close>.\<close>

theorem equality_asymmetric:
  "evalEquality sample_host strict (JObj 0 [(''a'', JUndef)]) (JObj 1 [(''b'', JNum (Fin 1))])
   \<and> \<not> evalEquality sample_host strict (JObj 1 [(''b'', JNum (Fin 1))]) (JObj 0 [(''a'', JUndef)])"
  using looseEquality.simps [of sample_host "JObj 0 [(''a'', JUndef)]"]
    looseEquality.simps [of sample_host "JObj 1 [(''b'', JNum (Fin 1))]"]
  by (simp add: evalEquality_def obj_get_def sample_host_def)

text \<open>\<open>substring\<close> accepts \<open>null\<close> for its optional end, but then returns the text before the
  start index; without the argument it returns the text from the start index on.\<close>

theorem substring_null_end:
  assumes "length s \<le> 2 ^ 53" and "n \<le> length s"
  shows "fn_substring [JStr s, JNum (num_of_nat n)] st = (Inr (JStr (drop n s)), st)
    \<and> fn_substring [JStr s, JNum (num_of_nat n), JNull] st = (Inr (JStr (take n s)), st)"
proof -
  have small: "int m \<le> 2 ^ 53" if "m \<le> 2 ^ 53" for m :: nat
    using that of_nat_le_iff [of m "2 ^ 53", where 'a = int] by simp
  have n: "num_of_nat (length s) = Fin (of_nat (length s))" "num_of_nat n = Fin (of_nat n)"
    using num_of_nat_small [OF small] assms by (simp_all del: power_numeral)
  have zero: "clamp_index (length s) (Fin 0) = 0" using clamp_index_of_nat [of _ 0] by simp
  show ?thesis
    using assms(2)
    by (simp add: fn_substring_def arg_def n clamp_index_of_nat zero slice_def Let_def) (simp add: retM_def)
qed

theorem substring_null_end_witness:
  "fn_substring [JStr ''abcd'', JNum (num_of_nat 3), JNull] \<lparr>e_ticks = 0, e_next = 0\<rparr>
    = (Inr (JStr ''abc''), \<lparr>e_ticks = 0, e_next = 0\<rparr>)"
  using substring_null_end [of "''abcd''" 3 "\<lparr>e_ticks = 0, e_next = 0\<rparr>"] by simp

end
