(* ===== verification/Graph.thy ===== *)
theory Graph
  imports JsValue
begin

text \<open>
  Workflow nodes and edges (the columns of \<open>node.entity.ts\<close> and \<open>edge.entity.ts\<close> that the modelled
  code reads), the top-level graph built from them (\<open>graph-builder.ts\<close>), and adjacency lists.
\<close>

section \<open>Entities\<close>

datatype NodeCategory = TRIGGER | LOGIC | FLOW | AI | INTEGRATION | DATA | PRESENTATION

record node =
  node_id :: string
  node_type :: string
  node_category :: NodeCategory
  node_label :: string
  node_config :: props
  node_isDisabled :: bool
  node_containerId :: "string option"
  node_toolOwnerId :: "string option"

record graph_node =
  gn_id :: string

record graph_edge =
  sourceNodeId :: string
  sourcePort :: string
  targetNodeId :: string
  targetPort :: string

section \<open>buildGraph\<close>

definition is_top_level :: "node \<Rightarrow> bool" where
  "is_top_level n = (node_containerId n = None \<and> node_toolOwnerId n = None)"

definition buildGraph :: "node list \<Rightarrow> graph_edge list \<Rightarrow> graph_node list \<times> graph_edge list" where
  "buildGraph nodes edges =
     (let topLevelNodes = filter is_top_level nodes;
          topLevelNodeIds = jset_of (map node_id topLevelNodes)
      in (map (\<lambda>n. \<lparr>gn_id = node_id n\<rparr>) topLevelNodes,
          filter (\<lambda>e. sourceNodeId e \<in> set topLevelNodeIds \<and> targetNodeId e \<in> set topLevelNodeIds) edges))"

section \<open>Adjacency lists\<close>

text \<open>
  The loop that the graph functions share: an empty list for every node, then every edge between
  two known nodes is appended to the list of its source.
\<close>

definition empty_lists :: "'k list \<Rightarrow> ('k, 'a list) jmap" where
  "empty_lists ids = fold (\<lambda>id. jput id []) ids []"

definition append_to :: "'k \<Rightarrow> 'a \<Rightarrow> ('k, 'a list) jmap \<Rightarrow> ('k, 'a list) jmap" where
  "append_to k x m = jput k (jget_or [] m k @ [x]) m"

definition build_adjacency ::
    "'k list \<Rightarrow> ('e \<Rightarrow> 'k) \<Rightarrow> ('e \<Rightarrow> 'k) \<Rightarrow> ('e \<Rightarrow> 'a) \<Rightarrow> 'e list \<Rightarrow> ('k, 'a list) jmap" where
  "build_adjacency ids src tgt val edges =
     fold (\<lambda>e m. if src e \<notin> set ids \<or> tgt e \<notin> set ids then m else append_to (src e) (val e) m)
       edges (empty_lists ids)"

text \<open>Edges between known nodes, as a relation.\<close>

definition edge_rel :: "'k list \<Rightarrow> ('e \<Rightarrow> 'k) \<Rightarrow> ('e \<Rightarrow> 'k) \<Rightarrow> 'e list \<Rightarrow> ('k \<times> 'k) set" where
  "edge_rel ids src tgt edges = {(src e, tgt e) | e. e \<in> set edges \<and> src e \<in> set ids \<and> tgt e \<in> set ids}"

abbreviation graph_rel :: "graph_node list \<Rightarrow> graph_edge list \<Rightarrow> (string \<times> string) set" where
  "graph_rel nodes edges \<equiv> edge_rel (map gn_id nodes) sourceNodeId targetNodeId edges"

lemma jget_or_empty_lists [simp]: "jget_or [] (empty_lists ids) v = []"
proof -
  have "jget_or [] (fold (\<lambda>id. jput id []) ids m) v = []" if "jget_or [] m v = []" for m
    using that by (induction ids arbitrary: m) auto
  from this [of "[]"] show ?thesis by (simp add: empty_lists_def)
qed

lemma jget_or_append_to [simp]:
  "jget_or [] (append_to k x m) v = (if v = k then jget_or [] m v @ [x] else jget_or [] m v)"
  by (simp add: append_to_def)

lemma adjacency_list:
  "jget_or [] (build_adjacency ids src tgt val edges) v
    = map val (filter (\<lambda>e. src e = v \<and> src e \<in> set ids \<and> tgt e \<in> set ids) edges)"
proof -
  have "jget_or [] (fold (\<lambda>e m. if src e \<notin> set ids \<or> tgt e \<notin> set ids then m
          else append_to (src e) (val e) m) edges m) v
      = jget_or [] m v @ map val (filter (\<lambda>e. src e = v \<and> src e \<in> set ids \<and> tgt e \<in> set ids) edges)" for m
    by (induction edges arbitrary: m) auto
  then show ?thesis by (simp add: build_adjacency_def)
qed

lemma edge_rel_cong: "set ids = set ids' \<Longrightarrow> edge_rel ids src tgt edges = edge_rel ids' src tgt edges"
  by (simp add: edge_rel_def)

lemma edge_rel_mono: "set edges \<subseteq> set edges' \<Longrightarrow> edge_rel ids src tgt edges \<subseteq> edge_rel ids src tgt edges'"
  by (auto simp: edge_rel_def)

lemma edge_rel_adjacency:
  "edge_rel ids src tgt edges
    = {(v, w) | v w. v \<in> set ids \<and> w \<in> set (jget_or [] (build_adjacency ids src tgt tgt edges) v)}"
  by (auto simp: edge_rel_def adjacency_list)

lemma adjacency_in_rel:
  "w \<in> set (jget_or [] (build_adjacency ids src tgt tgt edges) v) \<Longrightarrow> (v, w) \<in> edge_rel ids src tgt edges"
  by (auto simp: edge_rel_def adjacency_list)

lemma adjacency_closed:
  "e \<in> set (jget_or [] (build_adjacency ids src tgt val edges) v) \<Longrightarrow>
    \<exists>d \<in> set edges. e = val d \<and> src d = v \<and> src d \<in> set ids \<and> tgt d \<in> set ids"
  by (auto simp: adjacency_list)

lemma edge_rel_jset_of [simp]: "edge_rel (jset_of ids) src tgt edges = edge_rel ids src tgt edges"
  by (simp add: edge_rel_def)

text \<open>Every edge of the built graph joins two of its nodes.\<close>

lemma buildGraph_closed:
  "buildGraph nodes edges = (gns, ges) \<Longrightarrow>
    \<forall>e \<in> set ges. sourceNodeId e \<in> gn_id ` set gns \<and> targetNodeId e \<in> gn_id ` set gns"
  by (auto simp: buildGraph_def Let_def image_image)

end
