(* ===== verification/Traversal.thy ===== *)
theory Traversal
  imports Graph
begin

text \<open>
  Reading the graph while a workflow runs: the edge indexes, the initial seeds, port filtering and
  propagation of \<open>graph-traversal.service.ts\<close>, and the branch membership of a Parallel node
  (\<open>parallel-branch-membership.ts\<close>). The breadth-first search that two packages share is \<open>bfs\<close>; its
  result is the set of nodes reachable from the entries (\<open>bfs_reachable\<close>).
\<close>

section \<open>Breadth-first search\<close>

text \<open>The queue from its head on, and the visited nodes in order of their visit.\<close>

definition adj_targets :: "('v, 'v list) jmap \<Rightarrow> 'v set" where
  "adj_targets adj = \<Union> (set ` snd ` set adj)"

lemma finite_adj_targets [simp]: "finite (adj_targets adj)"
  by (simp add: adj_targets_def)

lemma jget_or_targets: "set (jget_or [] adj v) \<subseteq> adj_targets adj"
proof (cases "map_of adj v")
  case (Some xs)
  then have "(v, xs) \<in> set adj" by (rule map_of_SomeD)
  then show ?thesis using Some by (force simp: jget_or_def adj_targets_def)
qed (simp add: jget_or_def)

function bfs :: "('v, 'v list) jmap \<Rightarrow> 'v list \<Rightarrow> 'v list \<Rightarrow> 'v list" where
  "bfs adj [] reach = reach"
| "bfs adj (n # queue) reach =
     (if n \<in> set reach then bfs adj queue reach
      else let reach' = reach @ [n]
           in bfs adj (queue @ filter (\<lambda>t. t \<notin> set reach') (jget_or [] adj n)) reach')"
  by pat_completeness auto
termination
proof (relation "measures [\<lambda>(adj, queue, reach). card ((adj_targets adj \<union> set queue) - set reach),
    \<lambda>(adj, queue, reach). length queue]", goal_cases)
  case 1
  show ?case by simp
next
  case (2 adj n queue reach)
  then have "(adj_targets adj \<union> set (n # queue)) - set reach = (adj_targets adj \<union> set queue) - set reach"
    by auto
  then show ?case by simp
next
  case (3 adj n queue reach reach')
  let ?new = "filter (\<lambda>t. t \<notin> set reach') (jget_or [] adj n)"
  have "(adj_targets adj \<union> set (queue @ ?new)) - set reach'
      \<subset> (adj_targets adj \<union> set (n # queue)) - set reach"
    using 3 jget_or_targets [of adj n] by auto
  then have "card ((adj_targets adj \<union> set (queue @ ?new)) - set reach')
      < card ((adj_targets adj \<union> set (n # queue)) - set reach)"
    by (intro psubset_card_mono) auto
  then show ?case by simp
qed

declare bfs.simps(2) [simp del]

definition adj_rel :: "('v, 'v list) jmap \<Rightarrow> ('v \<times> 'v) set" where
  "adj_rel adj = {(v, w). w \<in> set (jget_or [] adj v)}"

lemma bfs_distinct: "distinct reach \<Longrightarrow> distinct (bfs adj queue reach)"
proof (induction adj queue reach rule: bfs.induct)
  case (2 adj n queue reach)
  then show ?case by (auto simp: bfs.simps(2) [of adj n] Let_def)
qed simp

lemma bfs_contains: "set queue \<union> set reach \<subseteq> set (bfs adj queue reach)"
proof (induction adj queue reach rule: bfs.induct)
  case (2 adj n queue reach)
  then show ?case by (auto simp: bfs.simps(2) [of adj n] Let_def)
qed simp

lemma bfs_sound: "set (bfs adj queue reach) \<subseteq> set reach \<union> (adj_rel adj)\<^sup>* `` set queue"
proof (induction adj queue reach rule: bfs.induct)
  case (2 adj n queue reach)
  show ?case
  proof (cases "n \<in> set reach")
    case True
    then show ?thesis using 2(1) by (auto simp: bfs.simps(2) [of adj n])
  next
    case False
    have "(adj_rel adj)\<^sup>* `` set (jget_or [] adj n) \<subseteq> (adj_rel adj)\<^sup>* `` {n}"
      by (auto simp: adj_rel_def intro: converse_rtrancl_into_rtrancl)
    then show ?thesis using 2(2) [OF False refl] False by (fastforce simp: bfs.simps(2) [of adj n] Let_def)
  qed
qed simp

lemma bfs_closed:
  assumes "\<forall>v \<in> set reach. set (jget_or [] adj v) \<subseteq> set reach \<union> set queue"
  shows "\<forall>v \<in> set (bfs adj queue reach). set (jget_or [] adj v) \<subseteq> set (bfs adj queue reach)"
  using assms
proof (induction adj queue reach rule: bfs.induct)
  case (2 adj n queue reach)
  show ?case
  proof (cases "n \<in> set reach")
    case True
    then have "\<forall>v \<in> set reach. set (jget_or [] adj v) \<subseteq> set reach \<union> set queue"
      using 2(3) by auto
    from 2(1) [OF True this] show ?thesis using True by (simp add: bfs.simps(2) [of adj n])
  next
    case False
    have "\<forall>v \<in> set (reach @ [n]). set (jget_or [] adj v) \<subseteq> set (reach @ [n])
        \<union> set (queue @ filter (\<lambda>t. t \<notin> set (reach @ [n])) (jget_or [] adj n))"
      using 2(3) by auto
    from 2(2) [OF False refl this] show ?thesis using False by (simp add: bfs.simps(2) [of adj n] Let_def)
  qed
qed simp

theorem bfs_reachable: "set (bfs adj entries []) = (adj_rel adj)\<^sup>* `` set entries"
proof
  show "set (bfs adj entries []) \<subseteq> (adj_rel adj)\<^sup>* `` set entries"
    using bfs_sound [of adj entries "[]"] by simp
  have closed: "\<forall>v \<in> set (bfs adj entries []). set (jget_or [] adj v) \<subseteq> set (bfs adj entries [])"
    by (rule bfs_closed) simp
  show "(adj_rel adj)\<^sup>* `` set entries \<subseteq> set (bfs adj entries [])"
  proof
    fix w assume "w \<in> (adj_rel adj)\<^sup>* `` set entries"
    then obtain v where "(v, w) \<in> (adj_rel adj)\<^sup>*" "v \<in> set entries" by blast
    then show "w \<in> set (bfs adj entries [])"
      using bfs_contains [of entries "[]" adj] closed
      by (induction rule: rtrancl_induct) (auto simp: adj_rel_def)
  qed
qed

section \<open>Edge indexes\<close>

text \<open>A list under every key that occurs, in the order of the input.\<close>

definition group_edges :: "('e \<Rightarrow> 'k) \<Rightarrow> ('e \<Rightarrow> 'a) \<Rightarrow> 'e list \<Rightarrow> ('k, 'a list) jmap" where
  "group_edges key val edges = fold (\<lambda>e. append_to (key e) (val e)) edges []"

lemma jget_or_group_edges [simp]:
  "jget_or [] (group_edges key val edges) k = map val (filter (\<lambda>e. key e = k) edges)"
proof -
  have "jget_or [] (fold (\<lambda>e. append_to (key e) (val e)) edges m) k
      = jget_or [] m k @ map val (filter (\<lambda>e. key e = k) edges)" for m
    by (induction edges arbitrary: m) auto
  from this [of "[]"] show ?thesis by (simp add: group_edges_def)
qed

record edge_indexes =
  backEdgeMap :: "(string, (graph_edge \<times> nat) list) jmap"
  outgoingEdgeMap :: "(string, graph_edge list) jmap"
  incomingEdgeMap :: "(string, graph_edge list) jmap"

text \<open>A back edge whose target has no index is skipped.\<close>

definition buildEdgeIndexes ::
    "graph_edge list \<Rightarrow> graph_edge list \<Rightarrow> (string, nat) jmap \<Rightarrow> edge_indexes" where
  "buildEdgeIndexes graphEdges backEdges sortedIndexMap =
     \<lparr>backEdgeMap = fold (\<lambda>e m. case map_of sortedIndexMap (targetNodeId e) of
          None \<Rightarrow> m | Some i \<Rightarrow> append_to (sourceNodeId e) (e, i) m) backEdges [],
      outgoingEdgeMap = group_edges sourceNodeId id graphEdges,
      incomingEdgeMap = group_edges targetNodeId id graphEdges\<rparr>"

lemma backEdgeMap_list:
  "jget_or [] (backEdgeMap (buildEdgeIndexes graphEdges backEdges idx)) v
    = [(e, i). e \<leftarrow> backEdges, sourceNodeId e = v, i \<leftarrow> (case map_of idx (targetNodeId e) of None \<Rightarrow> [] | Some i \<Rightarrow> [i])]"
proof -
  have "jget_or [] (fold (\<lambda>e m. case map_of idx (targetNodeId e) of
          None \<Rightarrow> m | Some i \<Rightarrow> append_to (sourceNodeId e) (e, i) m) es m) v
    = jget_or [] m v @ [(e, i). e \<leftarrow> es, sourceNodeId e = v, i \<leftarrow> (case map_of idx (targetNodeId e) of None \<Rightarrow> [] | Some i \<Rightarrow> [i])]"
    for es m
    by (induction es arbitrary: m) (auto split: option.splits)
  from this [of backEdges "[]"] show ?thesis by (simp add: buildEdgeIndexes_def)
qed

section \<open>Seeds, ports and propagation\<close>

definition seedInitialReachability ::
    "string list \<Rightarrow> (string, node) jmap \<Rightarrow> graph_edge list \<Rightarrow> string list option \<Rightarrow> string list" where
  "seedInitialReachability sortedNodeIds nodeMap forwardEdges explicitEntryIds =
     (case explicitEntryIds of
        Some (e # es) \<Rightarrow> jset_of (filter (jhas nodeMap) (e # es))
      | _ \<Rightarrow>
          (let triggers = jset_of (filter (\<lambda>id. case map_of nodeMap id of
                   Some n \<Rightarrow> node_category n = TRIGGER | None \<Rightarrow> False) sortedNodeIds)
           in if triggers = [] then
                (let nodesWithIncoming = jset_of (map targetNodeId forwardEdges)
                 in jset_of (filter (\<lambda>id. id \<notin> set nodesWithIncoming) sortedNodeIds))
              else triggers))"

definition js_in :: "host \<Rightarrow> string \<Rightarrow> jsval \<Rightarrow> bool" where
  "js_in h k v = (case v of
     JObj _ ps \<Rightarrow> obj_in h ps k
   | JArr _ vs \<Rightarrow> k = ''length'' \<or> (case array_index k of
       Some i \<Rightarrow> i < length vs | None \<Rightarrow> h_array_proto h k \<noteq> None)
   | _ \<Rightarrow> False)"

definition js_get :: "host \<Rightarrow> string \<Rightarrow> jsval \<Rightarrow> jsval" where
  "js_get h k v = (case v of
     JObj _ ps \<Rightarrow> obj_get h ps k
   | JArr _ vs \<Rightarrow> arr_get h vs k
   | _ \<Rightarrow> JUndef)"

definition isPortFiltered :: "host \<Rightarrow> jsval \<Rightarrow> string \<Rightarrow> bool" where
  "isPortFiltered h sourceOutput edgeSourcePort =
     (if is_object sourceOutput \<and> js_in h ''_selectedPort'' sourceOutput then
        (case js_get h ''_selectedPort'' sourceOutput of
           JArr _ ports \<Rightarrow>
             ports \<noteq> [] \<and> \<not> list_ex (same_value_zero (JStr edgeSourcePort)) ports
         | selectedPort \<Rightarrow> \<not> strict_eq (JStr edgeSourcePort) selectedPort)
      else False)"

definition propagateReachability ::
    "host \<Rightarrow> string \<Rightarrow> (string, graph_edge list) jmap \<Rightarrow> (string, jsval) jmap \<Rightarrow> string list \<Rightarrow> string list" where
  "propagateReachability h nodeId outgoing nodeOutputCache reachable =
     (let sourceOutput = jget_or JUndef nodeOutputCache nodeId
      in fold (\<lambda>e r. if isPortFiltered h sourceOutput (sourcePort e) then r else jadd (targetNodeId e) r)
           (jget_or [] outgoing nodeId) reachable)"

lemma set_propagateReachability:
  "set (propagateReachability h v outgoing cache reachable) =
     set reachable \<union> {targetNodeId e | e. e \<in> set (jget_or [] outgoing v)
        \<and> \<not> isPortFiltered h (jget_or JUndef cache v) (sourcePort e)}"
proof -
  have "set (fold (\<lambda>e r. if isPortFiltered h out (sourcePort e) then r else jadd (targetNodeId e) r) es r)
      = set r \<union> {targetNodeId e | e. e \<in> set es \<and> \<not> isPortFiltered h out (sourcePort e)}" for es r out
    by (induction es arbitrary: r) auto
  then show ?thesis by (simp add: propagateReachability_def)
qed

section \<open>Parallel branches\<close>

text \<open>\<open>/^branch_(\d+)$/\<close>: the number of the branch.\<close>

definition branch_number :: "string \<Rightarrow> nat option" where
  "branch_number port =
     (let digits = drop 7 port
      in if take 7 port = ''branch_'' \<and> digits \<noteq> [] \<and> (\<forall>c \<in> set digits. is_digit c)
         then Some (read_nat digits) else None)"

record membership =
  forwardAdj :: "(string, graph_edge list) jmap"
  branchEntries :: "string list list"
  bodyNodeIdsPerBranch :: "string list list"
  joinNodeIds :: "string list"
  allBodyNodeIds :: "string list"

definition branch_entries :: "nat \<Rightarrow> graph_edge list \<Rightarrow> string list list" where
  "branch_entries branchCount edges =
     fold (\<lambda>e entries. case branch_number (sourcePort e) of
         None \<Rightarrow> entries
       | Some idx \<Rightarrow>
           (if idx < branchCount then entries[idx := jadd (targetNodeId e) (entries ! idx)] else entries))
       edges (replicate branchCount [])"

definition count_ids :: "string list \<Rightarrow> (string, nat) jmap \<Rightarrow> (string, nat) jmap" where
  "count_ids reach m = fold (\<lambda>id m. jput id (jget_or 0 m id + 1) m) reach m"

definition owner_counts :: "string list list \<Rightarrow> (string, nat) jmap" where
  "owner_counts reachPerBranch = fold count_ids reachPerBranch []"

definition collectParallelBranchMembership :: "string \<Rightarrow> graph_edge list \<Rightarrow> nat \<Rightarrow> membership" where
  "collectParallelBranchMembership parallelNodeId forwardEdges branchCount =
     (let adj = group_edges sourceNodeId id forwardEdges;
          entries = branch_entries branchCount (jget_or [] adj parallelNodeId);
          targets = group_edges sourceNodeId targetNodeId forwardEdges;
          reachPerBranch = map (\<lambda>es. bfs targets es []) entries;
          ownerCount = owner_counts reachPerBranch;
          joins = map fst (filter (\<lambda>kv. 1 < snd kv) ownerCount);
          bodies = map fst (filter (\<lambda>kv. \<not> 1 < snd kv) ownerCount)
      in \<lparr>forwardAdj = adj, branchEntries = entries,
          bodyNodeIdsPerBranch = map (filter (\<lambda>id. id \<in> set bodies)) reachPerBranch,
          joinNodeIds = joins, allBodyNodeIds = bodies\<rparr>)"

lemma length_branch_entries [simp]: "length (branch_entries n edges) = n"
proof -
  have "length (fold (\<lambda>e entries. case branch_number (sourcePort e) of
         None \<Rightarrow> entries
       | Some idx \<Rightarrow>
           (if idx < n then entries[idx := jadd (targetNodeId e) (entries ! idx)] else entries)) es acc)
      = length acc" for es and acc :: "string list list"
    by (induction es arbitrary: acc) (auto split: option.splits)
  from this [of edges "replicate n []"] show ?thesis by (simp add: branch_entries_def)
qed

lemma set_branch_entries:
  assumes "i < n"
  shows "set (branch_entries n edges ! i)
    = {targetNodeId e | e. e \<in> set edges \<and> branch_number (sourcePort e) = Some i}"
proof -
  have "set (fold (\<lambda>e entries. case branch_number (sourcePort e) of
         None \<Rightarrow> entries
       | Some idx \<Rightarrow>
           (if idx < n then entries[idx := jadd (targetNodeId e) (entries ! idx)] else entries)) es acc ! i)
      = set (acc ! i) \<union> {targetNodeId e | e. e \<in> set es \<and> branch_number (sourcePort e) = Some i}"
    if "length acc = n" for es and acc :: "string list list"
    using that
  proof (induction es arbitrary: acc)
    case (Cons e es)
    show ?case
    proof (cases "branch_number (sourcePort e)")
      case None
      then show ?thesis using Cons by auto
    next
      case (Some idx)
      let ?acc = "if idx < n then acc[idx := jadd (targetNodeId e) (acc ! idx)] else acc"
      have "length ?acc = n" using Cons.prems by simp
      from Cons.IH [OF this] show ?thesis
        using Some assms Cons.prems by (cases "idx = i") (auto simp: nth_list_update)
    qed
  qed simp
  from this [of "replicate n []" edges] show ?thesis using assms by (simp add: branch_entries_def)
qed

definition owners :: "'a list list \<Rightarrow> 'a \<Rightarrow> nat" where
  "owners rs n = length (filter (\<lambda>r. n \<in> set r) rs)"

lemma owner_counts_get:
  assumes "\<forall>r \<in> set rs. distinct r"
  shows "jget_or 0 (owner_counts rs) n = owners rs n"
    and "distinct (jkeys (owner_counts rs))"
    and "n \<in> set (jkeys (owner_counts rs)) \<longleftrightarrow> 0 < owners rs n"
proof -
  have get: "jget_or 0 (count_ids r m) n = (if n \<in> set r then jget_or 0 m n + 1 else jget_or 0 m n)"
    if "distinct r" for r m n
    using that by (induction r arbitrary: m) (auto simp: count_ids_def)
  have keys: "set (jkeys (count_ids r m)) = set r \<union> set (jkeys m)" for r m
    by (induction r arbitrary: m) (auto simp: count_ids_def)
  have dist: "distinct (jkeys (count_ids r m)) = distinct (jkeys m)" for r m
    by (induction r arbitrary: m) (auto simp: count_ids_def)
  have "jget_or 0 (fold count_ids rs m) n = jget_or 0 m n + owners rs n" for m
    using assms by (induction rs arbitrary: m) (auto simp: get owners_def)
  from this [of "[]"] show "jget_or 0 (owner_counts rs) n = owners rs n" by (simp add: owner_counts_def)
  have "distinct (jkeys (fold count_ids rs m)) = distinct (jkeys m)" for m
    by (induction rs arbitrary: m) (auto simp: dist)
  from this [of "[]"] show "distinct (jkeys (owner_counts rs))" by (simp add: owner_counts_def)
  have "n \<in> set (jkeys (fold count_ids rs m)) \<longleftrightarrow> n \<in> set (jkeys m) \<or> 0 < owners rs n" for m
    by (induction rs arbitrary: m) (auto simp: keys owners_def)
  from this [of "[]"] show "n \<in> set (jkeys (owner_counts rs)) \<longleftrightarrow> 0 < owners rs n"
    by (simp add: owner_counts_def)
qed

lemma owner_filter:
  assumes "\<forall>r \<in> set rs. distinct r"
  shows "set (map fst (filter (\<lambda>kv. P (snd kv)) (owner_counts rs)))
    = {n. 0 < owners rs n \<and> P (owners rs n)}"
proof -
  let ?m = "owner_counts rs"
  have "(n, k) \<in> set ?m \<longleftrightarrow> 0 < owners rs n \<and> k = owners rs n" for n k
  proof -
    have "(n, k) \<in> set ?m \<longleftrightarrow> map_of ?m n = Some k"
      using owner_counts_get(2) [OF assms] by (simp add: jkeys_def map_of_eq_Some_iff)
    also have "\<dots> \<longleftrightarrow> n \<in> set (jkeys ?m) \<and> k = jget_or 0 ?m n"
      by (cases "map_of ?m n") (auto simp: jget_or_def jkeys_def map_of_eq_None_iff dest: map_of_SomeD
          intro: rev_image_eqI)
    finally show ?thesis
      using owner_counts_get(1) [OF assms, of n] owner_counts_get(3) [OF assms, of n] by simp
  qed
  then show ?thesis by force
qed

lemma owners_pos: "0 < owners rs n \<longleftrightarrow> (\<exists>i < length rs. n \<in> set (rs ! i))"
proof -
  have "0 < owners rs n \<longleftrightarrow> (\<exists>r \<in> set rs. n \<in> set r)"
    by (auto simp: owners_def filter_empty_conv)
  then show ?thesis by (metis in_set_conv_nth)
qed

lemma owners_many: "1 < owners rs n \<longleftrightarrow> (\<exists>i j. i < j \<and> j < length rs \<and> n \<in> set (rs ! i) \<and> n \<in> set (rs ! j))"
proof (induction rs)
  case (Cons r rs)
  have "1 < owners (r # rs) n \<longleftrightarrow> (n \<in> set r \<and> 0 < owners rs n) \<or> 1 < owners rs n"
    by (auto simp: owners_def)
  also have "\<dots> \<longleftrightarrow> (\<exists>i j. i < j \<and> j < length (r # rs) \<and> n \<in> set ((r # rs) ! i) \<and> n \<in> set ((r # rs) ! j))"
    (is "?l \<longleftrightarrow> ?r")
  proof
    assume ?l
    then show ?r
    proof
      assume "n \<in> set r \<and> 0 < owners rs n"
      then obtain j where "j < length rs" "n \<in> set (rs ! j)" "n \<in> set r" by (auto simp: owners_pos)
      then show ?r by (intro exI [of _ 0] exI [of _ "Suc j"]) auto
    next
      assume "1 < owners rs n"
      then obtain i j where "i < j" "j < length rs" "n \<in> set (rs ! i)" "n \<in> set (rs ! j)"
        using Cons by auto
      then show ?r by (intro exI [of _ "Suc i"] exI [of _ "Suc j"]) auto
    qed
  next
    assume ?r
    then obtain i j where ij: "i < j" "j < length (r # rs)" "n \<in> set ((r # rs) ! i)" "n \<in> set ((r # rs) ! j)"
      by blast
    then obtain j' where j': "j = Suc j'" by (cases j) auto
    show ?l
    proof (cases i)
      case 0
      then show ?thesis using ij j' by (auto simp: owners_pos)
    next
      case (Suc i')
      then show ?thesis using ij j' Cons by auto
    qed
  qed
  finally show ?case .
qed (simp add: owners_def)

lemma owners_only:
  assumes "i < length rs" and "n \<in> set (rs ! i)"
  shows "\<not> 1 < owners rs n \<longleftrightarrow> (\<forall>j < length rs. j \<noteq> i \<longrightarrow> n \<notin> set (rs ! j))"
  unfolding owners_many using assms by (metis less_trans nat_neq_iff)

text \<open>What a branch reaches: everything forward of its entries.\<close>

definition forward_rel :: "graph_edge list \<Rightarrow> (string \<times> string) set" where
  "forward_rel edges = {(sourceNodeId e, targetNodeId e) | e. e \<in> set edges}"

definition branch_reach :: "string \<Rightarrow> graph_edge list \<Rightarrow> nat \<Rightarrow> string set" where
  "branch_reach p edges i = (forward_rel edges)\<^sup>* ``
     {targetNodeId e | e. e \<in> set edges \<and> sourceNodeId e = p \<and> branch_number (sourcePort e) = Some i}"

lemma membership_facts:
  fixes p edges n
  defines "m \<equiv> collectParallelBranchMembership p edges n"
  shows "length (bodyNodeIdsPerBranch m) = n"
    and "i < n \<Longrightarrow> set (bodyNodeIdsPerBranch m ! i)
      = {v \<in> branch_reach p edges i. \<forall>j < n. j \<noteq> i \<longrightarrow> v \<notin> branch_reach p edges j}"
    and "set (joinNodeIds m) = {v. \<exists>i j. i < j \<and> j < n \<and> v \<in> branch_reach p edges i \<inter> branch_reach p edges j}"
    and "set (allBodyNodeIds m) = (\<Union>i < n. set (bodyNodeIdsPerBranch m ! i))"
proof -
  define entries where "entries = branch_entries n (filter (\<lambda>e. sourceNodeId e = p) edges)"
  define rs where "rs = map (\<lambda>es. bfs (group_edges sourceNodeId targetNodeId edges) es []) entries"
  have len: "length rs = n" by (simp add: rs_def entries_def)
  have rel: "adj_rel (group_edges sourceNodeId targetNodeId edges) = forward_rel edges"
    by (auto simp: adj_rel_def forward_rel_def)
  have rs: "set (rs ! i) = branch_reach p edges i" if "i < n" for i
  proof -
    have "set (rs ! i) = (forward_rel edges)\<^sup>* `` set (entries ! i)"
      using that by (simp add: rs_def entries_def bfs_reachable rel)
    also have "set (entries ! i) = {targetNodeId e | e. e \<in> set edges \<and> sourceNodeId e = p
        \<and> branch_number (sourcePort e) = Some i}"
      unfolding entries_def set_branch_entries [OF that] by auto
    finally show ?thesis by (simp add: branch_reach_def)
  qed
  have distinct: "\<forall>r \<in> set rs. distinct r" by (auto simp: rs_def bfs_distinct)
  have m: "joinNodeIds m = map fst (filter (\<lambda>kv. 1 < snd kv) (owner_counts rs))"
      "allBodyNodeIds m = map fst (filter (\<lambda>kv. \<not> 1 < snd kv) (owner_counts rs))"
      "bodyNodeIdsPerBranch m = map (filter (\<lambda>v. v \<in> set (allBodyNodeIds m))) rs"
    by (simp_all add: m_def collectParallelBranchMembership_def Let_def rs_def entries_def)
  have joins: "set (joinNodeIds m) = {v. 1 < owners rs v}"
    using owner_filter [OF distinct, of "\<lambda>k. 1 < k"] unfolding m(1) by (auto dest: less_trans [OF zero_less_one])
  have bodies: "set (allBodyNodeIds m) = {v. 0 < owners rs v \<and> \<not> 1 < owners rs v}"
    using owner_filter [OF distinct, of "\<lambda>k. \<not> 1 < k"] by (simp add: m(2))
  show "length (bodyNodeIdsPerBranch m) = n" by (simp add: m(3) len)
  show body: "set (bodyNodeIdsPerBranch m ! i)
      = {v \<in> branch_reach p edges i. \<forall>j < n. j \<noteq> i \<longrightarrow> v \<notin> branch_reach p edges j}" if i: "i < n" for i
  proof -
    have "set (bodyNodeIdsPerBranch m ! i) = {v \<in> set (rs ! i). \<not> 1 < owners rs v}"
      using i by (auto simp: m(3) len bodies owners_pos)
    also have "\<dots> = {v \<in> set (rs ! i). \<forall>j < n. j \<noteq> i \<longrightarrow> v \<notin> set (rs ! j)}"
      using i owners_only [of i rs] len by auto
    finally show ?thesis using rs i by auto
  qed
  show "set (joinNodeIds m) = {v. \<exists>i j. i < j \<and> j < n \<and> v \<in> branch_reach p edges i \<inter> branch_reach p edges j}"
  proof -
    have "i < j \<and> j < n \<and> v \<in> set (rs ! i) \<and> v \<in> set (rs ! j)
        \<longleftrightarrow> i < j \<and> j < n \<and> v \<in> branch_reach p edges i \<inter> branch_reach p edges j" for i j v
      using rs [of i] rs [of j] by auto
    then show ?thesis unfolding joins owners_many len by simp
  qed
  show "set (allBodyNodeIds m) = (\<Union>i < n. set (bodyNodeIdsPerBranch m ! i))"
    by (auto simp: m(3) len bodies owners_pos)
qed

end
