(* ===== verification/NodeOutput.thy ===== *)
theory NodeOutput
  imports Traversal Builtins
begin

text \<open>
  From the value a node handler returns to the value the next node receives: the handler contract
  and the flat shape of \<open>handler-output.adapter.ts\<close>, port selection and the removal of control
  fields in \<open>execution-engine.service.ts\<close>. New objects take the next free identity; an envelope
  around an array, a primitive or a null output is remembered by its identity, as the source's
  \<open>WeakSet\<close> does.
\<close>

section \<open>Objects and marks\<close>

record objs =
  ob_next :: nat
  ob_marked :: "nat list"

definition alloc_obj :: "props \<Rightarrow> objs \<Rightarrow> jsval \<times> objs" where
  "alloc_obj ps s = (JObj (ob_next s) ps, s\<lparr>ob_next := Suc (ob_next s)\<rparr>)"

definition markWrappedValueEnvelope :: "host \<Rightarrow> jsval \<Rightarrow> objs \<Rightarrow> objs" where
  "markWrappedValueEnvelope h v s = (case v of
     JObj i ps \<Rightarrow> (if obj_in h ps ''data'' then s\<lparr>ob_marked := i # ob_marked s\<rparr> else s)
   | _ \<Rightarrow> s)"

definition isWrappedValueEnvelope :: "objs \<Rightarrow> jsval \<Rightarrow> bool" where
  "isWrappedValueEnvelope s v = (case v of JObj i _ \<Rightarrow> i \<in> set (ob_marked s) | _ \<Rightarrow> False)"

definition unwrapEngineFlatValue :: "host \<Rightarrow> objs \<Rightarrow> jsval \<Rightarrow> jsval" where
  "unwrapEngineFlatValue h s v = (if isWrappedValueEnvelope s v then js_get h ''data'' v else v)"

text \<open>Truth of a value, and the own enumerable properties that \<open>...v\<close> copies.\<close>

fun js_truthy :: "jsval \<Rightarrow> bool" where
  "js_truthy JUndef = False"
| "js_truthy JNull = False"
| "js_truthy (JBool b) = b"
| "js_truthy (JNum x) = (x \<noteq> NaN \<and> \<not> is_zero x)"
| "js_truthy (JStr s) = (s \<noteq> [])"
| "js_truthy v = True"

fun own_props :: "jsval \<Rightarrow> props" where
  "own_props (JObj _ ps) = ps"
| "own_props (JArr _ vs) = map (\<lambda>(i, v). (show_nat i, v)) (enumerate 0 vs)"
| "own_props (JStr s) = map (\<lambda>(i, c). (show_nat i, JStr [c])) (enumerate 0 s)"
| "own_props _ = []"

definition without_keys :: "string list \<Rightarrow> props \<Rightarrow> props" where
  "without_keys ks ps = filter (\<lambda>kv. fst kv \<notin> set ks) ps"

section \<open>The handler contract\<close>

text \<open>An absent or \<open>undefined\<close> optional field is \<open>None\<close>.\<close>

record handler_output =
  ho_config :: jsval
  ho_output :: jsval
  ho_meta :: "jsval option"
  ho_port :: "jsval option"
  ho_status :: "jsval option"
  ho_resumeState :: "jsval option"
  ho_retryState :: "jsval option"

definition defined :: "jsval \<Rightarrow> jsval option" where
  "defined v = (if v = JUndef then None else Some v)"

definition isNewShape :: "host \<Rightarrow> jsval \<Rightarrow> bool" where
  "isNewShape h raw = (case raw of
     JObj _ ps \<Rightarrow> obj_in h ps ''config'' \<and> obj_in h ps ''output'' | _ \<Rightarrow> False)"

definition contract_preview :: "host \<Rightarrow> jsval \<Rightarrow> string" where
  "contract_preview h raw =
     (if is_nullish raw then to_js_string h raw
      else case json_stringify raw of
        Some s \<Rightarrow> take 200 s
      | None \<Rightarrow> ''[unserializable]'')"

definition contract_message :: "host \<Rightarrow> jsval \<Rightarrow> string" where
  "contract_message h raw =
     ''Node handler return violates the NodeHandlerOutput contract. ''
     @ ''Expected { config, output, ... }; got '' @ contract_preview h raw @ ''. ''
     @ ''This indicates a handler bug '' @ h_code_unit h 8212 @ '' fix the handler'' @ [CHR 0x27]
     @ ''s return value. ''
     @ ''If the return shape is intentionally legacy (e.g. a one-off ''
     @ ''test double), call wrapBareAsNodeHandlerOutput() explicitly.''"

definition adaptHandlerReturn :: "host \<Rightarrow> jsval \<Rightarrow> objs \<Rightarrow> string + handler_output \<times> objs" where
  "adaptHandlerReturn h raw s =
     (if isNewShape h raw then
        let get = (\<lambda>k. js_get h k raw);
            (config, s') = (if is_nullish (get ''config'') then alloc_obj [] s else (get ''config'', s))
        in Inr (\<lparr>ho_config = config, ho_output = get ''output'', ho_meta = defined (get ''meta''),
             ho_port = defined (get ''port''), ho_status = defined (get ''status''),
             ho_resumeState = defined (get ''_resumeState''),
             ho_retryState = defined (get ''_retryState'')\<rparr>, s')
      else Inl (contract_message h raw))"

section \<open>The flat shape\<close>

definition opt_prop :: "string \<Rightarrow> jsval option \<Rightarrow> props" where
  "opt_prop k v = (case v of None \<Rightarrow> [] | Some x \<Rightarrow> [(k, x)])"

definition control_props :: "handler_output \<Rightarrow> props" where
  "control_props adapted = opt_prop ''port'' (ho_port adapted) @ opt_prop ''status'' (ho_status adapted)
     @ opt_prop ''_resumeState'' (ho_resumeState adapted)"

definition mark_new :: "host \<Rightarrow> props \<Rightarrow> objs \<Rightarrow> jsval \<times> objs" where
  "mark_new h ps s = (let (v, s') = alloc_obj ps s in (v, markWrappedValueEnvelope h v s'))"

definition flat_nullish :: "host \<Rightarrow> handler_output \<Rightarrow> objs \<Rightarrow> jsval \<times> objs" where
  "flat_nullish h adapted s =
     (let output = ho_output adapted
      in if (case ho_port adapted of Some (JStr _) \<Rightarrow> True | _ \<Rightarrow> False)
            \<and> ho_status adapted = None \<and> ho_resumeState adapted = None
         then mark_new h (spread [(''data'', output)] (opt_prop ''port'' (ho_port adapted))) s
         else
           let hasConfig = (\<not> is_nullish (ho_config adapted) \<and> own_props (ho_config adapted) \<noteq> []);
               hasControl = (ho_port adapted \<noteq> None \<or> ho_status adapted \<noteq> None)
           in if hasConfig \<or> hasControl \<or> ho_resumeState adapted \<noteq> None
              then alloc_obj (spread (if hasConfig then own_props (ho_config adapted) else [])
                     (control_props adapted)) s
              else (output, s))"

definition opt_truthy :: "jsval option \<Rightarrow> bool" where
  "opt_truthy v = (case v of None \<Rightarrow> False | Some x \<Rightarrow> js_truthy x)"

definition flat_value :: "host \<Rightarrow> handler_output \<Rightarrow> objs \<Rightarrow> jsval \<times> objs" where
  "flat_value h adapted s =
     (if opt_truthy (ho_port adapted) \<or> opt_truthy (ho_status adapted) \<or> opt_truthy (ho_resumeState adapted)
      then mark_new h (spread [(''data'', ho_output adapted)] (control_props adapted)) s
      else (ho_output adapted, s))"

text \<open>\<open>base.k = v\<close> when the handler set \<open>k\<close>, always or only where \<open>base.k\<close> is undefined.\<close>

definition set_always :: "string \<Rightarrow> jsval option \<Rightarrow> props \<Rightarrow> props" where
  "set_always k v base = (case v of None \<Rightarrow> base | Some x \<Rightarrow> define_prop k x base)"

definition set_if_undefined :: "host \<Rightarrow> string \<Rightarrow> jsval option \<Rightarrow> props \<Rightarrow> props" where
  "set_if_undefined h k v base = (case v of
     Some x \<Rightarrow> (if obj_get h base k = JUndef then define_prop k x base else base) | None \<Rightarrow> base)"

definition flat_object :: "host \<Rightarrow> handler_output \<Rightarrow> props \<Rightarrow> props" where
  "flat_object h adapted ps =
     (let base = set_always ''status'' (ho_status adapted) ps;
          base = (case ho_port adapted of
            None \<Rightarrow> base
          | Some p \<Rightarrow> set_if_undefined h ''data'' (Some (ho_output adapted)) (define_prop ''port'' p base));
          base = set_if_undefined h ''_resumeState'' (ho_resumeState adapted) base
      in set_if_undefined h ''_retryState'' (ho_retryState adapted) base)"

definition toEngineFlatShape :: "host \<Rightarrow> handler_output \<Rightarrow> objs \<Rightarrow> jsval \<times> objs" where
  "toEngineFlatShape h adapted s =
     (case ho_output adapted of
        JUndef \<Rightarrow> flat_nullish h adapted s
      | JNull \<Rightarrow> flat_nullish h adapted s
      | JObj _ ps \<Rightarrow> alloc_obj (flat_object h adapted ps) s
      | _ \<Rightarrow> flat_value h adapted s)"

section \<open>Ports and control fields\<close>

definition applyPortSelection :: "host \<Rightarrow> jsval \<Rightarrow> objs \<Rightarrow> jsval \<times> objs" where
  "applyPortSelection h output s =
     (case output of
        JObj _ ps \<Rightarrow>
          (if obj_in h ps ''port'' \<and> obj_in h ps ''data'' then
             let port = obj_get h ps ''port'';
                 dat = obj_get h ps ''data'';
                 extra = without_keys [''port'', ''data''] ps
             in case dat of
                  JObj _ base \<Rightarrow> alloc_obj (define_prop ''_selectedPort'' port (spread base extra)) s
                | _ \<Rightarrow>
                    (let routed = define_prop ''_selectedPort'' port (define_prop ''data'' dat extra)
                     in if isWrappedValueEnvelope s output then mark_new h routed s else alloc_obj routed s)
           else (output, s))
      | _ \<Rightarrow> (output, s))"

definition control_fields :: "string list" where
  "control_fields = [''_selectedPort'', ''port'', ''status'', ''_resumeState'', ''_resumeCheckpoint'']"

definition stripControlFields :: "host \<Rightarrow> jsval \<Rightarrow> objs \<Rightarrow> jsval \<times> objs" where
  "stripControlFields h output s =
     (if isWrappedValueEnvelope s output then (js_get h ''data'' output, s)
      else case output of
        JObj _ ps \<Rightarrow>
          (if \<forall>k \<in> set control_fields. \<not> obj_in h ps k then (output, s)
           else alloc_obj (without_keys control_fields ps) s)
      | _ \<Rightarrow> (output, s))"

definition isErrorPortRouted :: "host \<Rightarrow> jsval \<Rightarrow> bool" where
  "isErrorPortRouted h finalOutput = (case finalOutput of
     JObj _ ps \<Rightarrow> obj_get h ps ''_selectedPort'' = JStr ''error'' | _ \<Rightarrow> False)"

definition hasConnectedErrorEdge :: "string \<Rightarrow> (string, graph_edge list) jmap \<Rightarrow> bool" where
  "hasConnectedErrorEdge nodeId outgoing =
     list_ex (\<lambda>e. sourcePort e = ''error'') (jget_or [] outgoing nodeId)"

section \<open>Property lists\<close>

lemma map_of_without_keys [simp]:
  "map_of (without_keys ks ps) k = (if k \<in> set ks then None else map_of ps k)"
  by (induction ps) (auto simp: without_keys_def)

lemma map_of_spread: "map_of (spread ps qs) = map_of ps ++ map_of (rev qs)"
proof (induction qs arbitrary: ps)
  case (Cons kv qs)
  obtain k v where kv: "kv = (k, v)" by (cases kv)
  have "map_of (spread ps (kv # qs)) = map_of (spread (define_prop k v ps) qs)"
    by (simp add: spread_def kv)
  also have "\<dots> = map_of (define_prop k v ps) ++ map_of (rev qs)" by (rule Cons)
  also have "\<dots> = map_of ps ++ map_of (rev (kv # qs))"
    unfolding map_of_define_prop kv by (rule ext) (simp add: map_add_def split: option.splits)
  finally show ?case .
qed (simp add: spread_def)

lemma spread_Nil [simp]: "spread ps [] = ps"
  by (simp add: spread_def)

lemma spread_Cons: "spread ps (kv # qs) = spread (define_prop (fst kv) (snd kv) ps) qs"
  by (simp add: spread_def)

lemma map_of_rev_distinct: "distinct (map fst ps) \<Longrightarrow> map_of (rev ps) = map_of ps"
  by (intro ext) (metis (no_types) map_of_eq_Some_iff distinct_rev rev_map set_rev not_None_eq map_of_eq_None_iff)

lemma own_obj_in: "map_of ps k = Some v \<Longrightarrow> obj_in h ps k"
  by (simp add: obj_in_def)

lemma own_obj_get: "map_of ps k = Some v \<Longrightarrow> obj_get h ps k = v"
  by (simp add: obj_get_def)

section \<open>What the next node receives\<close>

text \<open>The engine value of a handler result, and the input that a successor reads from it.\<close>

definition node_result :: "host \<Rightarrow> handler_output \<Rightarrow> objs \<Rightarrow> jsval \<times> objs" where
  "node_result h adapted s = (let (flat, s1) = toEngineFlatShape h adapted s in applyPortSelection h flat s1)"

definition next_input :: "host \<Rightarrow> handler_output \<Rightarrow> objs \<Rightarrow> jsval" where
  "next_input h adapted s = (let (routed, s1) = node_result h adapted s in fst (stripControlFields h routed s1))"

text \<open>Equal up to the identity of a copied object and the order of its properties.\<close>

definition same_content :: "jsval \<Rightarrow> jsval \<Rightarrow> bool" where
  "same_content v w = (case (v, w) of
     (JObj _ ps, JObj _ qs) \<Rightarrow> map_of ps = map_of qs | _ \<Rightarrow> v = w)"

definition engine_keys :: "string list" where
  "engine_keys = ''data'' # ''_retryState'' # control_fields"

text \<open>An object without the names the engine uses, own or inherited.\<close>

definition plain_output :: "host \<Rightarrow> jsval \<Rightarrow> bool" where
  "plain_output h v = (case v of
     JObj _ ps \<Rightarrow> distinct (map fst ps) \<and> (\<forall>k \<in> set engine_keys. \<not> obj_in h ps k) | _ \<Rightarrow> True)"

definition marks_old :: "objs \<Rightarrow> bool" where
  "marks_old s = (\<forall>i \<in> set (ob_marked s). i < ob_next s)"

text \<open>A handler result that selects the port \<open>p\<close> and nothing else.\<close>

definition selects_port :: "handler_output \<Rightarrow> string \<Rightarrow> bool" where
  "selects_port adapted p = (ho_port adapted = Some (JStr p) \<and> ho_status adapted = None
     \<and> ho_resumeState adapted = None \<and> ho_retryState adapted = None)"

lemmas engine_defs = node_result_def next_input_def applyPortSelection_def stripControlFields_def
  alloc_obj_def mark_new_def markWrappedValueEnvelope_def isWrappedValueEnvelope_def

lemma port_filter_selected:
  "map_of ps ''_selectedPort'' = Some (JStr p) \<Longrightarrow> isPortFiltered h (JObj i ps) q = (q \<noteq> p)"
  by (simp add: isPortFiltered_def js_in_def js_get_def own_obj_in own_obj_get)

text \<open>An enveloped value: the marked object \<open>{ data, port }\<close>.\<close>

lemma envelope_result:
  assumes "toEngineFlatShape h adapted s = mark_new h (spread [(''data'', v)] [(''port'', JStr p)]) s"
    and "\<not> (\<exists>i ps. v = JObj i ps)"
  shows "next_input h adapted s = v \<and> (\<forall>q. isPortFiltered h (fst (node_result h adapted s)) q = (q \<noteq> p))"
proof -
  have keys: "without_keys [''port'', ''data''] (spread [(''data'', v)] [(''port'', JStr p)]) = []"
    by (simp add: spread_Cons without_keys_def define_prop_def array_index_def is_digit_def)
  show ?thesis
  proof (cases v)
    case (JObj i ps)
    then show ?thesis using assms(2) by blast
  qed (simp_all add: assms(1) engine_defs Let_def obj_in_def obj_get_def map_of_spread keys
      isPortFiltered_def js_in_def js_get_def)
qed

lemma flat_envelope:
  assumes "selects_port adapted p" and "p \<noteq> []" and "\<not> (\<exists>i ps. ho_output adapted = JObj i ps)"
  shows "toEngineFlatShape h adapted s
    = mark_new h (spread [(''data'', ho_output adapted)] [(''port'', JStr p)]) s"
  using assms
  by (cases "ho_output adapted")
    (auto simp: toEngineFlatShape_def flat_nullish_def flat_value_def selects_port_def opt_truthy_def
      opt_prop_def control_props_def Let_def)

text \<open>A plain object: its properties travel beside the port, and come back without it.\<close>

lemma object_result:
  assumes "selects_port adapted p" and "ho_output adapted = JObj i ps" and "plain_output h (JObj i ps)"
    and "marks_old s"
  shows "same_content (next_input h adapted s) (JObj i ps)
    \<and> (\<forall>q. isPortFiltered h (fst (node_result h adapted s)) q = (q \<noteq> p))"
proof -
  have plain: "distinct (map fst ps)" "\<And>k. k \<in> set engine_keys \<Longrightarrow> \<not> obj_in h ps k"
    using assms(3) by (auto simp: plain_output_def)
  have absent: "map_of ps k = None" "h_object_proto h k = None" if "k \<in> set engine_keys" for k
    using plain(2) [OF that] by (auto simp: obj_in_def)
  define base where "base = define_prop ''data'' (JObj i ps) (define_prop ''port'' (JStr p) ps)"
  define routed where "routed = define_prop ''_selectedPort'' (JStr p)
      (spread ps (without_keys [''port'', ''data''] base))"
  have "obj_get h (define_prop ''port'' (JStr p) ps) ''data'' = JUndef"
    using absent [of "''data''"] by (simp add: obj_get_def engine_keys_def)
  then have flat: "toEngineFlatShape h adapted s = alloc_obj base s"
    using assms(1,2)
    by (simp add: toEngineFlatShape_def flat_object_def set_always_def set_if_undefined_def selects_port_def
        base_def Let_def)
  have "map_of (spread ps (without_keys [''port'', ''data''] base)) = map_of ps"
  proof
    fix k
    have "map_of (without_keys [''port'', ''data''] base) k
        = (if k \<in> {''port'', ''data''} then None else map_of ps k)"
      by (simp add: base_def)
    moreover have "distinct (map fst (without_keys [''port'', ''data''] base))"
      using distinct_define_prop [OF distinct_define_prop [OF plain(1)]]
      by (simp add: base_def without_keys_def distinct_map_filter)
    ultimately show "map_of (spread ps (without_keys [''port'', ''data''] base)) k = map_of ps k"
      by (simp add: map_of_spread map_of_rev_distinct map_add_def split: option.splits)
  qed
  then have routed: "map_of routed = (map_of ps)(''_selectedPort'' \<mapsto> JStr p)"
    by (simp add: routed_def)
  have result: "node_result h adapted s = alloc_obj routed (s\<lparr>ob_next := Suc (ob_next s)\<rparr>)"
    by (simp add: node_result_def flat applyPortSelection_def alloc_obj_def Let_def base_def routed_def
        obj_in_def obj_get_def)
  have fresh: "Suc (ob_next s) \<notin> set (ob_marked s)" using assms(4) by (auto simp: marks_old_def)
  have "obj_in h routed ''_selectedPort''" by (simp add: obj_in_def routed)
  then have "next_input h adapted s = JObj (Suc (Suc (ob_next s))) (without_keys control_fields routed)"
    using fresh
    by (simp add: next_input_def result alloc_obj_def stripControlFields_def isWrappedValueEnvelope_def
        control_fields_def)
  moreover have "map_of (without_keys control_fields routed) = map_of ps"
    using absent(1) by (rule_tac ext) (auto simp: routed engine_keys_def control_fields_def)
  moreover have "isPortFiltered h (fst (node_result h adapted s)) q = (q \<noteq> p)" for q
    using port_filter_selected [of routed p h] by (simp add: result alloc_obj_def routed)
  ultimately show ?thesis by (simp add: same_content_def)
qed



definition success_output :: "jsval \<Rightarrow> handler_output" where
  "success_output v = \<lparr>ho_config = JObj 0 [], ho_output = v, ho_meta = None,
     ho_port = Some (JStr ''success''), ho_status = None, ho_resumeState = None, ho_retryState = None\<rparr>"


text \<open>An output that is an object with an object under \<open>data\<close> does not arrive: port selection
  takes it for the engine's own envelope and the next node receives the inner object.\<close>

theorem data_object_unwrapped:
  "next_input h (success_output (JObj 1 [(''data'', JObj 0 [(''a'', v)])])) \<lparr>ob_next = 2, ob_marked = []\<rparr>
     = JObj 4 [(''a'', v)]"
  by (simp add: success_output_def engine_defs toEngineFlatShape_def flat_object_def set_always_def
      set_if_undefined_def obj_in_def obj_get_def define_prop_def array_index_def is_digit_def
      without_keys_def control_fields_def spread_def Let_def)


end
