(* ===== verification/Resolver.thy ===== *)
theory Resolver
  imports Engine NodeOutput
begin

text \<open>
  Between the engine and the expression package: \<open>expression-resolver.service.ts\<close> with
  \<open>expression-exclusions.ts\<close>, \<open>trigger-data.util.ts\<close>, \<open>disambiguate-labels.ts\<close>,
  \<open>sanitize-response-headers.util.ts\<close> and the rendering of a conversation in
  \<open>thread-renderer.ts\<close>. It builds the names that a template sees and replaces the templates in the
  settings of a node by their values. Identities and clock readings are threaded through the state of
  the expression evaluator.
\<close>

section \<open>What the resolver reads\<close>

record item_context =
  ic_item :: jsval
  ic_index :: nat
  ic_isFirst :: bool
  ic_isLast :: bool

record loop_context =
  lc_index :: jsnum
  lc_count :: jsnum
  lc_isFirst :: bool
  lc_isLast :: bool

text \<open>
  The fields of the execution context that expressions can see. \<open>xc_thread\<close> holds the turns of the
  conversation; \<open>xc_trigger\<close> the own properties of the transport data.
\<close>

record exec_context =
  xc_executionId :: string
  xc_workflowId :: string
  xc_variables :: jsval
  xc_outputs :: "(string, jsval) jmap"
  xc_structured :: "(string, handler_output) jmap"
  xc_loop :: "loop_context option"
  xc_item :: "item_context option"
  xc_thread :: "jsval list option"
  xc_trigger :: "props option"

record execution_meta =
  em_startedAt :: "string option"
  em_mode :: "string option"

text \<open>The process: the clock as \<open>toISOString\<close> shows it, the allowlist setting and \<open>process.env\<close>.\<close>

record process =
  ps_host :: host
  ps_nowIso :: "nat \<Rightarrow> string"
  ps_allowlist :: "string option"
  ps_env :: "string \<Rightarrow> string option"

section \<open>Labels\<close>

definition label_counts :: "(string \<times> string) list \<Rightarrow> (string, nat) jmap" where
  "label_counts entries = fold (\<lambda>(_, l) m. jput l (jget_or 0 m l + 1) m) entries []"

definition disambiguate :: "(string, nat) jmap \<Rightarrow> string \<times> string
    \<Rightarrow> (string, nat) jmap \<times> (string, string) jmap \<Rightarrow> (string, nat) jmap \<times> (string, string) jmap" where
  "disambiguate counts entry acc =
     (case entry of (i, l) \<Rightarrow> case acc of (indices, result) \<Rightarrow>
        if jget_or 0 counts l = 1 then (indices, jput i l result)
        else (let idx = jget_or 0 indices l + 1
              in (jput l idx indices, jput i (if idx = 1 then l else l @ ''#'' @ show_nat idx) result)))"

definition buildDisambiguatedKeys :: "(string \<times> string) list \<Rightarrow> (string, string) jmap" where
  "buildDisambiguatedKeys entries = snd (fold (disambiguate (label_counts entries)) entries ([], []))"

section \<open>Headers and the trigger\<close>

definition EXACT_BLACKLIST :: "string list" where
  "EXACT_BLACKLIST = [''authorization'', ''proxy-authorization'', ''www-authenticate'', ''proxy-authenticate'',
     ''cookie'', ''set-cookie'', ''x-api-key'', ''x-auth-token'', ''x-csrf-token'', ''x-amz-security-token'',
     ''location'']"

definition SUBSTRING_BLACKLIST :: "string list" where
  "SUBSTRING_BLACKLIST = [''auth'', ''token'', ''api-key'', ''apikey'', ''secret'', ''cookie'', ''credential'',
     ''password'', ''signature'']"

definition isSensitiveHeaderName :: "host \<Rightarrow> string \<Rightarrow> bool" where
  "isSensitiveHeaderName h name =
     (let lower = h_lower h name
      in lower \<in> set EXACT_BLACKLIST \<or> list_ex (\<lambda>needle. find_sub needle lower \<noteq> None) SUBSTRING_BLACKLIST)"

definition REDACTED :: string where "REDACTED = ''[REDACTED]''"

text \<open>The headers as a plain record; the \<open>Headers\<close> class of \<open>fetch\<close> does not occur here.\<close>

definition sanitizeResponseHeaders :: "host \<Rightarrow> props \<Rightarrow> props" where
  "sanitizeResponseHeaders h source =
     fold (\<lambda>(name, value). assign_prop name
       (JStr (if isSensitiveHeaderName h name then REDACTED else to_js_string h value))) source []"

definition TRIGGER_TRANSPORT_KEYS :: "string list" where
  "TRIGGER_TRANSPORT_KEYS = [''body'', ''headers'', ''query'', ''method'']"

definition isPlainRecord :: "jsval \<Rightarrow> bool" where
  "isPlainRecord v = (case v of JObj _ _ \<Rightarrow> True | _ \<Rightarrow> False)"

definition extractTriggerData :: "host \<Rightarrow> jsval \<Rightarrow> props option" where
  "extractTriggerData h inputData =
     (if \<not> isPlainRecord inputData then None
      else
        let source = js_get h ''__triggerSource'' inputData;
            isWebhook = (source = JStr ''webhook'')
              \<or> (source = JUndef \<and> list_ex (\<lambda>k. js_in h k inputData) TRIGGER_TRANSPORT_KEYS);
            field = (\<lambda>k ok. if ok (js_get h k inputData) then [(k, js_get h k inputData)] else [])
        in if \<not> isWebhook then None
           else Some ((if js_in h ''body'' inputData then [(''body'', js_get h ''body'' inputData)] else [])
             @ field ''headers'' isPlainRecord @ field ''query'' isPlainRecord
             @ field ''method'' (\<lambda>v. js_typeof v = ''string'')))"

definition buildTriggerView :: "host \<Rightarrow> props option \<Rightarrow> jsval ev" where
  "buildTriggerView h trigger =
     (case trigger of
        None \<Rightarrow> new_object []
      | Some t \<Rightarrow>
          (let headers = obj_get h t ''headers''; query = obj_get h t ''query''; verb = obj_get h t ''method''
           in bindM (if js_truthy headers
                     then bindM (new_object (sanitizeResponseHeaders h (own_props headers))) (\<lambda>v. retM [(''headers'', v)])
                     else retM []) (\<lambda>hs.
              new_object ((if obj_in h t ''body'' then [(''body'', obj_get h t ''body'')] else []) @ hs
                @ (if js_truthy query then [(''query'', query)] else [])
                @ (if verb \<noteq> JUndef then [(''method'', verb)] else [])))))"

section \<open>The environment\<close>

definition env_keys :: "string \<Rightarrow> string list" where
  "env_keys raw = filter (\<lambda>k. k \<noteq> []) (map js_trim (js_split '','' raw))"

definition buildEnvView :: "process \<Rightarrow> props" where
  "buildEnvView P =
     (case ps_allowlist P of
        None \<Rightarrow> []
      | Some raw \<Rightarrow> if raw = [] then [] else
          fold (\<lambda>k env. case ps_env P k of Some v \<Rightarrow> assign_prop k (JStr v) env | None \<Rightarrow> env) (env_keys raw) [])"

section \<open>The conversation\<close>

definition turn_lines :: "host \<Rightarrow> jsval \<Rightarrow> string list" where
  "turn_lines h t =
     (let s = (\<lambda>k. to_js_string h (js_get h k t)); dot = '' '' @ [CHR 0xB7] @ '' ''
      in [''[#'' @ s ''seq'' @ '' '' @ s ''timestamp'' @ dot @ s ''nodeLabel'' @ '' ('' @ s ''nodeType'' @ '')''
            @ dot @ s ''source'' @ '']'']
         @ (if js_truthy (js_get h ''text'' t) then [s ''text''] else []) @ [''''])"

definition renderThreadAsSystemText :: "host \<Rightarrow> jsval list \<Rightarrow> string" where
  "renderThreadAsSystemText h turns =
     (if turns = [] then ''''
      else js_join [CHR 10] ([''[Conversation Context '' @ h_code_unit h 8212 @ '' chronological]'']
        @ concat (map (turn_lines h) turns) @ [''[End of Conversation Context]'']))"

text \<open>The lazy \<open>text\<close> reads an immutable snapshot, so its value is the same whenever it is read.\<close>

definition buildThreadView :: "host \<Rightarrow> jsval list option \<Rightarrow> jsval ev" where
  "buildThreadView h thread =
     (case thread of
        None \<Rightarrow> retM JUndef
      | Some turns \<Rightarrow> bindM (new_array turns) (\<lambda>snapshot.
          new_object [(''turns'', snapshot), (''length'', JNum (num_of_nat (length turns))),
            (''text'', JStr (renderThreadAsSystemText h turns))]))"

section \<open>The names an expression sees\<close>

definition node_entry :: "exec_context \<Rightarrow> string \<Rightarrow> jsval \<Rightarrow> jsval ev" where
  "node_entry xc nodeId flat =
     (case map_of (xc_structured xc) nodeId of
        None \<Rightarrow> new_object [(''output'', flat)]
      | Some adapted \<Rightarrow>
          bindM (if is_nullish (ho_config adapted) then new_object [] else retM (ho_config adapted)) (\<lambda>config.
            new_object ([(''config'', config), (''output'', ho_output adapted)]
              @ opt_prop ''meta'' (ho_meta adapted) @ opt_prop ''port'' (ho_port adapted)
              @ opt_prop ''status'' (ho_status adapted))))"

definition nodes_with_output :: "exec_context \<Rightarrow> (string, node) jmap \<Rightarrow> (string \<times> string) list" where
  "nodes_with_output xc nodeMap =
     map (\<lambda>(i, n). (i, node_label n)) (filter (\<lambda>(i, n). jget_or JUndef (xc_outputs xc) i \<noteq> JUndef) nodeMap)"

text \<open>Each node that has an output appears under its key and under its id.\<close>

fun add_nodes :: "exec_context \<Rightarrow> (string, string) jmap \<Rightarrow> (string \<times> string) list \<Rightarrow> props \<Rightarrow> props ev" where
  "add_nodes xc keys [] view = retM view"
| "add_nodes xc keys ((nodeId, l) # rest) view =
     bindM (node_entry xc nodeId (jget_or JUndef (xc_outputs xc) nodeId)) (\<lambda>e.
       add_nodes xc keys rest (assign_prop nodeId e (assign_prop (jget_or '''' keys nodeId) e view)))"

definition build_node_view :: "exec_context \<Rightarrow> (string, node) jmap \<Rightarrow> jsval ev" where
  "build_node_view xc nodeMap =
     (let entries = nodes_with_output xc nodeMap
      in bindM (add_nodes xc (buildDisambiguatedKeys entries) entries []) new_object)"

definition params_of :: "host \<Rightarrow> jsval \<Rightarrow> jsval option" where
  "params_of h input =
     (if is_object input \<and> isPlainRecord (js_get h ''parameters'' input)
      then Some (js_get h ''parameters'' input) else None)"

definition loop_view :: "loop_context option \<Rightarrow> jsval ev" where
  "loop_view lc =
     (case lc of
        None \<Rightarrow> retM JUndef
      | Some c \<Rightarrow> new_object [(''index'', JNum (lc_index c)), (''iteration'', JNum (num_add (lc_index c) (Fin 1))),
          (''isFirst'', JBool (lc_isFirst c)), (''isLast'', JBool (lc_isLast c))])"

definition item_field :: "(item_context \<Rightarrow> jsval) \<Rightarrow> item_context option \<Rightarrow> jsval" where
  "item_field f ic = (case ic of None \<Rightarrow> JUndef | Some c \<Rightarrow> f c)"

definition buildExpressionContext :: "process \<Rightarrow> jsval \<Rightarrow> exec_context \<Rightarrow> (string, node) jmap
    \<Rightarrow> execution_meta \<Rightarrow> props ev" where
  "buildExpressionContext P nodeInput xc nodeMap meta =
     bindM (build_node_view xc nodeMap) (\<lambda>nodeView.
     bindM tickM (\<lambda>now.
     bindM (if is_nullish nodeInput then new_object [] else retM nodeInput) (\<lambda>input.
     bindM (case params_of (ps_host P) input of Some p \<Rightarrow> retM p | None \<Rightarrow> new_object []) (\<lambda>params.
     bindM (if is_nullish (xc_variables xc) then new_object [] else retM (xc_variables xc)) (\<lambda>variables.
     bindM (new_object [(''id'', JStr (xc_executionId xc)), (''workflowId'', JStr (xc_workflowId xc)),
         (''startedAt'', JStr (opt_or (ps_nowIso P now) (em_startedAt meta))),
         (''mode'', JStr (opt_or ''manual'' (em_mode meta)))]) (\<lambda>execution.
     bindM (loop_view (xc_loop xc)) (\<lambda>loop.
     bindM (buildThreadView (ps_host P) (xc_thread xc)) (\<lambda>thread.
     bindM (buildTriggerView (ps_host P) (xc_trigger xc)) (\<lambda>trigger.
     bindM (new_object (buildEnvView P)) (\<lambda>env.
       retM [(''$input'', input), (''$params'', params), (''$node'', nodeView), (''$var'', variables),
         (''$execution'', execution), (''$now'', JStr (ps_nowIso P now)), (''$loop'', loop),
         (''$item'', item_field ic_item (xc_item xc)),
         (''$itemIndex'', item_field (\<lambda>c. JNum (num_of_nat (ic_index c))) (xc_item xc)),
         (''$itemIsFirst'', item_field (\<lambda>c. JBool (ic_isFirst c)) (xc_item xc)),
         (''$itemIsLast'', item_field (\<lambda>c. JBool (ic_isLast c)) (xc_item xc)),
         (''$thread'', thread), (''$trigger'', trigger), (''$env'', env)]))))))))))"

section \<open>Resolving settings\<close>

definition EXPRESSION_EXCLUSIONS :: "(string, string list) jmap" where
  "EXPRESSION_EXCLUSIONS = [(''code'', [''code'']), (''table'', [''columns'']), (''filter'', [''conditions'']),
     (''loop'', [''breakCondition''])]"

definition MAX_DEPTH :: nat where "MAX_DEPTH = 10"

text \<open>\<open>FULL_EXPRESSION_PATTERN\<close>: braces around at least one character, white space outside.\<close>

definition is_full_expression :: "string \<Rightarrow> bool" where
  "is_full_expression value =
     (let t = js_trim value
      in 5 \<le> length t \<and> starts_with ''{{'' t \<and> starts_with ''}}'' (rev t))"

definition no_options :: eval_options where
  "no_options = \<lparr>opt_strictComparison = None, opt_timeout = None, opt_maxDepth = None\<rparr>"

definition mixed_result :: "host \<Rightarrow> jsval \<Rightarrow> jsval" where
  "mixed_result h result = (case result of
     JStr _ \<Rightarrow> result
   | JNull \<Rightarrow> JStr '''' | JUndef \<Rightarrow> JStr ''''
   | JArr _ _ \<Rightarrow> (case json_stringify result of Some s \<Rightarrow> JStr s | None \<Rightarrow> JUndef)
   | JObj _ _ \<Rightarrow> (case json_stringify result of Some s \<Rightarrow> JStr s | None \<Rightarrow> JUndef)
   | _ \<Rightarrow> JStr (to_js_string h result))"

definition resolveString :: "host \<Rightarrow> props \<Rightarrow> string \<Rightarrow> string \<Rightarrow> jsval ev" where
  "resolveString h ctx path value =
     (if find_sub ''{{'' value = None then retM (JStr value)
      else catchM (bindM (evaluateTemplate h value ctx no_options) (\<lambda>result.
             retM (if is_full_expression value then result else mixed_result h result)))
           (\<lambda>err. throwM (HostError (''Expression error in config.'' @ path @ '': '' @ error_message err))))"

definition index_path :: "string \<Rightarrow> nat \<Rightarrow> string" where
  "index_path path i = path @ ''['' @ show_nat i @ '']''"

definition field_path :: "string \<Rightarrow> string \<Rightarrow> string" where
  "field_path path key = (if path = [] then key else path @ ''.'' @ key)"

fun resolveValue :: "host \<Rightarrow> props \<Rightarrow> string list \<Rightarrow> string \<Rightarrow> nat \<Rightarrow> jsval \<Rightarrow> jsval ev"
and resolveItems :: "host \<Rightarrow> props \<Rightarrow> string list \<Rightarrow> string \<Rightarrow> nat \<Rightarrow> nat \<Rightarrow> jsval list \<Rightarrow> jsval list ev"
and resolveFields :: "host \<Rightarrow> props \<Rightarrow> string list \<Rightarrow> string \<Rightarrow> nat \<Rightarrow> props \<Rightarrow> props \<Rightarrow> props ev" where
  "resolveValue h ctx excluded path depth (JStr s) = resolveString h ctx path s"
| "resolveValue h ctx excluded path depth (JArr i vs) =
     bindM (resolveItems h ctx excluded path depth 0 vs) new_array"
| "resolveValue h ctx excluded path depth (JObj i ps) =
     (if MAX_DEPTH < Suc depth then retM (JObj i ps)
      else bindM (resolveFields h ctx excluded path (Suc depth) ps []) new_object)"
| "resolveValue h ctx excluded path depth v = retM v"
| "resolveItems h ctx excluded path depth i [] = retM []"
| "resolveItems h ctx excluded path depth i (v # vs) =
     bindM (resolveValue h ctx excluded (index_path path i) depth v) (\<lambda>r.
     bindM (resolveItems h ctx excluded path depth (Suc i) vs) (\<lambda>rs. retM (r # rs)))"
| "resolveFields h ctx excluded path depth [] result = retM result"
| "resolveFields h ctx excluded path depth ((key, value) # ps) result =
     bindM (if key \<in> set excluded then retM value
            else resolveValue h ctx excluded (field_path path key) depth value) (\<lambda>r.
       resolveFields h ctx excluded path depth ps (assign_prop key r result))"

definition resolveConfig :: "host \<Rightarrow> props \<Rightarrow> props \<Rightarrow> string \<Rightarrow> props ev" where
  "resolveConfig h config ctx nodeType =
     resolveFields h ctx (jget_or [] EXPRESSION_EXCLUSIONS nodeType) '''' 0 config []"

text \<open>For template nodes, the fields of the input join the names, unless a name is taken.\<close>

definition spread_template_input :: "string \<Rightarrow> jsval \<Rightarrow> props \<Rightarrow> props" where
  "spread_template_input nodeType nodeInput ctx =
     (case nodeInput of
        JObj _ ps \<Rightarrow> (if nodeType = ''template''
          then fold (\<lambda>(k, v) c. if map_of c k = None then assign_prop k v c else c) ps ctx else ctx)
      | _ \<Rightarrow> ctx)"

text \<open>
  The settings of a node whose last turn is retried: resolved with only this node known, and kept as
  they are when a template fails.
\<close>

definition resolveRetryNodeConfig :: "process \<Rightarrow> node \<Rightarrow> exec_context \<Rightarrow> string option \<Rightarrow> est \<Rightarrow> props \<times> est" where
  "resolveRetryNodeConfig P n xc startedAt st =
     (case bindM (new_object []) (\<lambda>nodeInput.
           bindM (buildExpressionContext P nodeInput xc [(node_id n, n)]
                    \<lparr>em_startedAt = startedAt, em_mode = None\<rparr>) (\<lambda>exprContext.
             resolveConfig (ps_host P) (node_config n) exprContext (node_type n))) st of
        (Inr resolved, st') \<Rightarrow> (resolved, st')
      | (Inl _, st') \<Rightarrow> (node_config n, st'))"

section \<open>The context is always built\<close>

definition returns_ev :: "'a ev \<Rightarrow> bool" where
  "returns_ev m = (\<forall>st. \<exists>x st'. m st = (Inr x, st'))"

lemma returns_ev_bind:
  assumes "returns_ev m" and "\<And>x. returns_ev (f x)"
  shows "returns_ev (bindM m f)"
  unfolding returns_ev_def
proof
  fix st
  obtain x st1 where "m st = (Inr x, st1)" using assms(1) unfolding returns_ev_def by blast
  moreover obtain y st2 where "f x st1 = (Inr y, st2)" using assms(2) [of x] unfolding returns_ev_def by blast
  ultimately show "\<exists>y st'. bindM m f st = (Inr y, st')" by (simp add: bindM_def)
qed

lemma returns_ev_intros:
  "returns_ev (retM x)" "returns_ev tickM" "returns_ev (new_array vs)" "returns_ev (new_object ps)"
  "(b \<Longrightarrow> returns_ev m) \<Longrightarrow> (\<not> b \<Longrightarrow> returns_ev m') \<Longrightarrow> returns_ev (if b then m else m')"
  "(z = None \<Longrightarrow> returns_ev m) \<Longrightarrow> (\<And>a. z = Some a \<Longrightarrow> returns_ev (g a))
    \<Longrightarrow> returns_ev (case z of None \<Rightarrow> m | Some a \<Rightarrow> g a)"
  by (auto simp: returns_ev_def monad_defs split: option.splits)

lemmas returns_intros = returns_ev_intros returns_ev_bind

lemma returns_add_nodes: "returns_ev (add_nodes xc keys entries view)"
  by (induction xc keys entries view rule: add_nodes.induct)
    (simp_all only: add_nodes.simps node_entry_def, (assumption | rule returns_intros)+)

lemma buildExpressionContext_returns:
  "\<exists>ctx st'. buildExpressionContext P nodeInput xc nodeMap meta st = (Inr ctx, st')"
proof -
  have "returns_ev (buildExpressionContext P nodeInput xc nodeMap meta)"
    unfolding buildExpressionContext_def build_node_view_def loop_view_def buildThreadView_def
      buildTriggerView_def Let_def
    by ((rule returns_add_nodes | rule returns_intros)+)
  then show ?thesis by (simp add: returns_ev_def)
qed

section \<open>Settings without templates\<close>

text \<open>A value without its identities.\<close>

fun content :: "jsval \<Rightarrow> jsval" where
  "content (JArr _ vs) = JArr 0 (map content vs)"
| "content (JObj _ ps) = JObj 0 (map (\<lambda>kv. (fst kv, content (snd kv))) ps)"
| "content v = v"

definition contents :: "props \<Rightarrow> props" where
  "contents ps = map (\<lambda>kv. (fst kv, content (snd kv))) ps"

text \<open>The list of properties that assignments in its own order build: the order that objects keep.\<close>

definition assign_all :: "props \<Rightarrow> props \<Rightarrow> props" where
  "assign_all ps acc = fold (\<lambda>kv. assign_prop (fst kv) (snd kv)) ps acc"

fun well_ordered :: "jsval \<Rightarrow> bool" where
  "well_ordered (JArr _ vs) = list_all well_ordered vs"
| "well_ordered (JObj _ ps) = (assign_all ps [] = ps \<and> list_all (\<lambda>kv. well_ordered (snd kv)) ps)"
| "well_ordered v = True"

fun no_template :: "jsval \<Rightarrow> bool" where
  "no_template (JStr s) = (find_sub ''{{'' s = None)"
| "no_template (JArr _ vs) = list_all no_template vs"
| "no_template (JObj _ ps) = list_all (\<lambda>kv. no_template (snd kv)) ps"
| "no_template v = True"

lemma contents_simps [simp]:
  "contents [] = []" "contents (kv # ps) = (fst kv, content (snd kv)) # contents ps"
  by (simp_all add: contents_def)

lemma content_obj: "content (JObj i ps) = JObj 0 (contents ps)"
  by (simp add: contents_def)

lemma contents_insert: "contents (insert_prop k v ps) = insert_prop k (content v) (contents ps)"
  by (induction k v ps rule: insert_prop.induct) (auto split: option.splits)

lemma map_of_contents: "map_of (contents ps) k = map_option content (map_of ps k)"
  by (induction ps) auto

lemma contents_assign: "contents (assign_prop k v ps) = assign_prop k (content v) (contents ps)"
proof -
  have "contents (map (\<lambda>(k', v'). if k' = k then (k', v) else (k', v')) ps)
      = map (\<lambda>(k', v'). if k' = k then (k', content v) else (k', v')) (contents ps)"
    by (induction ps) auto
  then show ?thesis by (simp add: assign_prop_def define_prop_def contents_insert map_of_contents)
qed

lemma contents_assign_all: "contents (assign_all ps acc) = assign_all (contents ps) (contents acc)"
  unfolding assign_all_def by (induction ps arbitrary: acc) (auto simp: contents_assign)

lemma plain_unchanged:
  "no_template v \<Longrightarrow> well_ordered v \<Longrightarrow>
    \<exists>r st'. resolveValue h ctx excluded path depth v st = (Inr r, st') \<and> content r = content v"
  "list_all no_template vs \<Longrightarrow> list_all well_ordered vs \<Longrightarrow>
    \<exists>rs st'. resolveItems h ctx excluded path depth i vs st = (Inr rs, st') \<and> map content rs = map content vs"
  "list_all (\<lambda>kv. no_template (snd kv)) ps \<Longrightarrow> list_all (\<lambda>kv. well_ordered (snd kv)) ps \<Longrightarrow>
    \<exists>r st'. resolveFields h ctx excluded path depth ps acc st = (Inr r, st')
      \<and> contents r = assign_all (contents ps) (contents acc)"
proof (induction h ctx excluded path depth v and h ctx excluded path depth i vs and h ctx excluded path depth ps acc
    arbitrary: st and st and st rule: resolveValue_resolveItems_resolveFields.induct)
  case (1 h ctx excluded path depth s)
  then show ?case by (simp add: resolveString_def retM_def)
next
  case (2 h ctx excluded path depth i vs)
  then obtain rs st' where "resolveItems h ctx excluded path depth 0 vs st = (Inr rs, st')"
    "map content rs = map content vs" by (simp, blast)
  then show ?case by (simp add: bindM_def new_array_def)
next
  case (3 h ctx excluded path depth i ps)
  show ?case
  proof (cases "MAX_DEPTH < Suc depth")
    case False
    with 3 obtain r st' where "resolveFields h ctx excluded path (Suc depth) ps [] st = (Inr r, st')"
      "contents r = assign_all (contents ps) []" by (simp, blast)
    moreover have "assign_all (contents ps) [] = contents ps"
      using 3(3) contents_assign_all [of ps "[]"] by simp
    ultimately show ?thesis using False by (simp add: bindM_def new_object_def contents_def)
  qed (simp add: retM_def)
next
  case (6 h ctx excluded path depth i v vs)
  obtain r st1 where "resolveValue h ctx excluded (index_path path i) depth v st = (Inr r, st1)"
    "content r = content v" using 6 by (simp, blast)
  moreover obtain rs st' where "resolveItems h ctx excluded path depth (Suc i) vs st1 = (Inr rs, st')"
    "map content rs = map content vs" using 6 by (simp, blast)
  ultimately show ?case by (simp add: bindM_def retM_def)
next
  case (8 h ctx excluded path depth key v ps acc)
  obtain r st1 where r: "(if key \<in> set excluded then retM v
      else resolveValue h ctx excluded (field_path path key) depth v) st = (Inr r, st1)" "content r = content v"
    using 8 by (cases "key \<in> set excluded") (simp_all add: retM_def, blast)
  obtain res st' where "resolveFields h ctx excluded path depth ps (assign_prop key r acc) st1 = (Inr res, st')"
    "contents res = assign_all (contents ps) (contents (assign_prop key r acc))"
    using 8 by (simp, blast)
  then show ?case using r by (simp add: bindM_def contents_assign assign_all_def)
qed (simp_all add: retM_def assign_all_def)

section \<open>What resolution does to settings\<close>

definition excluded_keys :: "string \<Rightarrow> string list" where
  "excluded_keys nodeType = jget_or [] EXPRESSION_EXCLUSIONS nodeType"

text \<open>An error of \<open>resolveString\<close> at the given path or below it.\<close>

definition config_error :: "string \<Rightarrow> js_throw \<Rightarrow> bool" where
  "config_error path e = (\<exists>rest message. e = HostError (''Expression error in config.'' @ path @ rest @ '': '' @ message))"

lemma config_error_longer: "config_error (path @ suffix) e \<Longrightarrow> config_error path e"
  unfolding config_error_def by (metis append.assoc)

lemma longer_paths:
  "raises (config_error (index_path path i)) m \<Longrightarrow> raises (config_error path) m"
  "raises (config_error (field_path path key)) m \<Longrightarrow> raises (config_error path) m"
proof -
  show "raises (config_error (index_path path i)) m \<Longrightarrow> raises (config_error path) m"
    by (erule raises_mono) (simp add: index_path_def config_error_longer)
  have "\<exists>s. field_path path key = path @ s" by (simp add: field_path_def)
  then show "raises (config_error (field_path path key)) m \<Longrightarrow> raises (config_error path) m"
    by (metis raises_mono config_error_longer)
qed

lemma resolveString_raises: "raises (config_error path) (resolveString h ctx path s)"
proof -
  have "config_error path (HostError (''Expression error in config.'' @ path @ '': '' @ m))" for m
    unfolding config_error_def by (metis append_Nil)
  then show ?thesis
    by (auto simp: resolveString_def raises_def retM_def catchM_def throwM_def split: sum.splits prod.splits)
qed

lemma resolution_raises:
  "raises (config_error path) (resolveValue h ctx excluded path depth v)"
  "raises (config_error path) (resolveItems h ctx excluded path depth i vs)"
  "raises (config_error path) (resolveFields h ctx excluded path depth ps acc)"
  by (induction h ctx excluded path depth v and h ctx excluded path depth i vs and h ctx excluded path depth ps acc
    rule: resolveValue_resolveItems_resolveFields.induct)
    (auto intro!: raises_intros resolveString_raises intro: longer_paths)

lemma fields_raise:
  "raises (\<lambda>e. \<exists>key \<in> fst ` set ps. key \<notin> set excluded \<and> config_error key e) (resolveFields h ctx excluded [] d ps acc)"
proof (induction ps arbitrary: acc)
  case (Cons p ps)
  obtain key v where p: "p = (key, v)" by fastforce
  have "raises (\<lambda>e. \<exists>key \<in> fst ` set (p # ps). key \<notin> set excluded \<and> config_error key e)
      (resolveFields h ctx excluded [] d ps acc')" for acc'
    by (rule raises_mono [OF Cons.IH]) auto
  moreover have "key \<notin> set excluded \<Longrightarrow> raises (\<lambda>e. \<exists>key \<in> fst ` set (p # ps). key \<notin> set excluded \<and> config_error key e)
      (resolveValue h ctx excluded key d v)"
    by (rule raises_mono [OF resolution_raises(1)]) (auto simp: p)
  ultimately show ?case by (auto simp: p field_path_def intro!: raises_intros)
qed (auto intro!: raises_intros)

lemma fields_pointwise:
  assumes "resolveFields h ctx excluded path d ps acc st = (Inr result, st')"
    and "distinct (map fst ps)" and "''__proto__'' \<notin> fst ` set ps"
  shows "case map_of ps key of
      None \<Rightarrow> map_of result key = map_of acc key
    | Some v \<Rightarrow> if key \<in> set excluded then map_of result key = Some v
        else \<exists>r s s'. resolveValue h ctx excluded (field_path path key) d v s = (Inr r, s') \<and> map_of result key = Some r"
  using assms
proof (induction ps arbitrary: acc st)
  case (Cons p ps)
  obtain k v where p: "p = (k, v)" by fastforce
  from Cons.prems(1) obtain r st1 where r: "(if k \<in> set excluded then retM v
      else resolveValue h ctx excluded (field_path path k) d v) st = (Inr r, st1)"
    and rest: "resolveFields h ctx excluded path d ps (assign_prop k r acc) st1 = (Inr result, st')"
    by (auto simp: p bindM_def split: prod.splits sum.splits)
  have none: "map_of ps k = None" using Cons.prems(2) by (simp add: p map_of_eq_None_iff)
  have IH: "case map_of ps key of
      None \<Rightarrow> map_of result key = map_of (assign_prop k r acc) key
    | Some v \<Rightarrow> if key \<in> set excluded then map_of result key = Some v
        else \<exists>r s s'. resolveValue h ctx excluded (field_path path key) d v s = (Inr r, s') \<and> map_of result key = Some r"
    using Cons.IH [OF rest] Cons.prems(2,3) by (simp add: p)
  have proto: "k \<noteq> ''__proto__''" using Cons.prems(3) by (auto simp: p)
  show ?case
  proof (cases "key = k")
    case True
    then have "map_of result key = Some r" using IH none proto by (simp add: map_of_assign_prop)
    then show ?thesis
      using r by (cases "k \<in> set excluded") (auto simp: p True retM_def)
  next
    case False
    then have "map_of (assign_prop k r acc) key = map_of acc key" by (simp add: map_of_assign_prop)
    then show ?thesis using IH False by (simp only: p map_of.simps fst_conv) simp
  qed
qed (simp add: retM_def)

lemma fields_keys:
  assumes "resolveFields h ctx excluded path d ps acc st = (Inr result, st')" and "''__proto__'' \<notin> fst ` set ps"
  shows "fst ` set result = fst ` set ps \<union> fst ` set acc"
  using assms
proof (induction ps arbitrary: acc st)
  case (Cons p ps)
  obtain k v where p: "p = (k, v)" by fastforce
  from Cons.prems(1) obtain r st1 where
    "resolveFields h ctx excluded path d ps (assign_prop k r acc) st1 = (Inr result, st')"
    by (auto simp: p bindM_def split: prod.splits sum.splits)
  then have "fst ` set result = fst ` set ps \<union> fst ` set (assign_prop k r acc)" using Cons by simp
  moreover have "fst ` set (assign_prop k r acc) = dom (map_of (assign_prop k r acc))"
    by (simp add: dom_map_of_conv_image_fst)
  ultimately show ?case
    using Cons.prems(2) by (auto simp: p map_of_assign_prop dom_map_of_conv_image_fst)
qed (simp add: retM_def)


section \<open>What stays hidden\<close>

lemma bind_result:
  "bindM m f st = (Inr y, st') \<Longrightarrow> (\<And>x st1. m st = (Inr x, st1) \<Longrightarrow> f x st1 = (Inr y, st') \<Longrightarrow> Q) \<Longrightarrow> Q"
  by (auto simp: bindM_def split: prod.splits sum.splits)

lemma env_view_bound:
  assumes "map_of (buildEnvView P) k = Some v"
  shows "\<exists>raw x. ps_allowlist P = Some raw \<and> k \<in> set (env_keys raw) \<and> ps_env P k = Some x \<and> v = JStr x"
proof -
  obtain raw where raw: "ps_allowlist P = Some raw" "raw \<noteq> []"
    using assms by (auto simp: buildEnvView_def split: option.splits if_splits)
  have "map_of (fold (\<lambda>k env. case ps_env P k of Some v \<Rightarrow> assign_prop k (JStr v) env | None \<Rightarrow> env) ks acc) k = Some v
      \<Longrightarrow> (k \<in> set ks \<and> (\<exists>x. ps_env P k = Some x \<and> v = JStr x)) \<or> map_of acc k = Some v" for ks acc
  proof (induction ks arbitrary: acc)
    case (Cons a ks)
    let ?acc = "case ps_env P a of Some v \<Rightarrow> assign_prop a (JStr v) acc | None \<Rightarrow> acc"
    have "(k \<in> set ks \<and> (\<exists>x. ps_env P k = Some x \<and> v = JStr x)) \<or> map_of ?acc k = Some v"
      using Cons.IH [of ?acc] Cons.prems by simp
    then show ?case by (auto simp: map_of_assign_prop split: option.splits if_splits)
  qed simp
  from this [of "env_keys raw" "[]"] assms raw show ?thesis by (auto simp: buildEnvView_def)
qed

lemma sensitive_redacted:
  assumes "map_of (sanitizeResponseHeaders h source) k = Some v" and "isSensitiveHeaderName h k"
  shows "v = JStr REDACTED"
proof -
  have "map_of (fold (\<lambda>(name, x). assign_prop name
       (JStr (if isSensitiveHeaderName h name then REDACTED else to_js_string h x))) ps acc) k = Some v
      \<Longrightarrow> v = JStr REDACTED \<or> map_of acc k = Some v" for ps acc
  proof (induction ps arbitrary: acc)
    case (Cons p ps)
    obtain name x where p: "p = (name, x)" by fastforce
    let ?acc = "assign_prop name (JStr (if isSensitiveHeaderName h name then REDACTED else to_js_string h x)) acc"
    have "v = JStr REDACTED \<or> map_of ?acc k = Some v" using Cons.IH [of ?acc] Cons.prems by (simp add: p)
    then show ?case using assms(2) by (auto simp: map_of_assign_prop split: if_splits)
  qed simp
  from this [of source "[]"] assms(1) show ?thesis by (auto simp: sanitizeResponseHeaders_def)
qed

lemma trigger_view_headers:
  assumes "buildTriggerView h trigger st = (Inr v, st')"
  shows "\<exists>i t. v = JObj i t \<and> (\<forall>hv. map_of t ''headers'' = Some hv \<longrightarrow>
    (\<exists>j source. hv = JObj j (sanitizeResponseHeaders h source)))"
  using assms
  by (auto simp: buildTriggerView_def new_object_def retM_def Let_def split: option.splits if_splits elim!: bind_result)
    (rule exI, rule refl)+

text \<open>C20. Under \<open>$env\<close> a template can read only the environment variables that the operator listed, and under
  the headers of \<open>$trigger\<close> no value of a header whose name marks it as a credential.\<close>

theorem context_hides_secrets:
  assumes "buildExpressionContext P nodeInput xc nodeMap meta st = (Inr ctx, st')"
  shows "\<exists>i env j t. map_of ctx ''$env'' = Some (JObj i env) \<and> map_of ctx ''$trigger'' = Some (JObj j t)
    \<and> (\<forall>k v. map_of env k = Some v \<longrightarrow>
         (\<exists>raw x. ps_allowlist P = Some raw \<and> k \<in> set (env_keys raw) \<and> ps_env P k = Some x \<and> v = JStr x))
    \<and> (\<forall>hv. map_of t ''headers'' = Some hv \<longrightarrow> (\<exists>l hs. hv = JObj l hs
         \<and> (\<forall>name v. isSensitiveHeaderName (ps_host P) name \<and> map_of hs name = Some v \<longrightarrow> v = JStr REDACTED)))"
proof -
  from assms obtain trigger env st1 st2 st3 st4 where
    t: "buildTriggerView (ps_host P) (xc_trigger xc) st1 = (Inr trigger, st2)"
    and e: "new_object (buildEnvView P) st3 = (Inr env, st4)"
    and ctx: "map_of ctx ''$env'' = Some env" "map_of ctx ''$trigger'' = Some trigger"
    unfolding buildExpressionContext_def
    by (elim bind_result) (rule that, assumption, assumption, (clarsimp simp: retM_def)+)
  from e obtain i where env: "env = JObj i (buildEnvView P)" by (auto simp: new_object_def)
  from trigger_view_headers [OF t] obtain j ps where trigger: "trigger = JObj j ps" and headers:
    "\<And>hv. map_of ps ''headers'' = Some hv \<Longrightarrow> \<exists>l source. hv = JObj l (sanitizeResponseHeaders (ps_host P) source)"
    by blast
  have "\<exists>l hs. hv = JObj l hs \<and>
        (\<forall>name v. isSensitiveHeaderName (ps_host P) name \<and> map_of hs name = Some v \<longrightarrow> v = JStr REDACTED)"
    if "map_of ps ''headers'' = Some hv" for hv
    using headers [OF that] sensitive_redacted by blast
  then show ?thesis using ctx env trigger env_view_bound by blast
qed

section \<open>Keys of nodes\<close>

text \<open>The key of the \<open>p\<close>-th node: its label, numbered from the second occurrence on.\<close>

definition occurrence :: "(string \<times> string) list \<Rightarrow> nat \<Rightarrow> nat" where
  "occurrence entries p = count_list (map snd (take p entries)) (snd (entries ! p))"

definition nth_key :: "(string \<times> string) list \<Rightarrow> nat \<Rightarrow> string" where
  "nth_key entries p =
     (let l = snd (entries ! p); k = occurrence entries p
      in if k = 0 then l else l @ ''#'' @ show_nat (Suc k))"

lemma label_counts_get: "jget_or 0 (label_counts entries) l = count_list (map snd entries) l"
proof -
  have "jget_or 0 (fold (\<lambda>(_, l) m. jput l (jget_or 0 m l + 1) m) es m) l
      = jget_or 0 m l + count_list (map snd es) l" for es :: "(string \<times> string) list" and m :: "(string, nat) jmap"
    by (induction es arbitrary: m) (auto simp: jget_or_def)
  from this [of entries "[]"] show ?thesis by (simp add: label_counts_def jget_or_def)
qed

lemma disambiguate_run:
  assumes "distinct (map fst es)"
  defines "acc \<equiv> \<lambda>C. fold (disambiguate C) es ([], [])"
  shows "(\<forall>l. jget_or 0 C l \<noteq> 1 \<longrightarrow> jget_or 0 (fst (acc C)) l = count_list (map snd es) l)
    \<and> (\<forall>p < length es. map_of (snd (acc C)) (fst (es ! p)) = Some
        (if jget_or 0 C (snd (es ! p)) = 1 then snd (es ! p) else nth_key es p))"
  using assms(1) unfolding acc_def
proof (induction es rule: rev_induct)
  case (snoc e es)
  obtain i l where e: "e = (i, l)" by fastforce
  obtain indices result where run: "fold (disambiguate C) es ([], []) = (indices, result)" by fastforce
  have old: "map_of result (fst (es ! p)) = Some
      (if jget_or 0 C (snd (es ! p)) = 1 then snd (es ! p) else nth_key es p)" "fst (es ! p) \<noteq> i"
    if "p < length es" for p
    using snoc that by (auto simp: run e)
  have idx: "jget_or 0 indices l' = count_list (map snd es) l'" if "jget_or 0 C l' \<noteq> 1" for l'
    using snoc that by (simp add: run)
  have keys: "nth_key (es @ [e]) p = nth_key es p" if "p < length es" for p
    using that by (simp add: nth_key_def occurrence_def nth_append)
  have step: "fold (disambiguate C) (es @ [e]) ([], []) =
      (if jget_or 0 C l = 1 then (indices, jput i l result)
       else (jput l (jget_or 0 indices l + 1) indices, jput i (nth_key (es @ [e]) (length es)) result))"
    using idx [of l]
    by (simp add: run) (simp add: disambiguate_def e Let_def nth_key_def occurrence_def)
  have counts: "\<forall>l'. jget_or 0 C l' \<noteq> 1 \<longrightarrow>
      jget_or 0 (fst (fold (disambiguate C) (es @ [e]) ([], []))) l' = count_list (map snd (es @ [e])) l'"
    unfolding step using idx by (auto simp: e)
  have "map_of (snd (fold (disambiguate C) (es @ [e]) ([], []))) (fst ((es @ [e]) ! p)) = Some
      (if jget_or 0 C (snd ((es @ [e]) ! p)) = 1 then snd ((es @ [e]) ! p) else nth_key (es @ [e]) p)"
    if "p < length (es @ [e])" for p
  proof (cases "p = length es")
    case True
    then show ?thesis unfolding step by (simp add: e)
  next
    case False
    then have "p < length es" using that by simp
    then show ?thesis unfolding step using old [of p] keys [of p] by (simp add: nth_append)
  qed
  then show ?case using counts by blast
qed simp

lemma keys_exact:
  assumes "distinct (map fst entries)" and "p < length entries"
  shows "map_of (buildDisambiguatedKeys entries) (fst (entries ! p)) = Some (nth_key entries p)"
proof -
  have "count_list (map snd entries) (snd (entries ! p)) = 1 \<Longrightarrow> occurrence entries p = 0"
  proof -
    assume one: "count_list (map snd entries) (snd (entries ! p)) = 1"
    have "map snd entries = map snd (take p entries) @ snd (entries ! p) # map snd (drop (Suc p) entries)"
      using assms(2) by (metis id_take_nth_drop list.simps(9) map_append)
    then have "count_list (map snd entries) (snd (entries ! p))
        = Suc (occurrence entries p + count_list (map snd (drop (Suc p) entries)) (snd (entries ! p)))"
      by (simp add: occurrence_def)
    then show ?thesis using one by simp
  qed
  then show ?thesis
    using disambiguate_run [OF assms(1), of "label_counts entries"] assms(2)
    by (auto simp: buildDisambiguatedKeys_def label_counts_get nth_key_def)
qed

lemma numbered_inject:
  assumes "a @ ''#'' @ show_nat m = b @ ''#'' @ show_nat n"
  shows "a = b \<and> m = n"
proof -
  have digits: "takeWhile (\<lambda>c. c \<noteq> CHR ''#'') (rev (s @ ''#'' @ show_nat k)) = rev (show_nat k)" for s k
  proof -
    have "\<not> is_digit CHR ''#''" by (simp add: is_digit_def)
    then have "CHR ''#'' \<notin> set (show_nat k)" using show_nat_digits [of k] by blast
    then show ?thesis by (simp add: takeWhile_append)
  qed
  have "rev (show_nat m) = rev (show_nat n)"
    using digits [of a m, unfolded assms] digits [of b n] by (rule trans [OF sym])
  then have "m = n" by simp
  then show ?thesis using assms by simp
qed

definition clashes :: "(string \<times> string) list \<Rightarrow> bool" where
  "clashes entries = (\<exists>l \<in> snd ` set entries. \<exists>l' \<in> snd ` set entries. \<exists>n. l = l' @ ''#'' @ show_nat n)"

lemma occurrence_less:
  assumes "p < q" and "q < length entries" and "snd (entries ! p) = snd (entries ! q)"
  shows "occurrence entries p < occurrence entries q"
proof -
  have "take q entries = take p entries @ entries ! p # take (q - Suc p) (drop (Suc p) entries)"
    using assms(1,2) by (metis Cons_nth_drop_Suc Suc_diff_Suc less_trans take_Suc_Cons take_add le_add_diff_inverse less_imp_le)
  then show ?thesis by (simp add: occurrence_def assms(3))
qed

lemma nth_key_inject:
  assumes "p < q" and "q < length entries" and "\<not> clashes entries"
  shows "nth_key entries p \<noteq> nth_key entries q"
proof (cases "snd (entries ! p) = snd (entries ! q)")
  case True
  then show ?thesis
    using occurrence_less [OF assms(1,2) True] by (auto simp: nth_key_def Let_def)
next
  case False
  have "snd (entries ! p) \<in> snd ` set entries" "snd (entries ! q) \<in> snd ` set entries"
    using assms(1,2) by simp_all
  then have "snd (entries ! p) \<noteq> snd (entries ! q) @ ''#'' @ show_nat n"
    "snd (entries ! q) \<noteq> snd (entries ! p) @ ''#'' @ show_nat n"
    "snd (entries ! p) @ ''#'' @ show_nat n \<noteq> snd (entries ! q)" for n
    using assms(3) unfolding clashes_def by metis+
  then show ?thesis
    using False by (auto simp: nth_key_def Let_def dest: numbered_inject [simplified])
qed

text \<open>C21. Every node has a key: its label, numbered from the second node of that label on. Two nodes never share
  a key, provided no label looks like a numbered form of another.\<close>

theorem node_keys_unique:
  assumes "distinct (map fst entries)" and "p < length entries" and "q < length entries" and "p \<noteq> q"
    and "\<not> clashes entries"
  shows "map_of (buildDisambiguatedKeys entries) (fst (entries ! p)) = Some (nth_key entries p)
    \<and> map_of (buildDisambiguatedKeys entries) (fst (entries ! q)) \<noteq> Some (nth_key entries p)"
proof -
  have "nth_key entries p \<noteq> nth_key entries q"
    using assms(2-5) nth_key_inject [of p q entries] nth_key_inject [of q p entries]
    by (cases "p < q") (simp, metis linorder_neqE_nat)
  then show ?thesis using keys_exact [OF assms(1)] assms(2,3) by simp
qed

theorem node_keys_unique_witness:
  "map_of (buildDisambiguatedKeys [(''1'', ''A''), (''2'', ''B''), (''3'', ''A'')]) ''3'' = Some ''A#2''
    \<and> map_of (buildDisambiguatedKeys [(''1'', ''A''), (''2'', ''B''), (''3'', ''A'')]) ''1'' \<noteq> Some ''A#2''"
proof -
  let ?es = "[(''1'', ''A''), (''2'', ''B''), (''3'', ''A'')]"
  have "nth_key ?es 2 = ''A#2''" by code_simp
  moreover have "\<not> clashes ?es" by (auto simp: clashes_def)
  ultimately show ?thesis using node_keys_unique [of ?es 2 0] by simp
qed

text \<open>A label that looks like a numbered one takes the key of another node.\<close>

theorem node_keys_collide:
  "buildDisambiguatedKeys [(''1'', ''A''), (''2'', ''A''), (''3'', ''A#2'')]
    = [(''1'', ''A''), (''2'', ''A#2''), (''3'', ''A#2'')]"
  by code_simp

section \<open>Concrete runs\<close>

definition sample_process :: process where
  "sample_process = \<lparr>ps_host = sample_host, ps_nowIso = (\<lambda>_. ''now''), ps_allowlist = Some ''REGION, MODE'',
     ps_env = (\<lambda>k. if k = ''REGION'' then Some ''eu'' else if k = ''DB'' then Some ''pw'' else None)\<rparr>"

definition sample_context :: exec_context where
  "sample_context = \<lparr>xc_executionId = ''e'', xc_workflowId = ''w'', xc_variables = JUndef, xc_outputs = [],
     xc_structured = [], xc_loop = None, xc_item = None, xc_thread = None,
     xc_trigger = Some [(''headers'', JObj 0 [(''x-auth'', JStr ''pw''), (''accept'', JStr ''json'')])]\<rparr>"


theorem context_hides_secrets_witness:
  "\<exists>ctx st' i env. buildExpressionContext sample_process JNull sample_context [] \<lparr>em_startedAt = None, em_mode = None\<rparr>
      \<lparr>e_ticks = 0, e_next = 0\<rparr> = (Inr ctx, st')
    \<and> map_of ctx ''$env'' = Some (JObj i env) \<and> map_of env ''DB'' = None"
proof -
  obtain ctx st' where run: "buildExpressionContext sample_process JNull sample_context []
      \<lparr>em_startedAt = None, em_mode = None\<rparr> \<lparr>e_ticks = 0, e_next = 0\<rparr> = (Inr ctx, st')"
    using buildExpressionContext_returns by blast
  have "''DB'' \<notin> set (env_keys ''REGION, MODE'')" by code_simp
  moreover from context_hides_secrets [OF run] obtain i env where "map_of ctx ''$env'' = Some (JObj i env)"
    and "\<And>k v. map_of env k = Some v \<Longrightarrow> \<exists>raw. ps_allowlist sample_process = Some raw \<and> k \<in> set (env_keys raw)"
    by blast
  moreover from this(2) [of "''DB''"] have "map_of env ''DB'' = None \<or> ''DB'' \<in> set (env_keys ''REGION, MODE'')"
    by (cases "map_of env ''DB''") (auto simp: sample_process_def)
  ultimately show ?thesis using run by blast
qed

text \<open>A setting that is one expression with white space around it is not resolved to the value of the
  expression: it becomes a string.\<close>

lemma evaluateTemplate_text:
  assumes "compile template = Inr (TemplateLiteral parts)" and "evaluateTemplate h template ctx opts st = (Inr v, st')"
  shows "\<exists>s. v = JStr s"
proof -
  have "evaluateTemplateLiteral E ps st1 = (Inr v, st') \<Longrightarrow> \<exists>s. v = JStr s" for E ps st1
    by (auto simp: evaluateTemplateLiteral_def retM_def throwM_def elim!: bind_result split: if_splits)
  then show ?thesis
    using assms by (auto simp: evaluateTemplate_def evaluate_def entering_def liftE_def elim!: bind_result)
qed

definition padded_expression :: string where "padded_expression = '' {{ x }} ''"

theorem padded_expression_is_text:
  "is_full_expression padded_expression
    \<and> (\<forall>v st'. resolveString h ctx path padded_expression st = (Inr v, st') \<longrightarrow> js_typeof v = ''string'')"
proof
  show "is_full_expression padded_expression" by code_simp
  have "compile padded_expression = Inr (TemplateLiteral [TextPart '' '', ExprPart (Identifier ''x''), TextPart '' ''])"
    by code_simp
  note string_result = evaluateTemplate_text [OF this]
  have "find_sub ''{{'' padded_expression \<noteq> None" by code_simp
  then show "\<forall>v st'. resolveString h ctx path padded_expression st = (Inr v, st') \<longrightarrow> js_typeof v = ''string''"
    by (auto simp: resolveString_def catchM_def throwM_def retM_def mixed_result_def dest!: string_result
        elim!: bind_result split: if_splits prod.splits sum.splits)
qed

section \<open>Retried turns\<close>

text \<open>\<open>{{ $node["A"].output }}\<close>\<close>

definition upstream_template :: string where
  "upstream_template = ''{{ $node['' @ [CHR 0x22] @ ''A'' @ [CHR 0x22] @ ''].output }}''"

definition retry_node :: node where
  "retry_node = \<lparr>node_id = ''r'', node_type = ''ai_agent'', node_category = AI, node_label = ''R'',
     node_config = [(''systemPrompt'', JStr upstream_template)], node_isDisabled = False,
     node_containerId = None, node_toolOwnerId = None\<rparr>"

lemma upstream_fails:
  assumes "map_of ctx ''$node'' = Some (JObj i ps)" and "map_of ps ''A'' = None"
  shows "fst (resolveString sample_host ctx path upstream_template st) \<noteq> Inr v"
proof
  assume inr: "fst (resolveString sample_host ctx path upstream_template st) = Inr v"
  have tree: "compile upstream_template = Inr (MemberExpression
      (IndexExpression (Identifier ''$node'') (StringLiteral ''A'') False) ''output'' False)" by code_simp
  have "find_sub ''{{'' upstream_template \<noteq> None" by code_simp
  then obtain w st' where "evaluateTemplate sample_host upstream_template ctx no_options st = (Inr w, st')"
    using inr by (cases "evaluateTemplate sample_host upstream_template ctx no_options st")
      (auto simp: resolveString_def catchM_def throwM_def bindM_def split: sum.splits)
  then obtain x E st0 st1 st2 where "liftE (compile upstream_template) st = (Inr x, st0)"
    and E0: "new_Evaluator sample_host ctx no_options st0 = (Inr E, st1)" and "evaluate E 0 x st1 = (Inr w, st')"
    unfolding evaluateTemplate_def by (elim bind_result) blast
  then have run: "evaluate E 0 (MemberExpression
      (IndexExpression (Identifier ''$node'') (StringLiteral ''A'') False) ''output'' False) st1 = (Inr w, st')"
    by (simp add: liftE_def tree)
  have E: "ev_host E = sample_host" "ev_context E = ctx"
    using E0 by (auto simp: new_Evaluator_def retM_def elim!: bind_result)
  have "evaluateIdentifier E ''$node'' = Inr (JObj i ps)"
    using assms(1) by (simp add: evaluateIdentifier_def E starts_with_def obj_in_def obj_get_def)
  moreover have "obj_get sample_host ps ''A'' = JUndef"
    using assms(2) by (simp add: obj_get_def sample_host_def)
  ultimately show False
    using run by (auto simp: evaluate_def entering_def evaluateMemberExpression_def evaluateIndexExpression_def
        liftE_def retM_def throwM_def E nullish_or_def elim!: bind_result split: if_splits)
qed

lemma own_node_view:
  assumes "build_node_view xc [(v, n)] st = (Inr view, st')"
  shows "\<exists>i ps. view = JObj i ps \<and> (\<forall>k. k \<noteq> v \<and> k \<noteq> node_label n \<longrightarrow> map_of ps k = None)"
  using assms
  by (cases "jget_or JUndef (xc_outputs xc) v = JUndef")
    (auto simp: build_node_view_def nodes_with_output_def new_object_def retM_def Let_def buildDisambiguatedKeys_def
        label_counts_def disambiguate_def jget_or_def map_of_assign_prop elim!: bind_result)

text \<open>When the last turn of a node is retried, a reference to the output of another node does not resolve:
  only the node itself is known then, and the whole settings keep their templates.\<close>

theorem retry_settings_stay_raw:
  "fst (resolveRetryNodeConfig sample_process retry_node xc startedAt st) = node_config retry_node"
proof -
  let ?m = "bindM (new_object []) (\<lambda>nodeInput.
      bindM (buildExpressionContext sample_process nodeInput xc [(node_id retry_node, retry_node)]
          \<lparr>em_startedAt = startedAt, em_mode = None\<rparr>) (\<lambda>exprContext.
        resolveConfig (ps_host sample_process) (node_config retry_node) exprContext (node_type retry_node)))"
  have host: "ps_host sample_process = sample_host" by (simp add: sample_process_def)
  have "fst (?m st) \<noteq> Inr resolved" for resolved
  proof
    assume "fst (?m st) = Inr resolved"
    then obtain st' where "?m st = (Inr resolved, st')" by (metis prod.collapse)
    then obtain nodeInput ctx st1 st2 where
      c: "buildExpressionContext sample_process nodeInput xc [(node_id retry_node, retry_node)]
          \<lparr>em_startedAt = startedAt, em_mode = None\<rparr> st1 = (Inr ctx, st2)"
      and r: "resolveConfig sample_host (node_config retry_node) ctx (node_type retry_node) st2 = (Inr resolved, st')"
      unfolding host by (elim bind_result) blast
    from c obtain view st3 st4 where "build_node_view xc [(node_id retry_node, retry_node)] st3 = (Inr view, st4)"
      and node: "map_of ctx ''$node'' = Some view"
      unfolding buildExpressionContext_def
      by (elim bind_result) (rule that, assumption, (clarsimp simp: retM_def)+)
    then obtain i ps where view: "view = JObj i ps" "map_of ps ''A'' = None"
      using own_node_view [of xc "node_id retry_node" retry_node] by (force simp: retry_node_def)
    from r obtain x st5 st6 where "resolveString sample_host ctx ''systemPrompt'' upstream_template st5 = (Inr x, st6)"
      by (auto simp: resolveConfig_def retry_node_def EXPRESSION_EXCLUSIONS_def field_path_def jget_or_def elim!: bind_result)
    then show False using upstream_fails [of ctx i ps] node view by (metis fst_conv)
  qed
  then obtain e st' where "?m st = (Inl e, st')" by (metis prod.collapse sum.exhaust_sel)
  then show ?thesis by (simp add: resolveRetryNodeConfig_def)
qed

end
