(* ===== verification/Dfs.thy ===== *)
theory Dfs
  imports Prelude
begin

text \<open>
  The iterative three-colour depth-first search that \<open>detectCycle\<close>, \<open>identifyBackEdges\<close> and
  \<open>evaluateGraphCycleWarnings\<close> each spell out: a colour map, a stack of nodes with the index of
  the next outgoing edge (top first), and an action on every edge that meets a gray node, which
  may end the search. The locale \<open>dfs_client\<close> is the contract of that action; inside it the
  search is shown to classify all edges so that the others form an acyclic graph.
\<close>

section \<open>The search\<close>

datatype color = White | Gray | Black

definition whites :: "('v, color) jmap \<Rightarrow> 'v set" where
  "whites m = {v. map_of m v = Some White}"

lemma finite_whites [simp]: "finite (whites m)"
  by (rule finite_subset [of _ "dom (map_of m)"]) (auto simp: whites_def finite_dom_map_of)

lemma whites_jput: "c \<noteq> White \<Longrightarrow> whites (jput v c m) = whites m - {v}"
  by (auto simp: whites_def split: if_splits)

lemma card_whites_less:
  assumes "map_of m v = Some White" "c \<noteq> White"
  shows "card (whites (jput v c m)) < card (whites m)"
proof -
  have "v \<in> whites m" using assms(1) by (simp add: whites_def)
  then show ?thesis using card_Diff1_less [OF finite_whites] by (simp only: whites_jput [OF assms(2)])
qed

lemma card_whites_le: "c \<noteq> White \<Longrightarrow> card (whites (jput v c m)) \<le> card (whites m)"
  unfolding whites_jput by (rule card_mono) auto

function (sequential) dfs_loop ::
  "('v \<Rightarrow> 'e list) \<Rightarrow> ('e \<Rightarrow> 'v) \<Rightarrow> (('v \<times> nat) list \<Rightarrow> 'e \<Rightarrow> 's \<Rightarrow> 'r + 's) \<Rightarrow> ('v, color) jmap
    \<Rightarrow> ('v \<times> nat) list \<Rightarrow> 's \<Rightarrow> 'r + ('v, color) jmap \<times> 's" where
  "dfs_loop out tgt gray color [] s = Inr (color, s)"
| "dfs_loop out tgt gray color ((v, i) # rest) s =
     (if length (out v) \<le> i then dfs_loop out tgt gray (jput v Black color) rest s
      else
        let e = out v ! i; stack = (v, Suc i) # rest
        in case map_of color (tgt e) of
             Some Gray \<Rightarrow>
               (case gray stack e s of
                  Inl r \<Rightarrow> Inl r
                | Inr s' \<Rightarrow> dfs_loop out tgt gray color stack s')
           | Some White \<Rightarrow> dfs_loop out tgt gray (jput (tgt e) Gray color) ((tgt e, 0) # stack) s
           | _ \<Rightarrow> dfs_loop out tgt gray color stack s)"
  by pat_completeness auto

termination
proof (relation "measures [\<lambda>(out, tgt, gray, color, stack, s). card (whites color),
    \<lambda>(out, tgt, gray, color, stack, s). \<Sum>(v, i) \<leftarrow> stack. Suc (length (out v) - i)]", goal_cases)
  case 1
  show ?case by simp
next
  case (2 out tgt gray color v i rest s)
  have "card (whites (jput v Black color)) \<le> card (whites color)" by (rule card_whites_le) simp
  then show ?case by auto
qed (auto simp: card_whites_less)

text \<open>The outer loop: a search from every node that is still white.\<close>

fun dfs_starts ::
  "('v \<Rightarrow> 'e list) \<Rightarrow> ('e \<Rightarrow> 'v) \<Rightarrow> (('v \<times> nat) list \<Rightarrow> 'e \<Rightarrow> 's \<Rightarrow> 'r + 's) \<Rightarrow> 'v list
    \<Rightarrow> ('v, color) jmap \<Rightarrow> 's \<Rightarrow> 'r + ('v, color) jmap \<times> 's" where
  "dfs_starts out tgt gray [] color s = Inr (color, s)"
| "dfs_starts out tgt gray (n # ns) color s =
     (if map_of color n \<noteq> Some White then dfs_starts out tgt gray ns color s
      else case dfs_loop out tgt gray (jput n Gray color) [(n, 0)] s of
        Inl r \<Rightarrow> Inl r
      | Inr cs \<Rightarrow> dfs_starts out tgt gray ns (fst cs) (snd cs))"

definition all_white :: "'v list \<Rightarrow> ('v, color) jmap" where
  "all_white ns = fold (\<lambda>n. jput n White) ns []"

definition dfs :: "('v \<Rightarrow> 'e list) \<Rightarrow> ('e \<Rightarrow> 'v) \<Rightarrow> (('v \<times> nat) list \<Rightarrow> 'e \<Rightarrow> 's \<Rightarrow> 'r + 's) \<Rightarrow> 'v list
    \<Rightarrow> 's \<Rightarrow> 'r + ('v, color) jmap \<times> 's" where
  "dfs out tgt gray ns s = dfs_starts out tgt gray ns (all_white ns) s"

lemma map_of_all_white: "map_of (all_white ns) v = (if v \<in> set ns then Some White else None)"
proof -
  have "map_of (fold (\<lambda>n. jput n White) ns m) v = (if v \<in> set ns then Some White else map_of m v)" for m
    by (induction ns arbitrary: m) auto
  then show ?thesis by (simp add: all_white_def)
qed

section \<open>The contract of the action on gray edges\<close>

text \<open>
  \<open>rep s B\<close>: the accumulator \<open>s\<close> stands for the set \<open>B\<close> of edges, as pairs of a node and an index,
  that met a gray node. \<open>post r\<close>: what the result of an early end satisfies, given that the stack
  is a path and the edge leads back into it.
\<close>

fun stack_path :: "('v \<Rightarrow> 'e list) \<Rightarrow> ('e \<Rightarrow> 'v) \<Rightarrow> ('v \<times> nat) list \<Rightarrow> bool" where
  "stack_path out tgt ((x, j) # (y, i) # rest) =
     ((\<exists>e \<in> set (out y). tgt e = x) \<and> stack_path out tgt ((y, i) # rest))"
| "stack_path out tgt stack = True"

lemma stack_path_reach:
  "stack_path out tgt ((v, i) # rest) \<Longrightarrow> x \<in> fst ` set ((v, i) # rest) \<Longrightarrow>
    (x, v) \<in> {(y, tgt e) | y e. e \<in> set (out y)}\<^sup>*"
proof (induction rest arbitrary: v i)
  case (Cons yj rest)
  obtain y j where yj: "yj = (y, j)" by (cases yj)
  then have step: "(y, v) \<in> {(y, tgt e) | y e. e \<in> set (out y)}"
    and path: "stack_path out tgt ((y, j) # rest)"
    using Cons.prems(1) by auto
  show ?case
  proof (cases "x = v")
    case False
    then have "(x, y) \<in> {(y, tgt e) | y e. e \<in> set (out y)}\<^sup>*"
      using Cons.IH [OF path] Cons.prems(2) yj by auto
    then show ?thesis using step by (rule rtrancl_into_rtrancl)
  qed simp
qed simp

text \<open>Every node of the stack is entered from the one below by an edge of \<open>F\<close>.\<close>

fun trail :: "('v \<times> 'v) set \<Rightarrow> ('v \<times> nat) list \<Rightarrow> bool" where
  "trail F ((x, j) # (y, i) # rest) = ((y, x) \<in> F \<and> trail F ((y, i) # rest))"
| "trail F stack = True"

lemma trail_index: "trail F ((v, i) # rest) = trail F ((v, j) # rest)"
  by (cases rest) auto

lemma trail_mono: "trail F stack \<Longrightarrow> F \<subseteq> G \<Longrightarrow> trail G stack"
  by (induction F stack rule: trail.induct) auto

lemma trail_reach: "trail F ((v, i) # rest) \<Longrightarrow> x \<in> fst ` set ((v, i) # rest) \<Longrightarrow> (x, v) \<in> F\<^sup>*"
proof (induction rest arbitrary: v i)
  case (Cons yj rest)
  obtain y j where yj: "yj = (y, j)" by (cases yj)
  then have "(y, v) \<in> F" "trail F ((y, j) # rest)" using Cons.prems(1) by auto
  then show ?case
    using Cons.IH [of y j] Cons.prems(2) yj by (cases "x = v") (auto intro: rtrancl_into_rtrancl)
qed simp

locale dfs_client =
  fixes nodes :: "'v list" and out :: "'v \<Rightarrow> 'e list" and tgt :: "'e \<Rightarrow> 'v"
    and gray :: "('v \<times> nat) list \<Rightarrow> 'e \<Rightarrow> 's \<Rightarrow> 'r + 's"
    and rep :: "'s \<Rightarrow> ('v \<times> nat) set \<Rightarrow> bool" and post :: "'r \<Rightarrow> bool"
  assumes targets: "v \<in> set nodes \<Longrightarrow> e \<in> set (out v) \<Longrightarrow> tgt e \<in> set nodes"
    and gray_next: "rep s B \<Longrightarrow> i < length (out v) \<Longrightarrow> fst ` set ((v, i) # rest) \<subseteq> set nodes \<Longrightarrow>
      stack_path out tgt ((v, i) # rest) \<Longrightarrow>
      tgt (out v ! i) \<in> fst ` set ((v, i) # rest) \<Longrightarrow>
      gray ((v, Suc i) # rest) (out v ! i) s = Inr s' \<Longrightarrow> rep s' (insert (v, i) B)"
    and gray_stop: "i < length (out v) \<Longrightarrow> fst ` set ((v, i) # rest) \<subseteq> set nodes \<Longrightarrow>
      stack_path out tgt ((v, i) # rest) \<Longrightarrow>
      tgt (out v ! i) \<in> fst ` set ((v, i) # rest) \<Longrightarrow>
      gray ((v, Suc i) # rest) (out v ! i) s = Inl r \<Longrightarrow> post r"
begin

definition processed :: "('v, color) jmap \<Rightarrow> ('v \<times> nat) list \<Rightarrow> ('v \<times> nat) set" where
  "processed color stack =
     {(v, i). i < length (out v) \<and> (map_of color v = Some Black \<or> (\<exists>j. (v, j) \<in> set stack \<and> i < j))}"

definition forward :: "('v \<times> nat) set \<Rightarrow> ('v \<times> nat) set \<Rightarrow> ('v \<times> 'v) set" where
  "forward P B = (\<lambda>(v, i). (v, tgt (out v ! i))) ` (P - B)"

definition inv :: "'v set \<Rightarrow> ('v, color) jmap \<Rightarrow> ('v \<times> nat) list \<Rightarrow> ('v \<times> nat) set \<Rightarrow> bool" where
  "inv K color stack B \<longleftrightarrow>
     dom (map_of color) = set nodes \<and> K \<subseteq> set nodes \<and> (\<forall>k \<in> K. map_of color k \<noteq> Some White)
   \<and> distinct (map fst stack)
   \<and> (\<forall>v. map_of color v = Some Gray \<longleftrightarrow> v \<in> fst ` set stack)
   \<and> stack_path out tgt stack
   \<and> B \<subseteq> processed color stack
   \<and> acyclic (forward (processed color stack) B)
   \<and> (\<forall>u w. (u, w) \<in> forward (processed color stack) B \<longrightarrow> map_of color u = Some Black
        \<longrightarrow> map_of color w = Some Black)
   \<and> (\<forall>xs u j ys w. stack = xs @ (u, j) # ys \<longrightarrow> (u, w) \<in> forward (processed color stack) B
        \<longrightarrow> map_of color w = Some Black \<or> w \<in> fst ` set xs)"

lemma stack_path_index: "stack_path out tgt ((v, i) # rest) = stack_path out tgt ((v, j) # rest)"
  by (cases rest) auto


lemma invD:
  assumes "inv K color stack B"
  shows "dom (map_of color) = set nodes" "K \<subseteq> set nodes" "\<And>k. k \<in> K \<Longrightarrow> map_of color k \<noteq> Some White"
    "distinct (map fst stack)" "\<And>v. map_of color v = Some Gray \<longleftrightarrow> v \<in> fst ` set stack"
    "stack_path out tgt stack" "B \<subseteq> processed color stack"
    "acyclic (forward (processed color stack) B)"
    "\<And>u w. (u, w) \<in> forward (processed color stack) B \<Longrightarrow> map_of color u = Some Black
        \<Longrightarrow> map_of color w = Some Black"
    "\<And>xs u j ys w. stack = xs @ (u, j) # ys \<Longrightarrow> (u, w) \<in> forward (processed color stack) B
        \<Longrightarrow> map_of color w = Some Black \<or> w \<in> fst ` set xs"
proof -
  note i = assms [unfolded inv_def]
  show "dom (map_of color) = set nodes" using i by (elim conjE)
  show "K \<subseteq> set nodes" using i by (elim conjE)
  have "\<forall>k \<in> K. map_of color k \<noteq> Some White" using i by (elim conjE)
  then show "map_of color k \<noteq> Some White" if "k \<in> K" for k using that by blast
  show "distinct (map fst stack)" using i by (elim conjE)
  have "\<forall>v. map_of color v = Some Gray \<longleftrightarrow> v \<in> fst ` set stack" using i by (elim conjE)
  then show "map_of color v = Some Gray \<longleftrightarrow> v \<in> fst ` set stack" for v by (rule spec)
  show "stack_path out tgt stack" using i by (elim conjE)
  show "B \<subseteq> processed color stack" using i by (elim conjE)
  show "acyclic (forward (processed color stack) B)" using i by (elim conjE)
  have "\<forall>u w. (u, w) \<in> forward (processed color stack) B \<longrightarrow> map_of color u = Some Black
        \<longrightarrow> map_of color w = Some Black" using i by (elim conjE)
  then show "map_of color w = Some Black"
    if "(u, w) \<in> forward (processed color stack) B" "map_of color u = Some Black" for u w
    using that by blast
  have "\<forall>xs u j ys w. stack = xs @ (u, j) # ys \<longrightarrow> (u, w) \<in> forward (processed color stack) B
        \<longrightarrow> map_of color w = Some Black \<or> w \<in> fst ` set xs" using i by (elim conjE)
  then show "map_of color w = Some Black \<or> w \<in> fst ` set xs"
    if "stack = xs @ (u, j) # ys" "(u, w) \<in> forward (processed color stack) B" for xs u j ys w
    using that by metis
qed

lemma in_processed:
  "(u, k) \<in> processed color stack \<longleftrightarrow>
     k < length (out u) \<and> (map_of color u = Some Black \<or> (\<exists>j. (u, j) \<in> set stack \<and> k < j))"
  by (simp add: processed_def)

lemma inv_top:
  assumes "inv K color ((v, i) # rest) B"
  shows "map_of color v = Some Gray" "v \<in> set nodes" "v \<notin> fst ` set rest"
    "(v, i) \<notin> processed color ((v, i) # rest)"
proof -
  show g: "map_of color v = Some Gray" using invD(5) [OF assms, of v] by simp
  then show "v \<in> set nodes" using invD(1) [OF assms] by blast
  show nin: "v \<notin> fst ` set rest" using invD(4) [OF assms] by simp
  show "(v, i) \<notin> processed color ((v, i) # rest)"
    using g nin by (auto simp: in_processed image_iff)
qed

lemma processed_next:
  assumes "i < length (out v)" and "v \<notin> fst ` set rest"
  shows "processed color ((v, Suc i) # rest) = insert (v, i) (processed color ((v, i) # rest))"
proof (rule set_eqI)
  fix x
  have "\<And>j. (v, j) \<notin> set rest" using assms(2) by force
  then show "x \<in> processed color ((v, Suc i) # rest) \<longleftrightarrow> x \<in> insert (v, i) (processed color ((v, i) # rest))"
    using assms(1) by (cases x) (auto simp: in_processed less_Suc_eq)
qed

lemma processed_pop:
  assumes "length (out v) \<le> i" and "v \<notin> fst ` set rest"
  shows "processed (jput v Black color) rest = processed color ((v, i) # rest)"
proof (rule set_eqI)
  fix x
  have "\<And>j. (v, j) \<notin> set rest" using assms(2) by force
  then show "x \<in> processed (jput v Black color) rest \<longleftrightarrow> x \<in> processed color ((v, i) # rest)"
    using assms(1) by (cases x) (auto simp: in_processed)
qed

lemma processed_push:
  assumes "map_of color t = Some White" and "t \<notin> fst ` set stack"
  shows "processed (jput t Gray color) ((t, 0) # stack) = processed color stack"
proof (rule set_eqI)
  fix x
  have "\<And>j. (t, j) \<notin> set stack" using assms(2) by force
  then show "x \<in> processed (jput t Gray color) ((t, 0) # stack) \<longleftrightarrow> x \<in> processed color stack"
    using assms(1) by (cases x) (auto simp: in_processed)
qed

lemma forward_insert:
  assumes "x \<notin> P" and "B \<subseteq> P"
  shows "forward (insert x P) (insert x B) = forward P B"
    and "forward (insert x P) B = insert (fst x, tgt (out (fst x) ! snd x)) (forward P B)"
proof -
  have "insert x P - insert x B = P - B" "insert x P - B = insert x (P - B)" using assms by auto
  then show "forward (insert x P) (insert x B) = forward P B"
    and "forward (insert x P) B = insert (fst x, tgt (out (fst x) ! snd x)) (forward P B)"
    by (auto simp: forward_def split_beta)
qed

lemma inv_pop:
  assumes inv: "inv K color ((v, i) # rest) B" and i: "length (out v) \<le> i"
  shows "inv K (jput v Black color) rest B"
proof -
  note top = inv_top [OF inv]
  have P: "processed (jput v Black color) rest = processed color ((v, i) # rest)"
    by (rule processed_pop [OF i top(3)])
  have "stack_path out tgt rest" using invD(6) [OF inv] by (cases rest) auto
  moreover have "map_of (jput v Black color) w = Some Black"
    if e: "(u, w) \<in> forward (processed color ((v, i) # rest)) B"
      and u: "map_of (jput v Black color) u = Some Black" for u w
  proof (cases "u = v")
    case True
    then show ?thesis using invD(10) [OF inv, of "[]" v i rest w] e by auto
  next
    case False
    then show ?thesis using invD(9) [OF inv e] u by auto
  qed
  moreover have "map_of (jput v Black color) w = Some Black \<or> w \<in> fst ` set xs"
    if "rest = xs @ (u, j) # ys" and "(u, w) \<in> forward (processed color ((v, i) # rest)) B" for xs u j ys w
    using invD(10) [OF inv, of "(v, i) # xs" u j ys w] that by auto
  moreover have "map_of (jput v Black color) u = Some Gray \<longleftrightarrow> u \<in> fst ` set rest" for u
    using invD(5) [OF inv, of u] top(3) by (auto split: if_splits)
  ultimately show ?thesis
    using invD(1-4,7,8) [OF inv] top(2) unfolding inv_def P by auto
qed

lemma inv_gray:
  assumes inv: "inv K color ((v, i) # rest) B" and i: "i < length (out v)"
  shows "inv K color ((v, Suc i) # rest) (insert (v, i) B)"
proof -
  note top = inv_top [OF inv]
  have P: "processed color ((v, Suc i) # rest) = insert (v, i) (processed color ((v, i) # rest))"
    by (rule processed_next [OF i top(3)])
  have F: "forward (insert (v, i) (processed color ((v, i) # rest))) (insert (v, i) B)
      = forward (processed color ((v, i) # rest)) B"
    by (rule forward_insert [OF top(4) invD(7) [OF inv]])
  have "map_of color w = Some Black \<or> w \<in> fst ` set xs"
    if "(v, Suc i) # rest = xs @ (u, j) # ys" and e: "(u, w) \<in> forward (processed color ((v, i) # rest)) B"
    for xs u j ys w
  proof (cases xs)
    case Nil
    then show ?thesis using invD(10) [OF inv, of "[]" u i ys w] that by auto
  next
    case (Cons x xs')
    then show ?thesis using invD(10) [OF inv, of "(v, i) # xs'" u j ys w] that by auto
  qed
  moreover have "stack_path out tgt ((v, Suc i) # rest)"
    using invD(6) [OF inv] stack_path_index by blast
  ultimately show ?thesis
    using invD(1-5,7-9) [OF inv] unfolding inv_def P F by auto
qed


lemma black_closed:
  assumes "inv K color stack B" and "map_of color u = Some Black"
    and "(u, w) \<in> (forward (processed color stack) B)\<^sup>*"
  shows "map_of color w = Some Black"
  using assms(3,2) by induction (auto dest: invD(9) [OF assms(1)])

text \<open>Consuming an edge without marking it: the target must not lead back to its source.\<close>

lemma inv_keep:
  assumes inv: "inv K color ((v, i) # rest) B" and i: "i < length (out v)"
    and t: "t = tgt (out v ! i)" and black: "map_of color t = Some Black"
  shows "inv K color ((v, Suc i) # rest) B"
proof -
  note top = inv_top [OF inv]
  let ?P = "processed color ((v, i) # rest)"
  have P: "processed color ((v, Suc i) # rest) = insert (v, i) ?P"
    by (rule processed_next [OF i top(3)])
  have F: "forward (insert (v, i) ?P) B = insert (v, t) (forward ?P B)"
    using forward_insert(2) [OF top(4) invD(7) [OF inv]] t by simp
  have "(t, v) \<notin> (forward ?P B)\<^sup>*" using black_closed [OF inv black] top(1) by auto
  then have "acyclic (insert (v, t) (forward ?P B))"
    using invD(8) [OF inv] by (simp add: acyclic_insert)
  moreover have "map_of color w = Some Black"
    if "(u, w) \<in> insert (v, t) (forward ?P B)" "map_of color u = Some Black" for u w
    using that top(1) invD(9) [OF inv, of u w] by auto
  moreover have "map_of color w = Some Black \<or> w \<in> fst ` set xs"
    if s: "(v, Suc i) # rest = xs @ (u, j) # ys" and e: "(u, w) \<in> insert (v, t) (forward ?P B)" for xs u j ys w
  proof (cases "(u, w) = (v, t)")
    case True
    then show ?thesis using black by simp
  next
    case False
    then have e': "(u, w) \<in> forward ?P B" using e by blast
    show ?thesis
    proof (cases xs)
      case Nil
      then show ?thesis using invD(10) [OF inv _ e', of "[]" i ys] s by auto
    next
      case (Cons x xs')
      then show ?thesis using invD(10) [OF inv _ e', of "(v, i) # xs'" j ys] s by auto
    qed
  qed
  moreover have "stack_path out tgt ((v, Suc i) # rest)"
    using invD(6) [OF inv] stack_path_index by blast
  ultimately show ?thesis
    using invD(1-5,7) [OF inv] unfolding inv_def P F by auto
qed

lemma inv_push:
  assumes inv: "inv K color ((v, i) # rest) B" and i: "i < length (out v)"
    and t: "t = tgt (out v ! i)" and white: "map_of color t = Some White"
  shows "inv K (jput t Gray color) ((t, 0) # (v, Suc i) # rest) B"
proof -
  note top = inv_top [OF inv]
  let ?P = "processed color ((v, i) # rest)"
  have tn: "t \<notin> fst ` set ((v, Suc i) # rest)" "t \<noteq> v"
    using white invD(5) [OF inv, of t] top(1) by auto
  have P: "processed (jput t Gray color) ((t, 0) # (v, Suc i) # rest) = insert (v, i) ?P"
    using processed_push [OF white tn(1)] processed_next [OF i top(3), of color] by simp
  have F: "forward (insert (v, i) ?P) B = insert (v, t) (forward ?P B)"
    using forward_insert(2) [OF top(4) invD(7) [OF inv]] t by simp
  have none: "(t, w) \<notin> forward ?P B" for w
  proof
    assume "(t, w) \<in> forward ?P B"
    then obtain k where "(t, k) \<in> ?P" by (auto simp: forward_def)
    then show False using white tn by (auto simp: in_processed image_iff)
  qed
  have "(t, v) \<notin> (forward ?P B)\<^sup>*"
    using none tn(2) by (metis converse_rtranclE)
  then have "acyclic (insert (v, t) (forward ?P B))"
    using invD(8) [OF inv] by (simp add: acyclic_insert)
  moreover have "map_of (jput t Gray color) w = Some Black"
    if "(u, w) \<in> insert (v, t) (forward ?P B)" "map_of (jput t Gray color) u = Some Black" for u w
  proof -
    have "map_of color u = Some Black" "(u, w) \<in> forward ?P B"
      using that top(1) by (auto split: if_splits)
    from invD(9) [OF inv this(2,1)] show ?thesis using white by auto
  qed
  moreover have "map_of (jput t Gray color) w = Some Black \<or> w \<in> fst ` set xs"
    if s: "(t, 0) # (v, Suc i) # rest = xs @ (u, j) # ys"
      and e: "(u, w) \<in> insert (v, t) (forward ?P B)" for xs u j ys w
  proof (cases xs)
    case Nil
    then show ?thesis using s e none tn by auto
  next
    case (Cons x xs')
    then have x: "x = (t, 0)" and s': "(v, Suc i) # rest = xs' @ (u, j) # ys" using s by auto
    show ?thesis
    proof (cases "(u, w) = (v, t)")
      case True
      then show ?thesis using Cons x by simp
    next
      case False
      then have e': "(u, w) \<in> forward ?P B" using e by blast
      have "map_of color w = Some Black \<or> w \<in> fst ` set xs'"
      proof (cases xs')
        case Nil
        then show ?thesis using invD(10) [OF inv _ e', of "[]" i ys] s' by auto
      next
        case (Cons y ys')
        then show ?thesis using invD(10) [OF inv _ e', of "(v, i) # ys'" j ys] s' by auto
      qed
      then show ?thesis using Cons white by auto
    qed
  qed
  moreover have "stack_path out tgt ((t, 0) # (v, Suc i) # rest)"
    using invD(6) [OF inv] stack_path_index [of v i rest "Suc i"] i t by auto
  moreover have "B \<subseteq> insert (v, i) ?P" using invD(7) [OF inv] by blast
  moreover have "dom (map_of (jput t Gray color)) = set nodes"
    using invD(1) [OF inv] white by auto
  moreover have "\<forall>k \<in> K. map_of (jput t Gray color) k \<noteq> Some White" using invD(3) [OF inv] by auto
  moreover have "distinct (map fst ((t, 0) # (v, Suc i) # rest))" using invD(4) [OF inv] tn by auto
  moreover have "\<forall>u. map_of (jput t Gray color) u = Some Gray
      \<longleftrightarrow> u \<in> fst ` set ((t, 0) # (v, Suc i) # rest)"
    using invD(5) [OF inv] by auto
  ultimately show ?thesis
    using invD(2) [OF inv] unfolding inv_def P F by blast
qed


section \<open>Marked edges lead back\<close>

text \<open>
  A marked edge meets a node of the stack, from which the edges that are kept lead to its source:
  the marked edges go back along the kept ones.
\<close>

definition closes :: "('v \<times> 'v) set \<Rightarrow> ('v \<times> nat) set \<Rightarrow> bool" where
  "closes F B = (\<forall>(v, i) \<in> B. (tgt (out v ! i), v) \<in> F\<^sup>*)"

definition good :: "'v set \<Rightarrow> ('v, color) jmap \<Rightarrow> ('v \<times> nat) list \<Rightarrow> ('v \<times> nat) set \<Rightarrow> bool" where
  "good K color stack B \<longleftrightarrow> inv K color stack B
     \<and> trail (forward (processed color stack) B) stack \<and> closes (forward (processed color stack) B) B"

lemma goodD: "good K color stack B \<Longrightarrow> inv K color stack B"
  by (simp add: good_def)

lemma closes_mono: "closes F B \<Longrightarrow> F \<subseteq> G \<Longrightarrow> closes G B"
  unfolding closes_def using rtrancl_mono [of F G] by blast

lemma good_pop:
  assumes good: "good K color ((v, i) # rest) B" and i: "length (out v) \<le> i"
  shows "good K (jput v Black color) rest B"
proof -
  note inv = goodD [OF good]
  have "trail (forward (processed color ((v, i) # rest)) B) rest" using good by (cases rest) (auto simp: good_def)
  then show ?thesis
    using good inv_pop [OF inv i] by (simp add: good_def processed_pop [OF i inv_top(3) [OF inv]])
qed

lemma good_gray:
  assumes good: "good K color ((v, i) # rest) B" and i: "i < length (out v)"
    and g: "tgt (out v ! i) \<in> fst ` set ((v, i) # rest)"
  shows "good K color ((v, Suc i) # rest) (insert (v, i) B)"
proof -
  note inv = goodD [OF good]
  let ?F = "forward (processed color ((v, i) # rest)) B"
  have F: "forward (processed color ((v, Suc i) # rest)) (insert (v, i) B) = ?F"
    using forward_insert(1) [OF inv_top(4) [OF inv] invD(7) [OF inv]]
    by (simp add: processed_next [OF i inv_top(3) [OF inv]])
  have trail: "trail ?F ((v, i) # rest)" and closes: "closes ?F B" using good by (simp_all add: good_def)
  have "closes ?F (insert (v, i) B)" using closes trail_reach [OF trail g] by (simp add: closes_def)
  then show ?thesis
    using inv_gray [OF inv i] trail trail_index [of ?F v i rest "Suc i"] by (simp add: good_def F)
qed

lemma forward_next:
  assumes "inv K color ((v, i) # rest) B" and "i < length (out v)" and "t = tgt (out v ! i)"
  shows "forward (processed color ((v, Suc i) # rest)) B
    = insert (v, t) (forward (processed color ((v, i) # rest)) B)"
  using forward_insert(2) [OF inv_top(4) [OF assms(1)] invD(7) [OF assms(1)]] assms(3)
  by (simp add: processed_next [OF assms(2) inv_top(3) [OF assms(1)]])

lemma good_extend:
  assumes "good K color ((v, i) # rest) B"
  shows "trail (insert e (forward (processed color ((v, i) # rest)) B)) ((v, j) # rest)"
    and "closes (insert e (forward (processed color ((v, i) # rest)) B)) B"
proof -
  let ?F = "forward (processed color ((v, i) # rest)) B"
  have F: "trail ?F ((v, i) # rest)" "closes ?F B" using assms by (simp_all add: good_def)
  show "trail (insert e ?F) ((v, j) # rest)"
    using trail_mono [OF F(1) subset_insertI [of _ e]] trail_index [of "insert e ?F" v i rest j] by blast
  show "closes (insert e ?F) B" by (rule closes_mono [OF F(2) subset_insertI])
qed

lemma good_keep:
  assumes good: "good K color ((v, i) # rest) B" and i: "i < length (out v)"
    and t: "t = tgt (out v ! i)" and black: "map_of color t = Some Black"
  shows "good K color ((v, Suc i) # rest) B"
proof -
  note inv = goodD [OF good]
  show ?thesis
    using inv_keep [OF inv i t black] good_extend [OF good, where e = "(v, t)"] by (simp add: good_def forward_next [OF inv i t])
qed

lemma good_push:
  assumes good: "good K color ((v, i) # rest) B" and i: "i < length (out v)"
    and t: "t = tgt (out v ! i)" and white: "map_of color t = Some White"
  shows "good K (jput t Gray color) ((t, 0) # (v, Suc i) # rest) B"
proof -
  note inv = goodD [OF good]
  have tn: "t \<notin> fst ` set ((v, Suc i) # rest)"
    using white invD(5) [OF inv, of t] inv_top(1) [OF inv] by auto
  show ?thesis
    using inv_push [OF inv i t white] good_extend [OF good, where e = "(v, t)"]
    by (simp add: good_def processed_push [OF white tn] forward_next [OF inv i t])
qed

section \<open>The loops\<close>

lemma good_seen:
  assumes "good K color stack B" and "M \<subseteq> set nodes" and "\<forall>k \<in> M. map_of color k \<noteq> Some White"
  shows "good (K \<union> M) color stack B"
  using assms unfolding good_def inv_def by auto

lemma dfs_loop_correct:
  assumes "good K color stack B" and "rep s B"
  shows "case dfs_loop out tgt gray color stack s of
       Inl r \<Rightarrow> post r
     | Inr cs \<Rightarrow> \<exists>B'. good K (fst cs) [] B' \<and> rep (snd cs) B'"
proof -
  have "out' = out \<Longrightarrow> tgt' = tgt \<Longrightarrow> gray' = gray \<Longrightarrow> good K color stack B \<Longrightarrow> rep s B \<Longrightarrow>
    (case dfs_loop out' tgt' gray' color stack s of
       Inl r \<Rightarrow> post r
     | Inr cs \<Rightarrow> \<exists>B'. good K (fst cs) [] B' \<and> rep (snd cs) B')" for out' tgt' gray'
  proof (induction out' tgt' gray' color stack s arbitrary: B rule: dfs_loop.induct)
    case (1 out' tgt' gray' color s)
    then show ?case by auto
  next
    case (2 out' tgt' gray' color v i rest s)
    note eq = "2.prems"(1-3) and good = "2.prems"(4) and rep = "2.prems"(5)
    note inv = goodD [OF good]
    note top = inv_top [OF inv]
    show ?case
    proof (cases "length (out v) \<le> i")
      case True
      then show ?thesis
        using "2.IH"(1) [OF _ eq good_pop [OF good True] rep] eq by simp
    next
      case False
      then have i: "i < length (out v)" by simp
      define t where "t = tgt (out v ! i)"
      have "t \<in> set nodes" using targets [OF top(2)] i by (auto simp: t_def)
      then obtain c where c: "map_of color t = Some c" using invD(1) [OF inv] by blast
      show ?thesis
      proof (cases c)
        case White
        have "case dfs_loop out tgt gray (jput t Gray color) ((t, 0) # (v, Suc i) # rest) s of
            Inl r \<Rightarrow> post r | Inr cs \<Rightarrow> \<exists>B'. good K (fst cs) [] B' \<and> rep (snd cs) B'"
          using "2.IH"(3) [of "out v ! i" "(v, Suc i) # rest" White B] good_push [OF good i t_def]
            rep i c White eq by (simp add: t_def)
        then show ?thesis using i c White eq by (simp add: t_def Let_def)
      next
        case Black
        have "case dfs_loop out tgt gray color ((v, Suc i) # rest) s of
            Inl r \<Rightarrow> post r | Inr cs \<Rightarrow> \<exists>B'. good K (fst cs) [] B' \<and> rep (snd cs) B'"
          using "2.IH"(5) [of "out v ! i" "(v, Suc i) # rest" Black B] good_keep [OF good i t_def]
            rep i c Black eq by (simp add: t_def)
        then show ?thesis using i c Black eq by (simp add: t_def Let_def)
      next
        case Gray
        then have g: "tgt (out v ! i) \<in> fst ` set ((v, i) # rest)"
          using invD(5) [OF inv, of t] c by (simp add: t_def)
        have nodes: "fst ` set ((v, i) # rest) \<subseteq> set nodes"
          using invD(1,5) [OF inv] by (metis domI subsetI)
        show ?thesis
        proof (cases "gray ((v, Suc i) # rest) (out v ! i) s")
          case (Inl r)
          then show ?thesis
            using gray_stop [OF i nodes invD(6) [OF inv] g Inl] i c Gray Inl eq by (simp add: t_def Let_def)
        next
          case (Inr s')
          have "case dfs_loop out tgt gray color ((v, Suc i) # rest) s' of
              Inl r \<Rightarrow> post r | Inr cs \<Rightarrow> \<exists>B'. good K (fst cs) [] B' \<and> rep (snd cs) B'"
            using "2.IH"(4) [of "out v ! i" "(v, Suc i) # rest" Gray s' "insert (v, i) B"]
              good_gray [OF good i g] gray_next [OF rep i nodes invD(6) [OF inv] g Inr] i c Gray Inr eq
            by (simp add: t_def)
          then show ?thesis using i c Gray Inr eq by (simp add: t_def Let_def)
        qed
      qed
    qed
  qed
  then show ?thesis using assms by blast
qed

declare dfs_loop.simps(2) [simp del]

lemma inv_start:
  assumes inv: "inv K color [] B" and n: "map_of color n = Some White"
  shows "inv (insert n K) (jput n Gray color) [(n, 0)] B"
proof -
  have P: "processed (jput n Gray color) [(n, 0)] = processed color []"
    using processed_push [OF n] by simp
  have "map_of (jput n Gray color) w = Some Black"
    if e: "(u, w) \<in> forward (processed color []) B" and "map_of (jput n Gray color) u = Some Black" for u w
  proof -
    have "map_of color u = Some Black" using that by (auto split: if_splits)
    then show ?thesis using invD(9) [OF inv e] n by auto
  qed
  moreover have "(n, w) \<notin> forward (processed color []) B" for w
    using n by (auto simp: forward_def in_processed)
  moreover have "n \<in> set nodes" using invD(1) [OF inv] n by blast
  moreover have "dom (map_of (jput n Gray color)) = set nodes"
    using invD(1) [OF inv] n by auto
  moreover have "\<forall>u. map_of (jput n Gray color) u = Some Gray \<longleftrightarrow> u \<in> fst ` set [(n, 0)]"
    using invD(5) [OF inv] by auto
  ultimately show ?thesis
    using invD(2,3,7,8) [OF inv] unfolding inv_def P by (auto simp: append_eq_Cons_conv Cons_eq_append_conv)
qed

lemma good_start:
  assumes good: "good K color [] B" and n: "map_of color n = Some White"
  shows "good (insert n K) (jput n Gray color) [(n, 0)] B"
  using inv_start [OF goodD [OF good] n] good processed_push [OF n, of "[]"] by (simp add: good_def)

lemma dfs_starts_correct:
  "good K color [] B \<Longrightarrow> rep s B \<Longrightarrow> set ns \<subseteq> set nodes \<Longrightarrow>
    (case dfs_starts out tgt gray ns color s of
       Inl r \<Rightarrow> post r
     | Inr cs \<Rightarrow> \<exists>B'. good (K \<union> set ns) (fst cs) [] B' \<and> rep (snd cs) B')"
proof (induction ns arbitrary: K color B s)
  case Nil
  then show ?case by auto
next
  case (Cons n ns)
  show ?case
  proof (cases "map_of color n = Some White")
    case False
    have "good (K \<union> {n}) color [] B"
      using good_seen [OF Cons.prems(1), of "{n}"] Cons.prems(3) False by simp
    moreover have "K \<union> {n} \<union> set ns = K \<union> set (n # ns)" by auto
    ultimately show ?thesis
      using Cons.IH [of "K \<union> {n}" color B s] Cons.prems(2,3) False
      by (cases "dfs_starts out tgt gray ns color s") simp_all
  next
    case True
    note run = dfs_loop_correct [OF good_start [OF Cons.prems(1) True] Cons.prems(2)]
    show ?thesis
    proof (cases "dfs_loop out tgt gray (jput n Gray color) [(n, 0)] s")
      case (Inl r)
      then show ?thesis using run True by simp
    next
      case (Inr cs)
      then obtain B' where "good (insert n K) (fst cs) [] B'" "rep (snd cs) B'" using run by auto
      from Cons.IH [OF this] show ?thesis using Cons.prems(3) True Inr
        by (cases "dfs_starts out tgt gray ns (fst cs) (snd cs)") simp_all
    qed
  qed
qed

text \<open>All edges, and the graph of those outside \<open>B\<close>.\<close>

definition all_edges :: "('v \<times> nat) set" where
  "all_edges = {(v, i). v \<in> set nodes \<and> i < length (out v)}"

lemma forward_all: "forward all_edges {} = {(v, tgt e) | v e. v \<in> set nodes \<and> e \<in> set (out v)}"
proof -
  have "(v, tgt e) \<in> forward all_edges {}" if v: "v \<in> set nodes" and e: "e \<in> set (out v)" for v e
  proof -
    obtain i where "i < length (out v)" "e = out v ! i" using e by (metis in_set_conv_nth)
    then show ?thesis using v unfolding forward_def all_edges_def by force
  qed
  moreover have "\<exists>e. tgt (out v ! i) = tgt e \<and> e \<in> set (out v)" if "i < length (out v)" for v i
    using that nth_mem by blast
  ultimately show ?thesis by (auto simp: forward_def all_edges_def)
qed

theorem dfs_correct:
  assumes "rep s {}"
  shows "case dfs out tgt gray nodes s of
       Inl r \<Rightarrow> post r
     | Inr cs \<Rightarrow> \<exists>B. B \<subseteq> all_edges \<and> rep (snd cs) B \<and> acyclic (forward all_edges B)
         \<and> closes (forward all_edges B) B"
proof -
  have "processed (all_white nodes) [] = {}"
    by (auto simp: processed_def map_of_all_white split: if_splits)
  then have "good {} (all_white nodes) [] {}"
    by (auto simp: good_def closes_def inv_def map_of_all_white forward_def acyclic_def split: if_splits)
  from dfs_starts_correct [OF this assms subset_refl]
  have run: "case dfs out tgt gray nodes s of
       Inl r \<Rightarrow> post r
     | Inr cs \<Rightarrow> \<exists>B'. good (set nodes) (fst cs) [] B' \<and> rep (snd cs) B'"
    unfolding dfs_def Un_empty_left .
  have "processed color [] = all_edges" if inv: "inv (set nodes) color [] B" for color B
  proof -
    have "map_of color v = Some Black \<longleftrightarrow> v \<in> set nodes" for v
    proof
      assume "v \<in> set nodes"
      then obtain c where "map_of color v = Some c" using invD(1) [OF inv] by blast
      moreover have "c \<noteq> White" using invD(3) [OF inv \<open>v \<in> set nodes\<close>] calculation by auto
      moreover have "c \<noteq> Gray" using invD(5) [OF inv, of v] calculation by auto
      ultimately show "map_of color v = Some Black" by (cases c) auto
    qed (use invD(1) [OF inv] in blast)
    then show ?thesis by (auto simp: processed_def all_edges_def)
  qed
  then have final: "B \<subseteq> all_edges \<and> acyclic (forward all_edges B) \<and> closes (forward all_edges B) B"
    if "good (set nodes) color [] B" for color B
    using invD(7,8) [OF goodD [OF that]] that by (auto simp: good_def)
  show ?thesis
  proof (cases "dfs out tgt gray nodes s")
    case (Inl r)
    then show ?thesis using run by simp
  next
    case (Inr cs)
    then show ?thesis using run final by auto
  qed
qed

end

end
