(* ===== verification/Cycles.thy ===== *)
theory Cycles
  imports Dfs Graph "HOL-Library.Multiset"
begin

text \<open>
  Cycle detection (\<open>cycle-detector.ts\<close>) and the identification of back edges
  (\<open>back-edge-identifier.ts\<close>). Both run the search of theory \<open>Dfs\<close>; each interprets its contract.
\<close>

section \<open>detectCycle\<close>

record cycle_result =
  hasCycle :: bool
  cyclePath :: "string list option"

text \<open>The nodes on the stack from the top down to \<open>neighbor\<close>.\<close>

fun stack_down_to :: "'v \<Rightarrow> ('v \<times> nat) list \<Rightarrow> 'v list" where
  "stack_down_to neighbor [] = []"
| "stack_down_to neighbor ((v, i) # stack) =
     v # (if v = neighbor then [] else stack_down_to neighbor stack)"

definition close_cycle :: "('v \<times> nat) list \<Rightarrow> 'v \<Rightarrow> unit \<Rightarrow> 'v list + unit" where
  "close_cycle stack neighbor _ = Inl (rev (neighbor # stack_down_to neighbor stack))"

definition detectCycle :: "graph_node list \<Rightarrow> graph_edge list \<Rightarrow> cycle_result" where
  "detectCycle nodes edges =
     (let nodeIds = jset_of (map gn_id nodes);
          adjacency = build_adjacency nodeIds sourceNodeId targetNodeId targetNodeId edges
      in case dfs (jget_or [] adjacency) id close_cycle nodeIds () of
           Inl path \<Rightarrow> \<lparr>hasCycle = True, cyclePath = Some path\<rparr>
         | Inr _ \<Rightarrow> \<lparr>hasCycle = False, cyclePath = None\<rparr>)"

text \<open>A closed walk: at least one edge, every step an edge, back at its start.\<close>

definition closed_walk :: "('v \<times> 'v) set \<Rightarrow> 'v list \<Rightarrow> bool" where
  "closed_walk R p = (2 \<le> length p \<and> hd p = last p \<and> successively (\<lambda>u v. (u, v) \<in> R) p)"

lemma successively_rtrancl:
  "successively (\<lambda>u v. (u, v) \<in> R) (x # p) \<Longrightarrow> (x, last (x # p)) \<in> R\<^sup>*"
proof (induction p arbitrary: x)
  case (Cons y p)
  then have "(x, y) \<in> R" "(y, last (y # p)) \<in> R\<^sup>*" by (simp_all add: successively_Cons)
  then show ?case by (simp add: converse_rtrancl_into_rtrancl)
qed simp

lemma closed_walk_cyclic: "closed_walk R p \<Longrightarrow> \<not> acyclic R"
proof
  assume walk: "closed_walk R p" and "acyclic R"
  then obtain x y q where p: "p = x # y # q"
    by (cases p; cases "tl p") (auto simp: closed_walk_def)
  with walk have "(x, y) \<in> R" "(y, x) \<in> R\<^sup>*"
    using successively_rtrancl [of R y q] by (auto simp: closed_walk_def successively_Cons)
  then have "(x, x) \<in> R\<^sup>+" by (rule rtrancl_into_trancl2)
  then show False using \<open>acyclic R\<close> by (auto simp: acyclic_def)
qed

lemma stack_down_to_walk:
  assumes "\<And>y e. y \<in> N \<Longrightarrow> e \<in> set (out y) \<Longrightarrow> (y, e) \<in> R"
  shows "stack_path out id ((v, i) # rest) \<Longrightarrow> fst ` set ((v, i) # rest) \<subseteq> N \<Longrightarrow>
    n \<in> fst ` set ((v, i) # rest) \<Longrightarrow>
    (let p = rev (stack_down_to n ((v, i) # rest))
     in p \<noteq> [] \<and> hd p = n \<and> last p = v \<and> successively (\<lambda>u w. (u, w) \<in> R) p)"
proof (induction rest arbitrary: v i)
  case Nil
  then show ?case by simp
next
  case (Cons yj rest)
  obtain y j where yj: "yj = (y, j)" by (cases yj)
  show ?case
  proof (cases "v = n")
    case False
    have "(y, v) \<in> R" using Cons.prems(1,2) yj assms [of y v] by auto
    then show ?thesis
      using Cons.IH [of y j] Cons.prems False yj
      by (auto simp: Let_def successively_append_iff successively_Cons hd_append)
  qed simp
qed

lemma close_cycle_walk:
  assumes "i < length (out v)" and "fst ` set ((v, i) # rest) \<subseteq> N"
    and "stack_path out id ((v, i) # rest)" and "out v ! i \<in> fst ` set ((v, i) # rest)"
    and "\<And>y e. y \<in> N \<Longrightarrow> e \<in> set (out y) \<Longrightarrow> (y, e) \<in> R"
    and "close_cycle ((v, Suc i) # rest) (out v ! i) u = Inl p"
  shows "closed_walk R p"
proof -
  define n where "n = out v ! i"
  define q where "q = rev (stack_down_to n ((v, i) # rest))"
  have q: "q \<noteq> []" "hd q = n" "last q = v" "successively (\<lambda>u w. (u, w) \<in> R) q"
    using stack_down_to_walk [where out = out and N = N and R = R and n = n, OF assms(5) assms(3,2)] assms(4)
    by (simp_all add: q_def n_def Let_def)
  have p: "p = q @ [n]"
    using assms(6) by (auto simp: close_cycle_def q_def n_def)
  have "(v, n) \<in> R" using assms(1,2,5) by (auto simp: n_def)
  then show ?thesis
    using q by (auto simp: p closed_walk_def successively_append_iff hd_append Suc_le_eq)
qed

interpretation cycle_search: dfs_client
    "jset_of (map gn_id nodes)"
    "jget_or [] (build_adjacency (jset_of (map gn_id nodes)) sourceNodeId targetNodeId targetNodeId edges)"
    id close_cycle "\<lambda>s B. B = {}" "closed_walk (graph_rel nodes edges)"
  for nodes edges
proof (unfold_locales, goal_cases)
  case (1 v e)
  then show ?case by (auto dest: adjacency_closed)
next
  case (2 s B i v rest s')
  then show ?case by (simp add: close_cycle_def)
next
  case (3 i v rest s r)
  have "(y, e) \<in> graph_rel nodes edges"
    if "e \<in> set (jget_or [] (build_adjacency (jset_of (map gn_id nodes)) sourceNodeId targetNodeId
        targetNodeId edges) y)" for y e
    using adjacency_in_rel [OF that] by simp
  then show ?case
    using close_cycle_walk [OF 3(1,2,3) _ _ 3(5), of "graph_rel nodes edges"] 3(4) by simp
qed

lemma cycle_search_all:
  "cycle_search.forward nodes edges (cycle_search.all_edges nodes edges) {} = graph_rel nodes edges"
  unfolding cycle_search.forward_all
  by (subst edge_rel_jset_of [symmetric], subst edge_rel_adjacency) simp

lemma detectCycle_facts:
  "hasCycle (detectCycle nodes edges) = (\<not> acyclic (graph_rel nodes edges))
   \<and> (case cyclePath (detectCycle nodes edges) of
        Some p \<Rightarrow> hasCycle (detectCycle nodes edges) \<and> closed_walk (graph_rel nodes edges) p
      | None \<Rightarrow> \<not> hasCycle (detectCycle nodes edges))"
proof -
  let ?ids = "jset_of (map gn_id nodes)"
  let ?out = "jget_or [] (build_adjacency ?ids sourceNodeId targetNodeId targetNodeId edges)"
  show ?thesis
  proof (cases "dfs ?out id close_cycle ?ids ()")
    case (Inl p)
    then have "closed_walk (graph_rel nodes edges) p"
      using cycle_search.dfs_correct [where s = "()" and nodes = nodes and edges = edges] by simp
    then show ?thesis using Inl closed_walk_cyclic by (auto simp: detectCycle_def Let_def)
  next
    case (Inr cs)
    then have "acyclic (graph_rel nodes edges)"
      using cycle_search.dfs_correct [where s = "()" and nodes = nodes and edges = edges] cycle_search_all by auto
    then show ?thesis using Inr by (simp add: detectCycle_def Let_def)
  qed
qed

section \<open>identifyBackEdges\<close>

record back_edge_result =
  forwardEdges :: "graph_edge list"
  backEdges :: "graph_edge list"

text \<open>
  \<open>backEdgeSet\<close> holds edge objects, which the set compares by identity: here, the positions of the
  edges in the argument.
\<close>

type_synonym edge_object = "nat \<times> graph_edge"

definition obj_source :: "edge_object \<Rightarrow> string" where
  "obj_source e = sourceNodeId (snd e)"

definition obj_target :: "edge_object \<Rightarrow> string" where
  "obj_target e = targetNodeId (snd e)"

definition mark_edge :: "('v \<times> nat) list \<Rightarrow> edge_object \<Rightarrow> nat list \<Rightarrow> unit + nat list" where
  "mark_edge stack edge backEdgeSet = Inr (jadd (fst edge) backEdgeSet)"

definition backEdgeSet :: "graph_node list \<Rightarrow> graph_edge list \<Rightarrow> nat list" where
  "backEdgeSet nodes edges =
     (let nodeIds = jset_of (map gn_id nodes);
          adjacency = build_adjacency nodeIds obj_source obj_target id (enumerate 0 edges)
      in case dfs (jget_or [] adjacency) obj_target mark_edge nodeIds [] of
           Inr cs \<Rightarrow> snd cs
         | Inl _ \<Rightarrow> [])"

definition identifyBackEdges :: "graph_node list \<Rightarrow> graph_edge list \<Rightarrow> back_edge_result" where
  "identifyBackEdges nodes edges =
     (let back = backEdgeSet nodes edges
      in \<lparr>forwardEdges = map snd (filter (\<lambda>e. fst e \<notin> set back) (enumerate 0 edges)),
          backEdges = map snd (filter (\<lambda>e. fst e \<in> set back) (enumerate 0 edges))\<rparr>)"

abbreviation object_lists :: "graph_node list \<Rightarrow> graph_edge list \<Rightarrow> string \<Rightarrow> edge_object list" where
  "object_lists nodes edges \<equiv>
     jget_or [] (build_adjacency (jset_of (map gn_id nodes)) obj_source obj_target id (enumerate 0 edges))"

lemma object_lists_in:
  "e \<in> set (object_lists nodes edges v) \<longleftrightarrow>
     e \<in> set (enumerate 0 edges) \<and> obj_source e = v \<and> v \<in> gn_id ` set nodes \<and> obj_target e \<in> gn_id ` set nodes"
  by (auto simp: adjacency_list)

lemma enumerate_edge: "e \<in> set (enumerate 0 edges) \<longleftrightarrow> fst e < length edges \<and> snd e = edges ! fst e"
  by (cases e) (auto simp: in_set_enumerate_eq)

lemma distinct_object_lists: "distinct (object_lists nodes edges v)"
  by (simp add: adjacency_list distinct_enumerate)

lemma object_in_rel:
  "e \<in> set (object_lists nodes edges v) \<Longrightarrow> (v, obj_target e) \<in> graph_rel nodes edges"
  unfolding object_lists_in enumerate_edge edge_rel_def obj_source_def obj_target_def
  by (auto intro!: exI [of _ "snd e"] simp: nth_mem)

text \<open>The marked positions are those of the edges that met a gray node.\<close>

definition marks :: "graph_node list \<Rightarrow> graph_edge list \<Rightarrow> nat list \<Rightarrow> (string \<times> nat) set \<Rightarrow> bool" where
  "marks nodes edges s B = (set s = (\<lambda>(v, i). fst (object_lists nodes edges v ! i)) ` B)"

interpretation mark_search: dfs_client
    "jset_of (map gn_id nodes)" "object_lists nodes edges" obj_target mark_edge
    "marks nodes edges" "\<lambda>r. False"
  for nodes edges
proof (unfold_locales, goal_cases)
  case (1 v e)
  then show ?case by (simp add: object_lists_in)
qed (auto simp: marks_def mark_edge_def)

lemma backEdgeSet_facts:
  obtains B where "marks nodes edges (backEdgeSet nodes edges) B"
    and "B \<subseteq> mark_search.all_edges nodes edges"
    and "acyclic (mark_search.forward nodes edges (mark_search.all_edges nodes edges) B)"
    and "mark_search.closes nodes edges (mark_search.forward nodes edges (mark_search.all_edges nodes edges) B) B"
proof (cases "dfs (object_lists nodes edges) obj_target mark_edge (jset_of (map gn_id nodes)) []")
  case (Inl r)
  then show ?thesis
    using mark_search.dfs_correct [where s = "[]" and nodes = nodes and edges = edges]
    by (simp add: marks_def)
next
  case (Inr cs)
  then show ?thesis
    using mark_search.dfs_correct [where s = "[]" and nodes = nodes and edges = edges] that
    by (auto simp: marks_def backEdgeSet_def Let_def)
qed

lemma object_in_forward:
  assumes "marks nodes edges (backEdgeSet nodes edges) B" and "B \<subseteq> mark_search.all_edges nodes edges"
    and "i < length (object_lists nodes edges v)" and "(v, i) \<notin> B"
  shows "(v, obj_target (object_lists nodes edges v ! i))
    \<in> graph_rel nodes (forwardEdges (identifyBackEdges nodes edges))"
proof -
  let ?e = "object_lists nodes edges v ! i"
  have "?e \<in> set (object_lists nodes edges v)" using assms(3) by simp
  then have e: "?e \<in> set (enumerate 0 edges)" "obj_source ?e = v" "v \<in> gn_id ` set nodes"
      "obj_target ?e \<in> gn_id ` set nodes"
    by (simp_all only: object_lists_in)
  have "fst ?e \<notin> set (backEdgeSet nodes edges)"
  proof
    assume "fst ?e \<in> set (backEdgeSet nodes edges)"
    then obtain w j where wj: "(w, j) \<in> B" "fst ?e = fst (object_lists nodes edges w ! j)"
      using assms(1) by (auto simp: marks_def)
    then have j: "j < length (object_lists nodes edges w)"
      using assms(2) by (auto simp: mark_search.all_edges_def)
    then have "object_lists nodes edges w ! j \<in> set (object_lists nodes edges w)" by simp
    then have d: "object_lists nodes edges w ! j \<in> set (enumerate 0 edges)"
        "obj_source (object_lists nodes edges w ! j) = w"
      by (simp_all only: object_lists_in)
    then have same: "?e = object_lists nodes edges w ! j"
      using e(1) wj(2) by (metis enumerate_edge prod_eqI)
    then have "w = v" using e(2) d(2) by metis
    then have "i = j" using same assms(3) j nth_eq_iff_index_eq [OF distinct_object_lists] by simp
    then show False using wj(1) assms(4) \<open>w = v\<close> by simp
  qed
  then have "snd ?e \<in> set (forwardEdges (identifyBackEdges nodes edges))"
    using e(1) by (force simp: identifyBackEdges_def Let_def)
  moreover have "sourceNodeId (snd ?e) = v" "targetNodeId (snd ?e) = obj_target ?e"
    using e(2) by (simp_all add: obj_source_def obj_target_def)
  ultimately show ?thesis using e(3,4) unfolding edge_rel_def set_map by (intro CollectI exI [of _ "snd ?e"]) auto
qed

lemma forwardEdges_acyclic:
  "acyclic (graph_rel nodes (forwardEdges (identifyBackEdges nodes edges)))"
proof -
  obtain B where B: "marks nodes edges (backEdgeSet nodes edges) B"
    and "B \<subseteq> mark_search.all_edges nodes edges" and acyclic: "acyclic (mark_search.forward nodes edges (mark_search.all_edges nodes edges) B)"
    by (rule backEdgeSet_facts)
  have "graph_rel nodes (forwardEdges (identifyBackEdges nodes edges))
      \<subseteq> mark_search.forward nodes edges (mark_search.all_edges nodes edges) B"
  proof (clarify)
    fix u w assume "(u, w) \<in> graph_rel nodes (forwardEdges (identifyBackEdges nodes edges))"
    then obtain e where e: "e \<in> set (enumerate 0 edges)" "fst e \<notin> set (backEdgeSet nodes edges)"
        "u = obj_source e" "w = obj_target e" "u \<in> gn_id ` set nodes" "w \<in> gn_id ` set nodes"
      by (auto simp: edge_rel_def identifyBackEdges_def Let_def obj_source_def obj_target_def)
    then have "e \<in> set (object_lists nodes edges u)" by (simp add: object_lists_in)
    then obtain i where i: "i < length (object_lists nodes edges u)" "object_lists nodes edges u ! i = e"
      by (metis in_set_conv_nth)
    have "(u, i) \<notin> B"
    proof
      assume "(u, i) \<in> B"
      then have "fst e \<in> set (backEdgeSet nodes edges)" using B i by (force simp: marks_def)
      then show False using e(2) by simp
    qed
    then have "(u, i) \<in> mark_search.all_edges nodes edges - B"
      using i(1) e(5) by (simp add: mark_search.all_edges_def)
    then show "(u, w) \<in> mark_search.forward nodes edges (mark_search.all_edges nodes edges) B"
      unfolding mark_search.forward_def using i(2) e(4) by force
  qed
  then show ?thesis using acyclic acyclic_subset by blast
qed

lemma back_edge_partition:
  "mset (forwardEdges (identifyBackEdges nodes edges)) + mset (backEdges (identifyBackEdges nodes edges))
    = mset edges"
proof -
  have split: "mset (map snd (filter (\<lambda>e. fst e \<notin> B) es)) + mset (map snd (filter (\<lambda>e. fst e \<in> B) es))
      = mset (map snd es)" for B and es :: "(nat \<times> graph_edge) list"
    by (induction es) auto
  show ?thesis
    using split [of "set (backEdgeSet nodes edges)" "enumerate 0 edges"]
    by (simp only: identifyBackEdges_def Let_def back_edge_result.select_convs map_snd_enumerate)
qed

text \<open>From the target of a back edge, forward edges lead to its source.\<close>

lemma backEdges_close_cycles:
  assumes "e \<in> set (backEdges (identifyBackEdges nodes edges))"
  shows "(sourceNodeId e, targetNodeId e) \<in> graph_rel nodes edges
    \<and> (targetNodeId e, sourceNodeId e) \<in> (graph_rel nodes (forwardEdges (identifyBackEdges nodes edges)))\<^sup>*"
proof -
  obtain B where B: "marks nodes edges (backEdgeSet nodes edges) B"
    and all: "B \<subseteq> mark_search.all_edges nodes edges"
    and closes: "mark_search.closes nodes edges
      (mark_search.forward nodes edges (mark_search.all_edges nodes edges) B) B"
    by (rule backEdgeSet_facts)
  obtain k where k: "(k, e) \<in> set (enumerate 0 edges)" "k \<in> set (backEdgeSet nodes edges)"
    using assms by (auto simp: identifyBackEdges_def Let_def)
  then obtain v i where vi: "(v, i) \<in> B" "k = fst (object_lists nodes edges v ! i)"
    using B by (auto simp: marks_def)
  let ?d = "object_lists nodes edges v ! i"
  have "mark_search.forward nodes edges (mark_search.all_edges nodes edges) B
      \<subseteq> graph_rel nodes (forwardEdges (identifyBackEdges nodes edges))"
    using object_in_forward [OF B all] unfolding mark_search.forward_def mark_search.all_edges_def by auto
  moreover have "(obj_target ?d, v) \<in> (mark_search.forward nodes edges (mark_search.all_edges nodes edges) B)\<^sup>*"
    using closes vi(1) by (auto simp: mark_search.closes_def)
  ultimately have reach: "(obj_target ?d, v) \<in> (graph_rel nodes (forwardEdges (identifyBackEdges nodes edges)))\<^sup>*"
    using rtrancl_mono by blast
  have "i < length (object_lists nodes edges v)"
    using all vi(1) by (auto simp: mark_search.all_edges_def)
  then have d: "?d \<in> set (object_lists nodes edges v)" by simp
  then have "?d \<in> set (enumerate 0 edges)" "obj_source ?d = v" by (simp_all only: object_lists_in)
  then have "snd ?d = e" using k(1) vi(2) by (simp add: enumerate_edge)
  then show ?thesis
    using reach object_in_rel [OF d] \<open>obj_source ?d = v\<close> by (simp add: obj_source_def obj_target_def)
qed

end
