(* ===== verification/GraphWarnings.thy ===== *)
theory GraphWarnings
  imports Cycles Traversal
begin

text \<open>
  The cross-node rules that the save endpoint and the canvas evaluate on a workflow graph
  (\<open>packages/graph-warning-rules\<close>): the nesting depth and the concurrency of Parallel nodes, and
  cycles that no branch node leaves.
\<close>

section \<open>Graph view and rules\<close>

record rule_node =
  rn_id :: string
  rn_type :: string
  rn_config :: "props option"
  rn_label :: "string option"

record rule_edge =
  re_source :: string
  re_sourceHandle :: "string option"
  re_target :: string
  re_targetHandle :: "string option"

record rule_graph =
  rg_nodes :: "rule_node list"
  rg_edges :: "rule_edge list"

datatype severity = SevError | SevWarning

record triggered =
  tr_message :: string
  tr_params :: "props option"

record warning_rule =
  wr_id :: string
  wr_severity :: severity
  wr_evaluate :: "rule_node \<Rightarrow> rule_graph \<Rightarrow> triggered option"

record rule_result =
  rr_ruleId :: string
  rr_severity :: severity
  rr_nodeId :: string
  rr_message :: string
  rr_params :: "props option"

definition evaluateGraphWarningRules ::
    "rule_node \<Rightarrow> rule_graph \<Rightarrow> warning_rule list \<Rightarrow> rule_result list" where
  "evaluateGraphWarningRules node graph rules =
     fold (\<lambda>rule results. case wr_evaluate rule node graph of
         None \<Rightarrow> results
       | Some t \<Rightarrow> results @ [\<lparr>rr_ruleId = wr_id rule, rr_severity = wr_severity rule,
           rr_nodeId = rn_id node, rr_message = tr_message t, rr_params = tr_params t\<rparr>]) rules []"

definition evaluateGraphWarningRulesForGraph ::
    "rule_graph \<Rightarrow> (string \<Rightarrow> warning_rule list option) \<Rightarrow> rule_result list" where
  "evaluateGraphWarningRulesForGraph graph rulesResolver =
     fold (\<lambda>node results. case rulesResolver (rn_type node) of
         None \<Rightarrow> results
       | Some rules \<Rightarrow>
           (if rules = [] then results
            else results @ evaluateGraphWarningRules node graph rules)) (rg_nodes graph) []"

lemma evaluateGraphWarningRules_set:
  "set (evaluateGraphWarningRules node graph rules) =
     {\<lparr>rr_ruleId = wr_id rule, rr_severity = wr_severity rule, rr_nodeId = rn_id node,
       rr_message = tr_message t, rr_params = tr_params t\<rparr> | rule t.
      rule \<in> set rules \<and> wr_evaluate rule node graph = Some t}"
proof -
  have "set (fold (\<lambda>rule results. case wr_evaluate rule node graph of
         None \<Rightarrow> results
       | Some t \<Rightarrow> results @ [\<lparr>rr_ruleId = wr_id rule, rr_severity = wr_severity rule,
           rr_nodeId = rn_id node, rr_message = tr_message t, rr_params = tr_params t\<rparr>]) rules acc)
    = set acc \<union> {\<lparr>rr_ruleId = wr_id rule, rr_severity = wr_severity rule, rr_nodeId = rn_id node,
       rr_message = tr_message t, rr_params = tr_params t\<rparr> | rule t.
      rule \<in> set rules \<and> wr_evaluate rule node graph = Some t}" for acc
  proof (induction rules arbitrary: acc)
    case (Cons rule rules)
    then show ?case by (cases "wr_evaluate rule node graph") auto
  qed simp
  from this [of "[]"] show ?thesis by (simp add: evaluateGraphWarningRules_def)
qed

lemma evaluateForGraph_set:
  "set (evaluateGraphWarningRulesForGraph graph resolver) =
     (\<Union>node \<in> set (rg_nodes graph). case resolver (rn_type node) of
        None \<Rightarrow> {} | Some rules \<Rightarrow> set (evaluateGraphWarningRules node graph rules))"
proof -
  have "set (fold (\<lambda>node results. case resolver (rn_type node) of
         None \<Rightarrow> results
       | Some rules \<Rightarrow>
           (if rules = [] then results
            else results @ evaluateGraphWarningRules node graph rules)) nodes acc)
    = set acc \<union> (\<Union>node \<in> set nodes. case resolver (rn_type node) of
        None \<Rightarrow> {} | Some rules \<Rightarrow> set (evaluateGraphWarningRules node graph rules))" for nodes acc
  proof (induction nodes arbitrary: acc)
    case (Cons node nodes)
    then show ?case
      by (cases "resolver (rn_type node)") (auto simp: evaluateGraphWarningRules_def)
  qed simp
  from this [of _ "[]"] show ?thesis by (simp add: evaluateGraphWarningRulesForGraph_def)
qed

section \<open>Parallel rules\<close>

definition PARALLEL_NESTED_CONCURRENCY_CAP :: nat where
  "PARALLEL_NESTED_CONCURRENCY_CAP = 32"

definition is_branch_handle :: "string option \<Rightarrow> bool" where
  "is_branch_handle handle = (case handle of None \<Rightarrow> False | Some s \<Rightarrow> branch_number s \<noteq> None)"

definition collectParallelBranchBodyNodeIds :: "string \<Rightarrow> rule_edge list \<Rightarrow> string list" where
  "collectParallelBranchBodyNodeIds parallelNodeId edges =
     (let adj = group_edges re_source re_target edges;
          entries = map re_target (filter (\<lambda>e. re_source e = parallelNodeId
                      \<and> is_branch_handle (re_sourceHandle e)) edges)
      in bfs adj entries [])"

definition buildNodeIndex :: "rule_graph \<Rightarrow> (string, rule_node) jmap" where
  "buildNodeIndex graph = fold (\<lambda>n. jput (rn_id n) n) (rg_nodes graph) []"

definition config_number :: "props \<Rightarrow> string \<Rightarrow> jsnum \<Rightarrow> jsnum" where
  "config_number cfg key d = (case map_of cfg key of Some (JNum n) \<Rightarrow> n | _ \<Rightarrow> d)"

definition resolveEffective :: "props option \<Rightarrow> jsnum" where
  "resolveEffective config =
     (let cfg = (case config of Some c \<Rightarrow> c | None \<Rightarrow> []);
          max = config_number cfg ''maxConcurrency'' (Fin 0);
          branch = config_number cfg ''branchCount'' (Fin 2)
      in if num_less (Fin 0) max then max else branch)"

text \<open>The first result of a loop that returns from inside.\<close>

fun first_some :: "('a \<Rightarrow> 'b option) \<Rightarrow> 'a list \<Rightarrow> 'b option" where
  "first_some f [] = None"
| "first_some f (x # xs) = (case f x of Some y \<Rightarrow> Some y | None \<Rightarrow> first_some f xs)"

lemma first_some_None [simp]: "first_some f xs = None \<longleftrightarrow> (\<forall>x \<in> set xs. f x = None)"
  by (induction xs) (auto split: option.splits)

lemma case_some_iff:
  "(case x of None \<Rightarrow> None | Some a \<Rightarrow> f a) = Some y \<longleftrightarrow> (\<exists>a. x = Some a \<and> f a = Some y)"
  by (cases x) auto

lemma first_some_ex: "(\<exists>y. first_some f xs = Some y) \<longleftrightarrow> (\<exists>x \<in> set xs. \<exists>y. f x = Some y)"
  using first_some_None [of f xs] by (auto simp del: first_some_None)

lemma first_some_case:
  "(\<exists>y. first_some (\<lambda>x. case P x of None \<Rightarrow> None | Some a \<Rightarrow> F a) xs = Some y) \<longleftrightarrow>
    (\<exists>x \<in> set xs. \<exists>a. P x = Some a \<and> (\<exists>y. F a = Some y))"
  by (simp add: first_some_ex case_some_iff) blast

definition parallel_in :: "(string, rule_node) jmap \<Rightarrow> string \<Rightarrow> rule_node option" where
  "parallel_in byId i = (case map_of byId i of
     Some n \<Rightarrow> (if rn_type n = ''parallel'' then Some n else None) | None \<Rightarrow> None)"

definition display_label :: "rule_node \<Rightarrow> string" where
  "display_label n = (case rn_label n of Some l \<Rightarrow> l | None \<Rightarrow> rn_type n)"

definition nested_depth_message :: "rule_node \<Rightarrow> rule_node \<Rightarrow> rule_node \<Rightarrow> triggered" where
  "nested_depth_message node child g =
     \<lparr>tr_message = ''Parallel node \"'' @ display_label node @ ''\" body contains nested Parallel \"''
        @ display_label child @ ''\" whose body contains another Parallel \"'' @ display_label g
        @ ''\". Parallel nesting depth > 2 is not supported.'',
      tr_params = Some [(''node'', JStr (display_label node)), (''child'', JStr (display_label child)),
        (''grand'', JStr (display_label g))]\<rparr>"

definition parallelNestedDepthExceededRule :: warning_rule where
  "parallelNestedDepthExceededRule =
     \<lparr>wr_id = ''parallel:nested-depth-exceeded'', wr_severity = SevError,
      wr_evaluate = (\<lambda>node graph.
        if rn_type node \<noteq> ''parallel'' then None
        else let byId = buildNodeIndex graph;
                 myBody = collectParallelBranchBodyNodeIds (rn_id node) (rg_edges graph)
             in first_some (\<lambda>childId. case parallel_in byId childId of
                    None \<Rightarrow> None
                  | Some child \<Rightarrow>
                      first_some (\<lambda>gId. case parallel_in byId gId of
                          None \<Rightarrow> None
                        | Some g \<Rightarrow> Some (nested_depth_message node child g))
                        (collectParallelBranchBodyNodeIds (rn_id child) (rg_edges graph)))
                  myBody)\<rparr>"

definition nested_cap_message :: "rule_node \<Rightarrow> jsnum \<Rightarrow> rule_node \<Rightarrow> jsnum \<Rightarrow> jsnum \<Rightarrow> triggered" where
  "nested_cap_message node outer child inner product =
     \<lparr>tr_message = ''Parallel \"'' @ display_label node @ ''\" (effective='' @ num_to_string outer
        @ '') '' @ [CHR 0xD7] @ '' nested Parallel \"'' @ display_label child @ ''\" (effective=''
        @ num_to_string inner @ '') = '' @ num_to_string product @ '' > cap=''
        @ show_nat PARALLEL_NESTED_CONCURRENCY_CAP
        @ ''. Runtime will silently clamp the inner concurrency.'',
      tr_params = Some [(''node'', JStr (display_label node)), (''child'', JStr (display_label child)),
        (''outerEffective'', JNum outer), (''innerEffective'', JNum inner), (''product'', JNum product),
        (''cap'', JNum (Fin (of_nat PARALLEL_NESTED_CONCURRENCY_CAP)))]\<rparr>"

definition parallelNestedConcurrencyCapRule :: warning_rule where
  "parallelNestedConcurrencyCapRule =
     \<lparr>wr_id = ''parallel:nested-concurrency-cap'', wr_severity = SevWarning,
      wr_evaluate = (\<lambda>node graph.
        if rn_type node \<noteq> ''parallel'' then None
        else let byId = buildNodeIndex graph;
                 myEffective = resolveEffective (rn_config node);
                 myBody = collectParallelBranchBodyNodeIds (rn_id node) (rg_edges graph)
             in first_some (\<lambda>childId. case parallel_in byId childId of
                    None \<Rightarrow> None
                  | Some child \<Rightarrow>
                      (let cEffective = resolveEffective (rn_config child);
                           product = num_mul myEffective cEffective
                       in if num_less (Fin (of_nat PARALLEL_NESTED_CONCURRENCY_CAP)) product
                          then Some (nested_cap_message node myEffective child cEffective product)
                          else None))
                  myBody)\<rparr>"

definition parallelGraphWarningRules :: "warning_rule list" where
  "parallelGraphWarningRules = [parallelNestedDepthExceededRule, parallelNestedConcurrencyCapRule]"

definition GRAPH_WARNING_RULES_BY_TYPE :: "string \<Rightarrow> warning_rule list option" where
  "GRAPH_WARNING_RULES_BY_TYPE = map_of [(''parallel'', parallelGraphWarningRules)]"

section \<open>What the rules decide\<close>

text \<open>The node an id stands for (the last one listed), and the edges as a relation.\<close>

definition node_at :: "rule_graph \<Rightarrow> string \<Rightarrow> rule_node option" where
  "node_at graph i = map_of (rev (map (\<lambda>n. (rn_id n, n)) (rg_nodes graph))) i"

definition rule_rel :: "rule_edge list \<Rightarrow> (string \<times> string) set" where
  "rule_rel edges = {(re_source e, re_target e) | e. e \<in> set edges}"

text \<open>A Parallel node behind a branch port of the node \<open>p\<close>.\<close>

definition nested_parallel :: "rule_graph \<Rightarrow> string \<Rightarrow> rule_node \<Rightarrow> bool" where
  "nested_parallel graph p child \<longleftrightarrow>
     rn_type child = ''parallel'' \<and> node_at graph (rn_id child) = Some child
     \<and> (\<exists>e \<in> set (rg_edges graph). re_source e = p \<and> is_branch_handle (re_sourceHandle e)
          \<and> (re_target e, rn_id child) \<in> (rule_rel (rg_edges graph))\<^sup>*)"

lemma map_of_buildNodeIndex: "map_of (buildNodeIndex graph) i = node_at graph i"
proof -
  have "map_of (fold (\<lambda>n. jput (rn_id n) n) ns m) i
      = (case map_of (rev (map (\<lambda>n. (rn_id n, n)) ns)) i of Some n \<Rightarrow> Some n | None \<Rightarrow> map_of m i)" for ns m
    by (induction ns arbitrary: m) (auto simp: map_add_def split: option.splits)
  from this [of "rg_nodes graph" "[]"] show ?thesis
    by (simp add: buildNodeIndex_def node_at_def split: option.splits)
qed

lemma node_at_id: "node_at graph i = Some n \<Longrightarrow> rn_id n = i \<and> n \<in> set (rg_nodes graph)"
  by (auto simp: node_at_def dest!: map_of_SomeD)

lemma parallel_in_iff:
  "parallel_in (buildNodeIndex graph) i = Some n \<longleftrightarrow>
     rn_id n = i \<and> rn_type n = ''parallel'' \<and> node_at graph (rn_id n) = Some n"
  using node_at_id [of graph i n]
  by (auto simp: parallel_in_def map_of_buildNodeIndex split: option.splits)

lemma body_ids:
  "set (collectParallelBranchBodyNodeIds p edges) =
     {v. \<exists>e \<in> set edges. re_source e = p \<and> is_branch_handle (re_sourceHandle e) \<and> (re_target e, v) \<in> (rule_rel edges)\<^sup>*}"
proof -
  have "adj_rel (group_edges re_source re_target edges) = rule_rel edges"
    by (auto simp: adj_rel_def rule_rel_def)
  then show ?thesis by (auto simp: collectParallelBranchBodyNodeIds_def bfs_reachable)
qed

lemma nested_parallel_iff:
  "nested_parallel graph p child \<longleftrightarrow>
     (\<exists>i \<in> set (collectParallelBranchBodyNodeIds p (rg_edges graph)).
        parallel_in (buildNodeIndex graph) i = Some child)"
  by (auto simp: nested_parallel_def parallel_in_iff body_ids)

lemma depth_rule_iff:
  "(\<exists>t. wr_evaluate parallelNestedDepthExceededRule node graph = Some t) \<longleftrightarrow>
     rn_type node = ''parallel'' \<and>
     (\<exists>child g. nested_parallel graph (rn_id node) child \<and> nested_parallel graph (rn_id child) g)"
proof (cases "rn_type node = ''parallel''")
  case True
  then show ?thesis
    unfolding nested_parallel_iff parallelNestedDepthExceededRule_def
    by (simp add: Let_def first_some_case) blast
qed (simp add: parallelNestedDepthExceededRule_def)

lemma cap_rule_iff:
  "(\<exists>t. wr_evaluate parallelNestedConcurrencyCapRule node graph = Some t) \<longleftrightarrow>
     rn_type node = ''parallel'' \<and>
     (\<exists>child. nested_parallel graph (rn_id node) child
        \<and> num_less (Fin 32) (num_mul (resolveEffective (rn_config node)) (resolveEffective (rn_config child))))"
proof (cases "rn_type node = ''parallel''")
  case True
  then show ?thesis
    unfolding nested_parallel_iff parallelNestedConcurrencyCapRule_def
    by (simp add: Let_def first_some_case PARALLEL_NESTED_CONCURRENCY_CAP_def) blast
qed (simp add: parallelNestedConcurrencyCapRule_def)

section \<open>Cycles without an exit\<close>

definition UNESCAPABLE_CYCLE_RULE_ID :: string where
  "UNESCAPABLE_CYCLE_RULE_ID = ''graph:unescapable-cycle''"

definition BRANCH_NODE_TYPES :: "string list" where
  "BRANCH_NODE_TYPES = [''switch'', ''if_else'', ''text_classifier'', ''http_request'', ''ai_agent'']"

definition isContainerStructuralEdge :: "string option \<Rightarrow> string option \<Rightarrow> bool" where
  "isContainerStructuralEdge sourceHandle targetHandle =
     (sourceHandle = Some ''body'' \<or> targetHandle = Some ''emit'')"

definition structural :: "rule_edge \<Rightarrow> bool" where
  "structural e = isContainerStructuralEdge (re_sourceHandle e) (re_targetHandle e)"

definition node_types :: "rule_graph \<Rightarrow> (string, string) jmap" where
  "node_types graph = fold (\<lambda>n. jput (rn_id n) (rn_type n)) (rg_nodes graph) []"

text \<open>The message has one character above the 256 of \<open>char\<close>, the dash \<open>U+2014\<close>.\<close>

definition cycle_warning :: "host \<Rightarrow> string \<Rightarrow> rule_result" where
  "cycle_warning h source =
     \<lparr>rr_ruleId = UNESCAPABLE_CYCLE_RULE_ID, rr_severity = SevWarning, rr_nodeId = source,
      rr_message = ''This node feeds a cycle with no branch node to exit it '' @ h_code_unit h 8212
        @ '' the loop may run forever. Route the back-edge from a branch node (Switch/If-Else) instead.'',
      rr_params = None\<rparr>"

text \<open>Adjacency entries are the pairs of a target and its source.\<close>

definition flag_source :: "host \<Rightarrow> (string, string) jmap \<Rightarrow> (string \<times> nat) list \<Rightarrow> string \<times> string
    \<Rightarrow> (string, rule_result) jmap \<Rightarrow> unit + (string, rule_result) jmap" where
  "flag_source h nodeType stack edge flagged =
     (let srcType = jget_or [] nodeType (snd edge)
      in if srcType \<notin> set BRANCH_NODE_TYPES \<and> \<not> jhas flagged (snd edge)
         then Inr (jput (snd edge) (cycle_warning h (snd edge)) flagged) else Inr flagged)"

definition evaluateGraphCycleWarnings :: "host \<Rightarrow> rule_graph \<Rightarrow> rule_result list" where
  "evaluateGraphCycleWarnings h graph =
     (let nodeType = node_types graph;
          ids = jkeys nodeType;
          adjacency = build_adjacency ids re_source re_target (\<lambda>e. (re_target e, re_source e))
            (filter (\<lambda>e. \<not> structural e) (rg_edges graph))
      in case dfs (jget_or [] adjacency) fst (flag_source h nodeType) ids [] of
           Inr cs \<Rightarrow> jvals (snd cs)
         | Inl _ \<Rightarrow> [])"

text \<open>The flow edges of the graph, and the nodes whose type chooses its output port.\<close>

definition flow_rel :: "rule_graph \<Rightarrow> (string \<times> string) set" where
  "flow_rel graph = edge_rel (map rn_id (rg_nodes graph)) re_source re_target
     (filter (\<lambda>e. \<not> structural e) (rg_edges graph))"

definition chooses_port :: "rule_graph \<Rightarrow> string \<Rightarrow> bool" where
  "chooses_port graph v \<longleftrightarrow> (\<exists>n. node_at graph v = Some n \<and> rn_type n \<in> set BRANCH_NODE_TYPES)"

lemma map_of_node_types: "map_of (node_types graph) v = map_option rn_type (node_at graph v)"
proof -
  have "map_of (fold (\<lambda>n. jput (rn_id n) (rn_type n)) ns m) v
      = (case map_of (rev (map (\<lambda>n. (rn_id n, n)) ns)) v of Some n \<Rightarrow> Some (rn_type n) | None \<Rightarrow> map_of m v)" for ns m
    by (induction ns arbitrary: m) (auto simp: map_add_def split: option.splits)
  from this [of "rg_nodes graph" "[]"] show ?thesis
    by (simp add: node_types_def node_at_def split: option.splits)
qed

lemma set_node_types [simp]: "set (jkeys (node_types graph)) = rn_id ` set (rg_nodes graph)"
proof -
  have "set (jkeys (fold (\<lambda>n. jput (rn_id n) (rn_type n)) ns m)) = rn_id ` set ns \<union> set (jkeys m)" for ns m
    by (induction ns arbitrary: m) auto
  from this [of _ "[]"] show ?thesis by (simp add: node_types_def)
qed

lemma chooses_port_iff: "chooses_port graph v \<longleftrightarrow> jget_or [] (node_types graph) v \<in> set BRANCH_NODE_TYPES"
  by (cases "node_at graph v")
    (simp_all add: chooses_port_def jget_or_def map_of_node_types BRANCH_NODE_TYPES_def)

abbreviation flow_lists :: "rule_graph \<Rightarrow> string \<Rightarrow> (string \<times> string) list" where
  "flow_lists graph \<equiv> jget_or [] (build_adjacency (jkeys (node_types graph)) re_source re_target
     (\<lambda>e. (re_target e, re_source e)) (filter (\<lambda>e. \<not> structural e) (rg_edges graph)))"

lemma flow_lists_in: "e \<in> set (flow_lists graph v) \<longleftrightarrow> snd e = v \<and> (v, fst e) \<in> flow_rel graph"
  by (cases e) (auto simp: adjacency_list flow_rel_def edge_rel_def)

definition flags :: "host \<Rightarrow> rule_graph \<Rightarrow> (string, rule_result) jmap \<Rightarrow> (string \<times> nat) set \<Rightarrow> bool" where
  "flags h graph s B =
     (distinct (jkeys s)
      \<and> (\<forall>(k, r) \<in> set s. r = cycle_warning h k \<and> \<not> chooses_port graph k \<and> (k, k) \<in> (flow_rel graph)\<^sup>+)
      \<and> (\<forall>(v, i) \<in> B. i < length (flow_lists graph v) \<and> (chooses_port graph v \<or> v \<in> set (jkeys s))))"

lemma flags_insert:
  assumes "flags h graph s B" and "i < length (flow_lists graph v)"
    and "(v, v) \<in> (flow_rel graph)\<^sup>+"
    and "flag_source h (node_types graph) stack (flow_lists graph v ! i) s = Inr s'"
  shows "flags h graph s' (insert (v, i) B)"
proof -
  have v: "snd (flow_lists graph v ! i) = v" using flow_lists_in assms(2) nth_mem by blast
  show ?thesis
  proof (cases "\<not> chooses_port graph v \<and> v \<notin> set (jkeys s)")
    case True
    then have s': "s' = jput v (cycle_warning h v) s"
      using assms(4) v by (auto simp: flag_source_def Let_def jhas_iff chooses_port_iff)
    have "set (jput v (cycle_warning h v) s) \<subseteq> insert (v, cycle_warning h v) (set s)"
      by (induction v "cycle_warning h v" s rule: jput.induct) auto
    then show ?thesis using assms(1,2,3) True unfolding s' flags_def by auto
  next
    case False
    then have "s' = s" using assms(4) v by (auto simp: flag_source_def Let_def jhas_iff chooses_port_iff)
    then show ?thesis using assms(1,2) False by (auto simp: flags_def)
  qed
qed

interpretation flag_search: dfs_client
    "jkeys (node_types graph)" "flow_lists graph" fst "flag_source h (node_types graph)"
    "flags h graph" "\<lambda>r. False"
  for h graph
proof (unfold_locales, goal_cases)
  case (1 v e)
  then show ?case by (auto simp: flow_lists_in flow_rel_def edge_rel_def)
next
  case (2 s B i v rest s')
  have "{(y, fst e) | y e. e \<in> set (flow_lists graph y)} \<subseteq> flow_rel graph"
    by (auto simp: flow_lists_in)
  then have "(fst (flow_lists graph v ! i), v) \<in> (flow_rel graph)\<^sup>*"
    using stack_path_reach [OF 2(4,5)] rtrancl_mono by blast
  moreover have "(v, fst (flow_lists graph v ! i)) \<in> flow_rel graph"
    using 2(2) flow_lists_in nth_mem by blast
  ultimately have "(v, v) \<in> (flow_rel graph)\<^sup>+" by (rule rtrancl_into_trancl2 [rotated])
  then show ?case using flags_insert [OF 2(1,2)] 2(6) by blast
next
  case 3
  then show ?case by (auto simp: flag_source_def Let_def split: if_splits)
qed

lemma cycle_search_result:
  obtains s B where "flags h graph s B" and "evaluateGraphCycleWarnings h graph = jvals s"
    and "acyclic (flag_search.forward graph (flag_search.all_edges graph) B)"
proof (cases "dfs (flow_lists graph) fst (flag_source h (node_types graph)) (jkeys (node_types graph)) []")
  case (Inl r)
  then show ?thesis
    using flag_search.dfs_correct [where s = "[]" and h = h and graph = graph]
    by (simp add: flags_def)
next
  case (Inr cs)
  then show ?thesis
    using flag_search.dfs_correct [where s = "[]" and h = h and graph = graph] that
    by (auto simp: flags_def evaluateGraphCycleWarnings_def Let_def)
qed

lemma flagsD:
  assumes "flags h graph s B"
  shows "distinct (jkeys s)"
    and "(k, r) \<in> set s \<Longrightarrow> r = cycle_warning h k \<and> \<not> chooses_port graph k \<and> (k, k) \<in> (flow_rel graph)\<^sup>+"
    and "(v, i) \<in> B \<Longrightarrow> chooses_port graph v \<or> v \<in> set (jkeys s)"
  using assms unfolding flags_def by blast+

lemma flags_nodeIds:
  assumes "flags h graph s B"
  shows "map rr_nodeId (jvals s) = jkeys s"
proof -
  have "rr_nodeId (snd kr) = fst kr" if "kr \<in> set s" for kr
    using flagsD(2) [OF assms, of "fst kr" "snd kr"] that by (simp add: cycle_warning_def)
  then show ?thesis by (simp add: jvals_def jkeys_def)
qed

lemma unflagged_forward:
  assumes "flags h graph s B" and "(u, w) \<in> flow_rel graph" and "\<not> chooses_port graph u"
    and "u \<notin> set (jkeys s)"
  shows "(u, w) \<in> flag_search.forward graph (flag_search.all_edges graph) B"
proof -
  have "(w, u) \<in> set (flow_lists graph u)" using assms(2) by (simp add: flow_lists_in)
  then obtain i where i: "i < length (flow_lists graph u)" "flow_lists graph u ! i = (w, u)"
    unfolding in_set_conv_nth by blast
  have "(u, i) \<notin> B" using flagsD(3) [OF assms(1)] assms(3,4) by blast
  moreover have "u \<in> rn_id ` set (rg_nodes graph)"
    using assms(2) by (auto simp: flow_rel_def edge_rel_def)
  then have "(u, i) \<in> flag_search.all_edges graph"
    using i(1) by (simp add: flag_search.all_edges_def)
  ultimately show ?thesis unfolding flag_search.forward_def using i(2) by force
qed

text \<open>
  C32. The cycle rule reports each node at most once; a reported node lies on a cycle of flow edges
  and does not choose its output port; and every cycle of flow edges goes through a reported node
  or through a node that chooses its port: without those, the graph is acyclic.
\<close>
theorem cycle_warnings_cover:
  "distinct (map rr_nodeId (evaluateGraphCycleWarnings h graph))
   \<and> {v. \<exists>r. r \<in> set (evaluateGraphCycleWarnings h graph) \<and> rr_nodeId r = v}
       \<subseteq> {v. (v, v) \<in> (flow_rel graph)\<^sup>+ \<and> \<not> chooses_port graph v}
   \<and> acyclic {(u, w) \<in> flow_rel graph. \<not> chooses_port graph u
        \<and> u \<notin> set (map rr_nodeId (evaluateGraphCycleWarnings h graph))}"
proof -
  obtain s B where s: "flags h graph s B" "evaluateGraphCycleWarnings h graph = jvals s"
      "acyclic (flag_search.forward graph (flag_search.all_edges graph) B)"
    by (rule cycle_search_result)
  have ids: "map rr_nodeId (evaluateGraphCycleWarnings h graph) = jkeys s"
    using s flags_nodeIds by simp
  have "{(u, w) \<in> flow_rel graph. \<not> chooses_port graph u \<and> u \<notin> set (jkeys s)}
      \<subseteq> flag_search.forward graph (flag_search.all_edges graph) B"
    using unflagged_forward [OF s(1)] by blast
  then have "acyclic {(u, w) \<in> flow_rel graph. \<not> chooses_port graph u \<and> u \<notin> set (jkeys s)}"
    using s(3) acyclic_subset by blast
  moreover have "(k, k) \<in> (flow_rel graph)\<^sup>+ \<and> \<not> chooses_port graph k" if "k \<in> set (jkeys s)" for k
    using that flagsD(2) [OF s(1)] by (auto simp: jkeys_def)
  moreover have "{v. \<exists>r. r \<in> set (evaluateGraphCycleWarnings h graph) \<and> rr_nodeId r = v} = set (jkeys s)"
    unfolding ids [symmetric] by auto
  ultimately show ?thesis using flagsD(1) [OF s(1)] unfolding ids by blast
qed

lemma rule_severities:
  "wr_severity parallelNestedDepthExceededRule = SevError"
  "wr_severity parallelNestedConcurrencyCapRule = SevWarning"
  by (simp_all add: parallelNestedDepthExceededRule_def parallelNestedConcurrencyCapRule_def)

lemma error_results:
  "(\<exists>r. r \<in> set (evaluateGraphWarningRules node graph parallelGraphWarningRules) \<and> rr_severity r = SevError)
    \<longleftrightarrow> (\<exists>t. wr_evaluate parallelNestedDepthExceededRule node graph = Some t)" (is "?l \<longleftrightarrow> ?r")
proof
  show "?l \<Longrightarrow> ?r"
    unfolding evaluateGraphWarningRules_set parallelGraphWarningRules_def
    by (auto simp: rule_severities)
next
  assume ?r
  then obtain t where "wr_evaluate parallelNestedDepthExceededRule node graph = Some t" by blast
  then have "\<lparr>rr_ruleId = wr_id parallelNestedDepthExceededRule, rr_severity = SevError,
      rr_nodeId = rn_id node, rr_message = tr_message t, rr_params = tr_params t\<rparr>
      \<in> set (evaluateGraphWarningRules node graph parallelGraphWarningRules)"
    unfolding evaluateGraphWarningRules_set parallelGraphWarningRules_def rule_severities(1) [symmetric]
    by auto
  then show ?l by (metis rule_result.select_convs(2))
qed

text \<open>
  C33. The only blocking result of the rules (severity \<open>error\<close>, on which the save endpoint refuses the graph)
  is reported exactly on the graphs in which a Parallel node leads through a branch port to a second one, and
  the second one through a branch port to a third; on a loop the three need not differ.
\<close>
theorem blocking_rule_iff_chain:
  "(\<exists>r. r \<in> set (evaluateGraphWarningRulesForGraph graph GRAPH_WARNING_RULES_BY_TYPE)
        \<and> rr_severity r = SevError) \<longleftrightarrow>
   (\<exists>p child g. p \<in> set (rg_nodes graph) \<and> rn_type p = ''parallel''
      \<and> nested_parallel graph (rn_id p) child \<and> nested_parallel graph (rn_id child) g)"
proof -
  have "(\<exists>r. r \<in> set (evaluateGraphWarningRules node graph parallelGraphWarningRules)
        \<and> rr_severity r = SevError)
      \<longleftrightarrow> rn_type node = ''parallel'' \<and>
        (\<exists>child g. nested_parallel graph (rn_id node) child \<and> nested_parallel graph (rn_id child) g)" for node
    unfolding depth_rule_iff [symmetric] by (rule error_results)
  moreover have "GRAPH_WARNING_RULES_BY_TYPE ty
      = (if ty = ''parallel'' then Some parallelGraphWarningRules else None)" for ty
    by (simp add: GRAPH_WARNING_RULES_BY_TYPE_def)
  then have "(\<exists>r. r \<in> set (evaluateGraphWarningRulesForGraph graph GRAPH_WARNING_RULES_BY_TYPE) \<and> rr_severity r = SevError)
      \<longleftrightarrow> (\<exists>node \<in> set (rg_nodes graph). rn_type node = ''parallel'' \<and>
            (\<exists>r. r \<in> set (evaluateGraphWarningRules node graph parallelGraphWarningRules) \<and> rr_severity r = SevError))"
    unfolding evaluateForGraph_set by (auto split: if_splits)
  ultimately show ?thesis by auto
qed


section \<open>Two consequences on concrete graphs\<close>

definition rnode :: "string \<Rightarrow> string \<Rightarrow> rule_node" where
  "rnode i ty = \<lparr>rn_id = i, rn_type = ty, rn_config = None, rn_label = None\<rparr>"

definition redge :: "string \<Rightarrow> string \<Rightarrow> string \<Rightarrow> rule_edge" where
  "redge u port v =
     \<lparr>re_source = u, re_sourceHandle = Some port, re_target = v, re_targetHandle = Some ''in''\<rparr>"

definition stored_edge :: "rule_edge \<Rightarrow> graph_edge" where
  "stored_edge e = \<lparr>sourceNodeId = re_source e, sourcePort = the (re_sourceHandle e),
     targetNodeId = re_target e, targetPort = the (re_targetHandle e)\<rparr>"

text \<open>Three Parallel nodes in sequence: the branches of each meet at the next one.\<close>

definition sequential_edges :: "rule_edge list" where
  "sequential_edges =
     [redge ''P'' ''branch_0'' ''a'', redge ''P'' ''branch_1'' ''b'', redge ''a'' ''out'' ''Q'',
      redge ''b'' ''out'' ''Q'', redge ''Q'' ''branch_0'' ''c'', redge ''Q'' ''branch_1'' ''d'',
      redge ''c'' ''out'' ''R'', redge ''d'' ''out'' ''R'']"

definition sequential_graph :: rule_graph where
  "sequential_graph =
     \<lparr>rg_nodes = [rnode ''P'' ''parallel'', rnode ''a'' ''code'', rnode ''b'' ''code'',
        rnode ''Q'' ''parallel'', rnode ''c'' ''code'', rnode ''d'' ''code'', rnode ''R'' ''parallel''],
      rg_edges = sequential_edges\<rparr>"

text \<open>
  The depth rule follows the edges past the node where the branches join. On three Parallel
  nodes in sequence it reports a nesting depth above 2, an error that rejects the save, although
  the engine counts none of the three as part of a branch of another.
\<close>
theorem sequential_parallels_rejected:
  "map rr_severity (evaluateGraphWarningRulesForGraph sequential_graph GRAPH_WARNING_RULES_BY_TYPE) = [SevError]
   \<and> set (allBodyNodeIds (collectParallelBranchMembership ''P'' (map stored_edge sequential_edges) 2)) = {''a'', ''b''}
   \<and> set (allBodyNodeIds (collectParallelBranchMembership ''Q'' (map stored_edge sequential_edges) 2)) = {''c'', ''d''}
   \<and> set (allBodyNodeIds (collectParallelBranchMembership ''R'' (map stored_edge sequential_edges) 2)) = {}"
proof -
  have "map rr_severity (evaluateGraphWarningRulesForGraph sequential_graph GRAPH_WARNING_RULES_BY_TYPE) = [SevError]"
    by code_simp
  moreover have "set (allBodyNodeIds (collectParallelBranchMembership ''P'' (map stored_edge sequential_edges) 2))
      = {''a'', ''b''}" by code_simp
  moreover have "set (allBodyNodeIds (collectParallelBranchMembership ''Q'' (map stored_edge sequential_edges) 2))
      = {''c'', ''d''}" by code_simp
  moreover have "set (allBodyNodeIds (collectParallelBranchMembership ''R'' (map stored_edge sequential_edges) 2)) = {}"
    by code_simp
  ultimately show ?thesis by simp
qed

definition switch_loop :: "rule_edge list" where
  "switch_loop = [redge ''a'' ''case_0'' ''b'', redge ''b'' ''out'' ''a'']"

text \<open>
  The cycle rule depends on the order in which the nodes are listed: a loop of a Switch and
  another node is reported when the Switch is listed first and passes when it is listed second.
\<close>
theorem cycle_warning_order_dependent:
  "evaluateGraphCycleWarnings h
     \<lparr>rg_nodes = [rnode ''a'' ''switch'', rnode ''b'' ''code''], rg_edges = switch_loop\<rparr> = [cycle_warning h ''b'']
   \<and> evaluateGraphCycleWarnings h
     \<lparr>rg_nodes = [rnode ''b'' ''code'', rnode ''a'' ''switch''], rg_edges = switch_loop\<rparr> = []"
  by code_simp


end
