(* ===== verification/ErrorPolicy.thy ===== *)
theory ErrorPolicy
  imports NodeOutput
begin

text \<open>
  What the engine does with a failing node: the error policy of \<open>error-policy.handler.ts\<close>, and
  \<open>getErrorPolicyConfig\<close> and \<open>executeWithRetry\<close> of \<open>execution-engine.service.ts\<close>. A handler is a
  function on the state of the world. Its loop of attempts runs for ever when the configured bound
  is infinite, so it is an option-valued partial function; \<open>retry_loop_runs\<close> shows that it returns
  for every finite bound, with the same result as \<open>try_times\<close>. \<open>Math.pow\<close> is the argument \<open>pow\<close>.
\<close>

section \<open>Errors\<close>

text \<open>Errors by name and message, values thrown that are no errors, and the two signals the engine
  recognises by class.\<close>

datatype exn =
    Raised string string
  | ThrownValue jsval
  | ExecutionCancelled string
  | ParkRelease

definition isAbortError :: "host \<Rightarrow> exn \<Rightarrow> bool" where
  "isAbortError h e = (case e of
     Raised name _ \<Rightarrow> name = ''AbortError''
   | ThrownValue v \<Rightarrow> js_get h ''name'' v = JStr ''AbortError''
   | _ \<Rightarrow> False)"

text \<open>\<open>err instanceof Error ? err : new Error(String(err))\<close>.\<close>

definition to_error :: "host \<Rightarrow> exn \<Rightarrow> exn" where
  "to_error h e = (case e of ThrownValue v \<Rightarrow> Raised ''Error'' (to_js_string h v) | _ \<Rightarrow> e)"

definition exn_name :: "exn \<Rightarrow> string" where
  "exn_name e = (case e of
     Raised name _ \<Rightarrow> name | ThrownValue _ \<Rightarrow> ''''
   | ExecutionCancelled _ \<Rightarrow> ''ExecutionCancelledError'' | ParkRelease \<Rightarrow> ''ParkReleaseSignal'')"

definition exn_message :: "host \<Rightarrow> exn \<Rightarrow> string" where
  "exn_message h e = (case e of
     Raised _ message \<Rightarrow> message | ThrownValue v \<Rightarrow> to_js_string h v
   | ExecutionCancelled message \<Rightarrow> message
   | ParkRelease \<Rightarrow> ''Nested sub-workflow blocking node parked (durable release)'')"

section \<open>Configuration\<close>

text \<open>The number that an arithmetic or order operator reads.\<close>

definition to_number :: "host \<Rightarrow> jsval \<Rightarrow> jsnum" where
  "to_number h v = (case v of
     JUndef \<Rightarrow> NaN | JNull \<Rightarrow> Fin 0 | JBool b \<Rightarrow> Fin (if b then 1 else 0) | JNum x \<Rightarrow> x
   | _ \<Rightarrow> string_to_num (to_js_string h v))"

record retry_config =
  rt_maxRetries :: jsval
  rt_retryInterval :: jsval
  rt_backoffMultiplier :: jsval

definition DEFAULT_RETRY_CONFIG :: retry_config where
  "DEFAULT_RETRY_CONFIG = \<lparr>rt_maxRetries = JNum (Fin 3), rt_retryInterval = JNum (Fin 1000),
     rt_backoffMultiplier = JNum (Fin 2)\<rparr>"

record error_policy_config =
  ep_policy :: jsval
  ep_defaultOutput :: jsval
  ep_retryConfig :: "retry_config option"

definition read_retry_config :: "host \<Rightarrow> jsval \<Rightarrow> retry_config option" where
  "read_retry_config h v =
     (if is_nullish v then None
      else Some \<lparr>rt_maxRetries = js_get h ''maxRetries'' v, rt_retryInterval = js_get h ''retryInterval'' v,
             rt_backoffMultiplier = js_get h ''backoffMultiplier'' v\<rparr>)"

definition getErrorPolicyConfig :: "host \<Rightarrow> props \<Rightarrow> error_policy_config" where
  "getErrorPolicyConfig h config =
     (let errorHandling = obj_get h config ''errorHandling''
      in if \<not> js_truthy errorHandling
         then \<lparr>ep_policy = JStr ''stop_workflow'', ep_defaultOutput = JUndef, ep_retryConfig = None\<rparr>
         else \<lparr>ep_policy = nullish_or (js_get h ''policy'' errorHandling) (JStr ''stop_workflow''),
            ep_defaultOutput = js_get h ''defaultOutput'' errorHandling,
            ep_retryConfig = read_retry_config h (js_get h ''retryConfig'' errorHandling)\<rparr>)"

definition retry_config_of :: "error_policy_config \<Rightarrow> retry_config" where
  "retry_config_of config =
     (case ep_retryConfig config of Some c \<Rightarrow> c | None \<Rightarrow> DEFAULT_RETRY_CONFIG)"

definition calculateRetryDelay :: "host \<Rightarrow> (jsnum \<Rightarrow> jsnum \<Rightarrow> jsnum) \<Rightarrow> nat \<Rightarrow> retry_config \<Rightarrow> jsnum" where
  "calculateRetryDelay h pow currentRetryCount config =
     num_mul (to_number h (rt_retryInterval config))
       (pow (to_number h (rt_backoffMultiplier config)) (num_of_nat currentRetryCount))"

section \<open>handleError\<close>

datatype error_action =
    ActStop
  | ActSkip
  | ActUseDefault jsval
  | ActRetry jsnum
  | ActRouteError jsval

definition handleError :: "host \<Rightarrow> (jsnum \<Rightarrow> jsnum \<Rightarrow> jsnum) \<Rightarrow> exn \<Rightarrow> error_policy_config \<Rightarrow> nat
    \<Rightarrow> objs \<Rightarrow> error_action \<times> objs" where
  "handleError h pow error config currentRetryCount s =
     (let policy = ep_policy config
      in if policy = JStr ''stop_workflow'' then (ActStop, s)
         else if policy = JStr ''skip_node'' then (ActSkip, s)
         else if policy = JStr ''use_default_output'' then
           (ActUseDefault (nullish_or (ep_defaultOutput config) JNull), s)
         else if policy = JStr ''retry'' then
           (let retryConfig = retry_config_of config
            in if num_less (num_of_nat currentRetryCount) (to_number h (rt_maxRetries retryConfig))
               then (ActRetry (calculateRetryDelay h pow currentRetryCount retryConfig), s)
               else (ActStop, s))
         else if policy = JStr ''route_to_error_port'' then
           (let (err, s1) = alloc_obj [(''code'', JStr (exn_name error)), (''message'', JStr (exn_message h error))] s;
                (output, s2) = alloc_obj [(''error'', err)] s1
            in (ActRouteError output, s2))
         else (ActStop, s))"

section \<open>executeWithRetry\<close>

type_synonym 'w attempt = "'w \<Rightarrow> (exn + jsval) \<times> 'w"

text \<open>The outcome, the attempts recorded in \<open>retryCount\<close> and the waiting times.\<close>

record 'w retried =
  rd_outcome :: "exn + jsval"
  rd_retryCount :: nat
  rd_delays :: "jsnum list"
  rd_world :: 'w

definition cancels :: "host \<Rightarrow> exn \<Rightarrow> bool" where
  "cancels h e = (isAbortError h (to_error h e) \<or> (case e of ExecutionCancelled _ \<Rightarrow> True | _ \<Rightarrow> False))"

partial_function (option) retry_loop ::
    "host \<Rightarrow> 'w attempt \<Rightarrow> jsnum \<Rightarrow> (nat \<Rightarrow> jsnum) \<Rightarrow> nat \<Rightarrow> exn option \<Rightarrow> nat \<Rightarrow> jsnum list \<Rightarrow> 'w
      \<Rightarrow> 'w retried option" where
  "retry_loop h run maxRetries delay attempt lastError retryCount delays w =
     (if num_le (num_of_nat attempt) maxRetries then
        (case run w of
           (Inr v, w') \<Rightarrow> Some \<lparr>rd_outcome = Inr v, rd_retryCount = retryCount, rd_delays = delays, rd_world = w'\<rparr>
         | (Inl e, w') \<Rightarrow>
             (if cancels h e
              then Some \<lparr>rd_outcome = Inl (to_error h e), rd_retryCount = Suc attempt, rd_delays = delays, rd_world = w'\<rparr>
              else retry_loop h run maxRetries delay (Suc attempt) (Some (to_error h e)) (Suc attempt)
                     (if num_less (num_of_nat attempt) maxRetries then delays @ [delay attempt] else delays) w'))
      else Some \<lparr>rd_outcome = Inl (case lastError of Some e \<Rightarrow> e
                     | None \<Rightarrow> Raised ''Error'' ''All retry attempts exhausted''),
             rd_retryCount = retryCount, rd_delays = delays, rd_world = w\<rparr>)"

declare retry_loop.simps [code]

text \<open>\<open>aborted\<close> is the check of the cancellation signal before the first attempt.\<close>

definition executeWithRetry :: "host \<Rightarrow> (jsnum \<Rightarrow> jsnum \<Rightarrow> jsnum) \<Rightarrow> 'w attempt \<Rightarrow> props \<Rightarrow> bool \<Rightarrow> 'w
    \<Rightarrow> 'w retried option" where
  "executeWithRetry h pow run config aborted w =
     (let errorPolicyConfig = getErrorPolicyConfig h config
      in if aborted then Some \<lparr>rd_outcome = Inl (Raised ''AbortError'' ''This operation was aborted''),
             rd_retryCount = 0, rd_delays = [], rd_world = w\<rparr>
         else if ep_policy errorPolicyConfig \<noteq> JStr ''retry'' then
           (let (r, w') = run w
            in Some \<lparr>rd_outcome = r, rd_retryCount = 0, rd_delays = [], rd_world = w'\<rparr>)
         else
           (let retryConfig = retry_config_of errorPolicyConfig
            in retry_loop h run (to_number h (rt_maxRetries retryConfig))
                 (\<lambda>attempt. calculateRetryDelay h pow attempt retryConfig) 0 None 0 [] w))"

text \<open>The reference: run until a success or a cancellation, at most \<open>n + 1\<close> times.\<close>

fun try_times :: "host \<Rightarrow> 'w attempt \<Rightarrow> nat \<Rightarrow> 'w \<Rightarrow> (exn + jsval) \<times> 'w" where
  "try_times h run n w =
     (case run w of
        (Inr v, w') \<Rightarrow> (Inr v, w')
      | (Inl e, w') \<Rightarrow>
          (if cancels h e \<or> n = 0 then (Inl (to_error h e), w') else try_times h run (n - 1) w'))"

declare try_times.simps [simp del]

section \<open>Retries\<close>

lemma num_of_nat_exact:
  assumes "n \<le> 2 ^ 53"
  shows "num_of_nat n = Fin (of_nat n)"
proof -
  have "int n \<le> 2 ^ 53" using assms of_nat_le_iff [of n "2 ^ 53", where 'a = int] by simp
  then show ?thesis using num_of_int_small [of "int n"] by simp
qed

lemma num_le_nat: "num_le (Fin (of_nat a)) (Fin (of_nat b)) \<longleftrightarrow> a \<le> b"
  by (auto simp: num_le_def num_less_def num_eq_def is_zero_def)

lemma num_less_nat: "num_less (Fin (of_nat a)) (Fin (of_nat b)) \<longleftrightarrow> a < b"
  by (auto simp: num_less_def)

lemma retry_loop_runs:
  assumes "M < 2 ^ 53"
  shows "a \<le> M \<Longrightarrow> \<exists>r. retry_loop h run (Fin (of_nat M)) delay a lastError rc delays w = Some r
      \<and> (rd_outcome r, rd_world r) = try_times h run (M - a) w
      \<and> length (rd_delays r) \<le> length delays + (M - a)"
proof (induction "M - a" arbitrary: a lastError rc delays w)
  case 0
  then have a: "a = M" by simp
  have le: "num_le (num_of_nat M) (Fin (of_nat M))" "\<not> num_le (num_of_nat (Suc M)) (Fin (of_nat M))"
      "\<not> num_less (num_of_nat M) (Fin (of_nat M))"
    using assms by (simp_all add: num_of_nat_exact num_le_nat num_less_nat del: of_nat_Suc)
  obtain r w' where run: "run w = (r, w')" by (cases "run w")
  show ?case
  proof (cases r)
    case (Inl e)
    then show ?thesis
      unfolding a using le run retry_loop.simps [of h run _ delay "Suc M"]
      by (simp add: retry_loop.simps [of h run _ delay M] try_times.simps [of h run 0 w])
  next
    case (Inr v)
    then show ?thesis
      unfolding a using le run
      by (simp add: retry_loop.simps [of h run _ delay M] try_times.simps [of h run 0 w])
  qed
next
  case (Suc n)
  then have a: "a < M" and n: "M - a = Suc n" "n = M - Suc a" by simp_all
  have le: "num_le (num_of_nat a) (Fin (of_nat M))" "num_less (num_of_nat a) (Fin (of_nat M))"
    using assms a by (simp_all add: num_of_nat_exact num_le_nat num_less_nat)
  obtain r w' where run: "run w = (r, w')" by (cases "run w")
  show ?case
  proof (cases r)
    case (Inl e)
    show ?thesis
    proof (cases "cancels h e")
      case True
      then show ?thesis
        using le run Inl
        by (simp add: retry_loop.simps [of h run _ delay a] try_times.simps [of h run _ w])
    next
      case False
      obtain r' where r': "retry_loop h run (Fin (of_nat M)) delay (Suc a) (Some (to_error h e)) (Suc a)
            (delays @ [delay a]) w' = Some r'"
          "(rd_outcome r', rd_world r') = try_times h run (M - Suc a) w'"
          "length (rd_delays r') \<le> length (delays @ [delay a]) + (M - Suc a)"
        using Suc.hyps(1) [OF n(2)] a Suc_leI by blast
      then show ?thesis
        using le run Inl False n
        by (simp add: retry_loop.simps [of h run _ delay a] try_times.simps [of h run "Suc (M - Suc a)" w])
    qed
  next
    case (Inr v)
    then show ?thesis
      using le run
      by (simp add: retry_loop.simps [of h run _ delay a] try_times.simps [of h run _ w])
  qed
qed


definition no_host :: host where
  "no_host = \<lparr>h_clock = (\<lambda>_. 0), h_random = (\<lambda>_. Fin 0), h_pow10 = (\<lambda>_. Fin 1), h_upper = id,
     h_lower = id, h_locale_compare = (\<lambda>_ _. 0), h_fun_source = id, h_object_proto = (\<lambda>_. None),
     h_array_proto = (\<lambda>_. None), h_code_unit = (\<lambda>_. []), h_max_string = 536870888,
     h_day_valid = (\<lambda>_. False), h_day_format = (\<lambda>_ _. []), h_day_iso = id,
     h_day_add = (\<lambda>_ _ _. None), h_day_sub = (\<lambda>_ _ _. None), h_day_diff = (\<lambda>_ _ _. Fin 0),
     h_day_now = (\<lambda>_. []), h_day_today = (\<lambda>_. [])\<rparr>"

text \<open>Node settings with the policy \<open>retry\<close> and the given retry settings.\<close>

definition retry_settings :: "props \<Rightarrow> props" where
  "retry_settings ps = [(''errorHandling'', JObj 0 [(''policy'', JStr ''retry''), (''retryConfig'', JObj 1 ps)])]"

lemma retry_settings_policy [simp]:
  "ep_policy (getErrorPolicyConfig h (retry_settings ps)) = JStr ''retry''"
  by (simp add: getErrorPolicyConfig_def retry_settings_def Let_def obj_get_def js_get_def nullish_or_def)

lemma retry_settings_max [simp]:
  "rt_maxRetries (retry_config_of (getErrorPolicyConfig h (retry_settings ps))) = obj_get h ps ''maxRetries''"
  by (simp add: getErrorPolicyConfig_def retry_settings_def retry_config_of_def read_retry_config_def
      Let_def obj_get_def js_get_def)

text \<open>A handler that counts its runs and always fails in the same way.\<close>

definition failing :: "exn \<Rightarrow> nat attempt" where
  "failing e = (\<lambda>w. (Inl e, Suc w))"


text \<open>The policy \<open>retry\<close> also retries the park signal of a nested workflow, which is no failure: with
  the default settings a node that parks is run four times before the signal reaches the engine.\<close>

theorem park_signal_retried:
  "map_option (\<lambda>r. (rd_outcome r, rd_world r))
     (executeWithRetry no_host pow (failing ParkRelease)
       [(''errorHandling'', JObj 0 [(''policy'', JStr ''retry'')])] False 0) = Some (Inl ParkRelease, 4)"
proof -
  let ?config = "[(''errorHandling'', JObj 0 [(''policy'', JStr ''retry'')])]"
  have policy: "ep_policy (getErrorPolicyConfig no_host ?config) = JStr ''retry''"
    by (simp add: getErrorPolicyConfig_def Let_def obj_get_def js_get_def nullish_or_def no_host_def)
  have "retry_config_of (getErrorPolicyConfig no_host ?config) = DEFAULT_RETRY_CONFIG"
    by (simp add: getErrorPolicyConfig_def Let_def obj_get_def js_get_def nullish_or_def no_host_def
        retry_config_of_def read_retry_config_def)
  then have max: "to_number no_host (rt_maxRetries (retry_config_of (getErrorPolicyConfig no_host ?config)))
      = Fin (of_nat 3)" by (simp add: DEFAULT_RETRY_CONFIG_def to_number_def)
  have "\<exists>r. retry_loop no_host (failing ParkRelease) (Fin (of_nat 3)) delay 0 None 0 [] 0 = Some r
      \<and> (rd_outcome r, rd_world r) = try_times no_host (failing ParkRelease) 3 0" for delay
    using retry_loop_runs [of 3 0 no_host "failing ParkRelease" delay None 0 "[]" 0] by auto
  moreover have "try_times no_host (failing ParkRelease) 3 0 = (Inl ParkRelease, 4)"
    by (simp add: try_times.simps failing_def cancels_def isAbortError_def to_error_def)
  ultimately show ?thesis
    using policy max by (auto simp: executeWithRetry_def Let_def)
qed

text \<open>Retry settings without \<open>maxRetries\<close> keep the handler from running at all: the engine compares
  the first attempt with \<open>undefined\<close> and fails the node as if every attempt had failed.\<close>

theorem retry_without_bound_never_runs:
  "executeWithRetry no_host pow run (retry_settings [(''retryInterval'', JNum (Fin 500))]) False w
   = Some \<lparr>rd_outcome = Inl (Raised ''Error'' ''All retry attempts exhausted''), rd_retryCount = 0,
       rd_delays = [], rd_world = w\<rparr>"
  by (simp add: executeWithRetry_def Let_def retry_loop.simps [of _ _ NaN] to_number_def obj_get_def no_host_def
      num_le_def num_less_def num_eq_def)

end
