(* ===== verification/NodeRun.thy ===== *)
theory NodeRun
  imports ErrorPolicy Resolver
begin

text \<open>
  One node execution: \<open>executeNode\<close> of \<open>execution-engine.service.ts\<close> with everything it calls that
  changes state (the row of the node execution, the events, the output caches, the set of executed
  nodes, the execution path). The handlers are fields of \<open>node_env\<close>: they are the code that differs
  from node type to node type; a handler sees its input, the resolved settings and the context, and works on the whole run. Writes to the database
  and event deliveries succeed. An event carries its row; the fields copied from the row into its
  payload are left out.
\<close>

section \<open>Rows, events and the state of a run\<close>

datatype node_status = NodePending | NodeRunning | NodeCompleted | NodeFailed | NodeCancelled
  | NodeSkipped | NodeWaiting

text \<open>The error column: a message and, where the source sets one, a code.\<close>

record node_row =
  nr_nodeId :: string
  nr_status :: node_status
  nr_input :: jsval
  nr_output :: jsval
  nr_error :: "(string \<times> string option) option"
  nr_retryCount :: nat
  nr_finished :: bool

datatype node_event =
    EvStarted nat
  | EvCompleted nat
  | EvFailed nat string
  | EvSkipped nat "string option"
  | EvCancelled nat "(string \<times> string option) option"
  | EvMessage string jsval jsval
  | EvFailedNoRow string string

record 'w run =
  ru_objs :: objs
  ru_outputs :: "(string, jsval) jmap"
  ru_structured :: "(string, handler_output) jmap"
  ru_resolved :: "(string, props) jmap"
  ru_executed :: "string list"
  ru_rows :: "node_row list"
  ru_events :: "node_event list"
  ru_path :: "string list"
  ru_ticks :: nat
  ru_loop :: "loop_context option"
  ru_item :: "item_context option"
  ru_world :: 'w

definition emit :: "node_event \<Rightarrow> 'w run \<Rightarrow> 'w run" where
  "emit e st = st\<lparr>ru_events := ru_events st @ [e]\<rparr>"

definition set_row :: "nat \<Rightarrow> (node_row \<Rightarrow> node_row) \<Rightarrow> 'w run \<Rightarrow> 'w run" where
  "set_row i f st = st\<lparr>ru_rows := (ru_rows st)[i := f (ru_rows st ! i)]\<rparr>"

definition mark_executed :: "string \<Rightarrow> 'w run \<Rightarrow> 'w run" where
  "mark_executed nodeId st = st\<lparr>ru_executed := jadd nodeId (ru_executed st)\<rparr>"

definition createNodeExecution :: "string \<Rightarrow> node_status \<Rightarrow> jsval \<Rightarrow> 'w run \<Rightarrow> nat \<times> 'w run" where
  "createNodeExecution nodeId status inputData st =
     (let (input, objs) = (if is_nullish inputData then alloc_obj [] (ru_objs st) else (inputData, ru_objs st))
      in (length (ru_rows st),
          st\<lparr>ru_objs := objs, ru_rows := ru_rows st @ [\<lparr>nr_nodeId = nodeId, nr_status = status,
            nr_input = input, nr_output = JNull, nr_error = None, nr_retryCount = 0, nr_finished = False\<rparr>]\<rparr>))"

definition appendExecutionPath :: "string \<Rightarrow> 'w run \<Rightarrow> 'w run" where
  "appendExecutionPath nodeId st = st\<lparr>ru_path := ru_path st @ [nodeId]\<rparr>"

definition markNodeCancelled :: "nat \<Rightarrow> (string \<times> string option) option \<Rightarrow> 'w run \<Rightarrow> 'w run" where
  "markNodeCancelled row envelope st =
     emit (EvCancelled row envelope)
       (set_row row (\<lambda>r. r\<lparr>nr_status := NodeCancelled, nr_output := JNull, nr_error := envelope,
          nr_finished := True\<rparr>) st)"

section \<open>The output caches\<close>

definition wrapBareAsNodeHandlerOutput :: "host \<Rightarrow> jsval \<Rightarrow> objs \<Rightarrow> handler_output \<times> objs" where
  "wrapBareAsNodeHandlerOutput h raw s =
     (let (config, s') = alloc_obj [] s;
          bare = \<lparr>ho_config = config, ho_output = raw, ho_meta = None, ho_port = None, ho_status = None,
            ho_resumeState = None, ho_retryState = None\<rparr>
      in case raw of
           JObj _ _ \<Rightarrow>
             (let status = js_get h ''status'' raw; port = js_get h ''port'' raw;
                  resume = js_get h ''_resumeState'' raw
              in (bare\<lparr>ho_output := unwrapEngineFlatValue h s raw,
                   ho_status := (case status of JStr _ \<Rightarrow> Some status | _ \<Rightarrow> None),
                   ho_port := (case port of JStr _ \<Rightarrow> Some port | JArr _ _ \<Rightarrow> Some port | _ \<Rightarrow> None),
                   ho_resumeState := (case resume of JObj _ _ \<Rightarrow> Some resume | _ \<Rightarrow> None)\<rparr>, s'))
         | _ \<Rightarrow> (bare, s'))"

definition canonical_fields :: "host \<Rightarrow> jsval \<Rightarrow> handler_output" where
  "canonical_fields h v =
     (let get = (\<lambda>k. js_get h k v)
      in \<lparr>ho_config = get ''config'', ho_output = get ''output'', ho_meta = defined (get ''meta''),
          ho_port = defined (get ''port''), ho_status = defined (get ''status''),
          ho_resumeState = defined (get ''_resumeState''), ho_retryState = defined (get ''_retryState'')\<rparr>)"

text \<open>\<open>a ?? b\<close> on optional fields.\<close>

definition opt_nullish :: "jsval option \<Rightarrow> jsval option \<Rightarrow> jsval option" where
  "opt_nullish a b = (case a of Some v \<Rightarrow> (if is_nullish v then b else a) | None \<Rightarrow> b)"

definition setNodeOutput :: "host \<Rightarrow> string \<Rightarrow> jsval \<Rightarrow> 'w run \<Rightarrow> 'w run" where
  "setNodeOutput h nodeId output st =
     (let (derived, objs) = (if isNewShape h output then (canonical_fields h output, ru_objs st)
            else wrapBareAsNodeHandlerOutput h output (ru_objs st));
          entry = (case map_of (ru_structured st) nodeId of
            None \<Rightarrow> derived
          | Some existing \<Rightarrow>
              \<lparr>ho_config = ho_config existing, ho_output = ho_output derived,
               ho_meta = opt_nullish (ho_meta derived) (ho_meta existing),
               ho_port = opt_nullish (ho_port derived) (ho_port existing),
               ho_status = opt_nullish (ho_status derived) (ho_status existing),
               ho_resumeState = None, ho_retryState = None\<rparr>)
      in st\<lparr>ru_objs := objs, ru_outputs := jput nodeId output (ru_outputs st),
            ru_structured := jput nodeId entry (ru_structured st)\<rparr>)"

text \<open>Outside a parallel branch the context holds the registered cache itself.\<close>

definition commitNodeOutput :: "host \<Rightarrow> string \<Rightarrow> jsval \<Rightarrow> 'w run \<Rightarrow> 'w run" where
  "commitNodeOutput h nodeId output st = setNodeOutput h nodeId output st"

section \<open>Handlers\<close>

text \<open>
  What \<open>executeNode\<close> adds to the context for one node: the names its templates saw, its settings
  before resolution, its identifier, label and type, and its row. A handler is a function on the whole run: the handler of a
  workflow node runs the nodes of another workflow inside it (\<open>executeInline\<close>), with rows, outputs,
  execution marks and events of their own. Its call is taken to settle: it returns or throws.
\<close>

record node_context =
  nc_context :: exec_context
  nc_expressionContext :: props
  nc_rawConfig :: props
  nc_nodeId :: string
  nc_nodeExecutionId :: nat
  nc_nodeLabel :: string
  nc_nodeType :: string

record 'w handler =
  hd_errors :: "props \<Rightarrow> string list option"        \<comment> \<open>\<open>validate\<close>: the errors when invalid\<close>
  hd_execute :: "jsval \<Rightarrow> props \<Rightarrow> node_context \<Rightarrow> 'w run attempt"

record 'w node_env =
  ne_process :: process
  ne_pow :: "jsnum \<Rightarrow> jsnum \<Rightarrow> jsnum"
  ne_handlers :: "(string, 'w handler) jmap"
  ne_executionId :: string
  ne_workflowId :: string
  ne_meta :: execution_meta
  ne_trigger :: "props option"
  ne_variables :: "'w \<Rightarrow> jsval"
  ne_thread :: "'w \<Rightarrow> jsval list option"
  ne_workspaceId :: string
  ne_hasDefaultLlm :: "'w \<Rightarrow> exn + bool"
  ne_aborted :: "'w \<Rightarrow> bool"

abbreviation ne_host :: "'w node_env \<Rightarrow> host" where
  "ne_host env \<equiv> ps_host (ne_process env)"

text \<open>The execution context as handlers and expressions see it.\<close>

definition context_of :: "'w node_env \<Rightarrow> 'w run \<Rightarrow> exec_context" where
  "context_of env st = \<lparr>xc_executionId = ne_executionId env, xc_workflowId = ne_workflowId env,
     xc_variables = ne_variables env (ru_world st), xc_outputs = ru_outputs st, xc_structured = ru_structured st,
     xc_loop = ru_loop st, xc_item = ru_item st, xc_thread = ne_thread env (ru_world st),
     xc_trigger = ne_trigger env\<rparr>"

text \<open>Run a computation of the expression package: it reads the clock and creates objects.\<close>

definition thrown_exn :: "js_throw \<Rightarrow> exn" where
  "thrown_exn e = Raised (if is_expression_error e then ''ExpressionError'' else ''Error'') (error_message e)"

definition counters :: "'w run \<Rightarrow> est" where
  "counters st = \<lparr>e_ticks = ru_ticks st, e_next = ob_next (ru_objs st)\<rparr>"

definition with_counters :: "est \<Rightarrow> 'w run \<Rightarrow> 'w run" where
  "with_counters e st = st\<lparr>ru_ticks := e_ticks e, ru_objs := (ru_objs st)\<lparr>ob_next := e_next e\<rparr>\<rparr>"

definition run_ev :: "'a ev \<Rightarrow> 'w run \<Rightarrow> (exn + 'a) \<times> 'w run" where
  "run_ev m st =
     (let (r, e) = m (counters st) in (map_sum thrown_exn id r, with_counters e st))"

definition get_handler :: "'w node_env \<Rightarrow> string \<Rightarrow> exn + 'w handler" where
  "get_handler env ty = (case map_of (ne_handlers env) ty of
     Some hdl \<Rightarrow> Inr hdl
   | None \<Rightarrow> Inl (Raised ''Error''
       (''UNKNOWN_NODE_TYPE: No handler registered for node type '' @ dquoted ty)))"

definition AI_NO_LLM_PROVIDER_MESSAGE :: string where
  "AI_NO_LLM_PROVIDER_MESSAGE = ''LLM provider or model must be selected (auto-handled by the canvas when a workspace default provider is configured).''"

definition AI_LLM_PROVIDER_NODE_TYPES :: "string list" where
  "AI_LLM_PROVIDER_NODE_TYPES = [''ai_agent'', ''text_classifier'', ''information_extractor'']"

definition filterAiNoLlmProviderError :: "'w node_env \<Rightarrow> string \<Rightarrow> string list \<Rightarrow> 'w \<Rightarrow> string list" where
  "filterAiNoLlmProviderError env nodeType errors w =
     (if nodeType \<notin> set AI_LLM_PROVIDER_NODE_TYPES then errors
      else if AI_NO_LLM_PROVIDER_MESSAGE \<notin> set errors then errors
      else if ne_workspaceId env = [] then errors
      else case ne_hasDefaultLlm env w of
        Inl _ \<Rightarrow> errors
      | Inr hasDefault \<Rightarrow>
          (if \<not> hasDefault then errors else filter (\<lambda>err. err \<noteq> AI_NO_LLM_PROVIDER_MESSAGE) errors))"

section \<open>Running a handler\<close>

definition PRESENTATION_NODE_TYPES :: "string list" where
  "PRESENTATION_NODE_TYPES = [''carousel'', ''table'', ''chart'', ''template'']"

text \<open>
  The handler, its validation of the settings, the resolved settings and the names that their
  templates saw.
\<close>

definition resolve_settings :: "'w node_env \<Rightarrow> (string, node) jmap \<Rightarrow> node \<Rightarrow> jsval \<Rightarrow> 'w run
    \<Rightarrow> (exn + props \<times> props) \<times> 'w run" where
  "resolve_settings env nodeMap n nodeInput st =
     run_ev (bindM (buildExpressionContext (ne_process env) nodeInput (context_of env st) nodeMap (ne_meta env))
       (\<lambda>built. let exprContext = spread_template_input (node_type n) nodeInput built
          in bindM (resolveConfig (ne_host env) (node_config n) exprContext (node_type n))
               (\<lambda>resolvedConfig. retM (resolvedConfig, exprContext)))) st"

definition prepare_node :: "'w node_env \<Rightarrow> (string, node) jmap \<Rightarrow> node \<Rightarrow> jsval \<Rightarrow> 'w run
    \<Rightarrow> (exn + 'w handler \<times> props \<times> props) \<times> 'w run" where
  "prepare_node env nodeMap n nodeInput st =
     (case get_handler env (node_type n) of
        Inl e \<Rightarrow> (Inl e, st)
      | Inr handler \<Rightarrow>
          (let filteredErrors = (case hd_errors handler (node_config n) of
                 None \<Rightarrow> []
               | Some errors \<Rightarrow> filterAiNoLlmProviderError env (node_type n) errors (ru_world st))
           in if filteredErrors \<noteq> []
              then (Inl (Raised ''Error'' (''INVALID_NODE_CONFIG: '' @ js_join '', '' filteredErrors)), st)
              else let (r, st1) = resolve_settings env nodeMap n nodeInput st
                   in (map_sum id (Pair handler) r, st1)))"

definition node_context_of :: "'w node_env \<Rightarrow> node \<Rightarrow> props \<Rightarrow> nat \<Rightarrow> 'w run \<Rightarrow> node_context" where
  "node_context_of env n exprContext row st = \<lparr>nc_context = context_of env st,
     nc_expressionContext = exprContext, nc_rawConfig = node_config n, nc_nodeId = node_id n,
     nc_nodeExecutionId = row, nc_nodeLabel = node_label n, nc_nodeType = node_type n\<rparr>"

text \<open>Keep the adapted output, the resolved settings and the routed engine value.\<close>

definition record_output :: "host \<Rightarrow> node \<Rightarrow> props \<Rightarrow> handler_output \<Rightarrow> 'w run \<Rightarrow> jsval \<times> 'w run" where
  "record_output h n resolvedConfig adapted st =
     (let st1 = st\<lparr>ru_structured := jput (node_id n) adapted (ru_structured st),
            ru_resolved := jput (node_id n) resolvedConfig (ru_resolved st)\<rparr>;
          (finalOutput, objs) = node_result h adapted (ru_objs st1)
      in (finalOutput,
          mark_executed (node_id n) (commitNodeOutput h (node_id n) finalOutput (st1\<lparr>ru_objs := objs\<rparr>))))"

definition NODE_ERROR_MESSAGE_MAX_LEN :: nat where
  "NODE_ERROR_MESSAGE_MAX_LEN = 2000"

definition clampNodeErrorMessage :: "host \<Rightarrow> string \<Rightarrow> string" where
  "clampNodeErrorMessage h raw =
     (if NODE_ERROR_MESSAGE_MAX_LEN < length raw
      then take NODE_ERROR_MESSAGE_MAX_LEN raw @ h_code_unit h 8230 else raw)"

definition settle_row :: "nat \<Rightarrow> node_status \<Rightarrow> jsval \<Rightarrow> (string \<times> string option) option \<Rightarrow> 'w run \<Rightarrow> 'w run" where
  "settle_row row status output error st =
     set_row row (\<lambda>r. r\<lparr>nr_status := status, nr_output := output, nr_error := error, nr_finished := True\<rparr>) st"

definition finalizeErrorPortNode :: "host \<Rightarrow> node \<Rightarrow> nat \<Rightarrow> jsval \<Rightarrow> jsval
    \<Rightarrow> (string, graph_edge list) jmap \<Rightarrow> 'w run \<Rightarrow> string option \<times> 'w run" where
  "finalizeErrorPortNode h n row rawOutput finalOutput outgoing st =
     (let errorEnvelope = js_get h ''error'' finalOutput;
          errorCode = (case js_get h ''code'' errorEnvelope of JStr c \<Rightarrow> (if c = [] then None else Some c) | _ \<Rightarrow> None);
          errorMessage = clampNodeErrorMessage h (case js_get h ''message'' errorEnvelope of
            JStr m \<Rightarrow> m | _ \<Rightarrow> ''Node routed to error port'');
          st1 = emit (EvFailed row errorMessage)
            (settle_row row NodeFailed rawOutput (Some (errorMessage, errorCode)) st)
      in (if hasConnectedErrorEdge (node_id n) outgoing then None else Some errorMessage, st1))"

definition isBlockingReturn :: "host \<Rightarrow> jsval \<Rightarrow> bool" where
  "isBlockingReturn h output = (is_object output \<and> js_get h ''status'' output = JStr ''waiting_for_input'')"

text \<open>The row after a return: failed over the error port, completed, or still open when waiting.\<close>

definition settle_return :: "host \<Rightarrow> node \<Rightarrow> nat \<Rightarrow> handler_output \<Rightarrow> jsval \<Rightarrow> jsval
    \<Rightarrow> (string, graph_edge list) jmap \<Rightarrow> 'w run \<Rightarrow> string option \<times> 'w run" where
  "settle_return h n row adapted output finalOutput outgoing st =
     (if isBlockingReturn h output then
        (None, set_row row (\<lambda>r. r\<lparr>nr_output := output\<rparr>) st)
      else if isErrorPortRouted h finalOutput then
        finalizeErrorPortNode h n row output finalOutput outgoing st
      else
        (let st1 = emit (EvCompleted row) (settle_row row NodeCompleted output (nr_error (ru_rows st ! row)) st)
         in (None, if node_type n \<in> set PRESENTATION_NODE_TYPES
                   then emit (EvMessage (node_id n) (ho_config adapted) (ho_output adapted)) st1 else st1)))"

text \<open>
  The body of the \<open>try\<close>: \<open>Inr\<close> with the message of the missing error edge, if any. \<open>None\<close> when
  the retries never end.
\<close>

definition run_node :: "'w node_env \<Rightarrow> (string, node) jmap \<Rightarrow> node \<Rightarrow> jsval \<Rightarrow> (string, graph_edge list) jmap
    \<Rightarrow> nat \<Rightarrow> 'w run \<Rightarrow> ((exn + string option) \<times> 'w run) option" where
  "run_node env nodeMap n nodeInput outgoing row st =
     (let h = ne_host env
      in case prepare_node env nodeMap n nodeInput st of
           (Inl e, st0) \<Rightarrow> Some (Inl e, st0)
         | (Inr (handler, resolvedConfig, exprContext), st0) \<Rightarrow>
             (case executeWithRetry h (ne_pow env)
                     (hd_execute handler nodeInput resolvedConfig (node_context_of env n exprContext row st0))
                     (node_config n) (ne_aborted env (ru_world st0)) st0 of
                None \<Rightarrow> None
              | Some r \<Rightarrow>
                  (let st1 = set_row row (\<lambda>x. x\<lparr>nr_retryCount := rd_retryCount r\<rparr>) (rd_world r)
                   in case rd_outcome r of
                        Inl e \<Rightarrow> Some (Inl e, st1)
                      | Inr output \<Rightarrow>
                          (case adaptHandlerReturn h output (ru_objs st1) of
                             Inl message \<Rightarrow> Some (Inl (Raised ''Error'' message), st1)
                           | Inr (adapted, objs) \<Rightarrow>
                               (let (finalOutput, st2) = record_output h n resolvedConfig adapted (st1\<lparr>ru_objs := objs\<rparr>);
                                    (fallback, st3) = settle_return h n row adapted output finalOutput outgoing st2
                                in Some (Inr fallback, appendExecutionPath (node_id n) st3))))))"

section \<open>Failures\<close>

text \<open>The handler of the \<open>catch\<close>: signals are passed on, other errors meet the node's error policy.\<close>

definition apply_policy :: "'w node_env \<Rightarrow> node \<Rightarrow> nat \<Rightarrow> exn \<Rightarrow> 'w run \<Rightarrow> (exn + unit) \<times> 'w run" where
  "apply_policy env n row e st =
     (let h = ne_host env;
          message = exn_message h e;
          (action, objs) = handleError h (ne_pow env) (to_error h e) (getErrorPolicyConfig h (node_config n))
            (nr_retryCount (ru_rows st ! row)) (ru_objs st);
          st0 = st\<lparr>ru_objs := objs\<rparr>;
          old = nr_output (ru_rows st ! row)
      in case action of
           ActSkip \<Rightarrow>
             (Inr (), mark_executed (node_id n) (emit (EvSkipped row (Some message))
                (settle_row row NodeSkipped old (Some (message, None)) st0)))
         | ActUseDefault output \<Rightarrow>
             (let st1 = commitNodeOutput h (node_id n) output st0;
                  (rowOutput, objs1) = (if is_nullish output then alloc_obj [] (ru_objs st1) else (output, ru_objs st1))
              in (Inr (), mark_executed (node_id n)
                    (settle_row row NodeCompleted rowOutput (nr_error (ru_rows st ! row)) (st1\<lparr>ru_objs := objs1\<rparr>))))
         | ActRouteError output \<Rightarrow>
             (Inr (), mark_executed (node_id n)
                (settle_row row NodeFailed old (Some (message, None)) (commitNodeOutput h (node_id n) output st0)))
         | _ \<Rightarrow>
             (Inl e, emit (EvFailed row message) (settle_row row NodeFailed old (Some (message, None)) st0)))"

definition catch_node :: "'w node_env \<Rightarrow> node \<Rightarrow> nat \<Rightarrow> exn \<Rightarrow> 'w run \<Rightarrow> (exn + unit) \<times> 'w run" where
  "catch_node env n row e st =
     (if isAbortError (ne_host env) e
      then (Inl e, markNodeCancelled row (Some (exn_message (ne_host env) e, Some ''AbortError'')) st)
      else case e of
        ParkRelease \<Rightarrow> (Inl e, st)
      | ExecutionCancelled _ \<Rightarrow> (Inl e, markNodeCancelled row None st)
      | _ \<Rightarrow> apply_policy env n row e st)"

definition executeNode :: "'w node_env \<Rightarrow> (string, node) jmap \<Rightarrow> node \<Rightarrow> jsval \<Rightarrow> (string, graph_edge list) jmap \<Rightarrow> 'w run
    \<Rightarrow> ((exn + unit) \<times> 'w run) option" where
  "executeNode env nodeMap n nodeInput outgoing st =
     (let (row, st1) = createNodeExecution (node_id n) NodeRunning nodeInput st;
          st2 = emit (EvStarted row) st1
      in case run_node env nodeMap n nodeInput outgoing row st2 of
           None \<Rightarrow> None
         | Some (Inl e, st3) \<Rightarrow> Some (catch_node env n row e st3)
         | Some (Inr None, st3) \<Rightarrow> Some (Inr (), st3)
         | Some (Inr (Some message), st3) \<Rightarrow>
             Some (Inl (Raised ''ErrorPortFallbackError'' message), st3))"


section \<open>What a node execution changes\<close>

lemma run_fields [simp]:
  "ru_rows (emit e st) = ru_rows st" "ru_outputs (emit e st) = ru_outputs st"
  "ru_executed (emit e st) = ru_executed st"
  "ru_rows (set_row i f st) = (ru_rows st)[i := f (ru_rows st ! i)]"
  "ru_outputs (set_row i f st) = ru_outputs st" "ru_executed (set_row i f st) = ru_executed st"
  "ru_rows (mark_executed k st) = ru_rows st" "ru_outputs (mark_executed k st) = ru_outputs st"
  "ru_executed (mark_executed k st) = jadd k (ru_executed st)"
  "ru_rows (appendExecutionPath k st) = ru_rows st" "ru_outputs (appendExecutionPath k st) = ru_outputs st"
  "ru_executed (appendExecutionPath k st) = ru_executed st"
  by (simp_all add: emit_def set_row_def mark_executed_def appendExecutionPath_def)

lemma commit_fields [simp]:
  "ru_rows (commitNodeOutput h k v st) = ru_rows st"
  "ru_executed (commitNodeOutput h k v st) = ru_executed st"
  "ru_outputs (commitNodeOutput h k v st) = jput k v (ru_outputs st)"
  by (simp_all add: commitNodeOutput_def setNodeOutput_def split: prod.splits)

lemma context_fields [simp]:
  "ru_loop (emit e st) = ru_loop st" "ru_item (emit e st) = ru_item st"
  "ru_loop (set_row i f st) = ru_loop st" "ru_item (set_row i f st) = ru_item st"
  "ru_loop (mark_executed k st) = ru_loop st" "ru_item (mark_executed k st) = ru_item st"
  "ru_loop (appendExecutionPath k st) = ru_loop st" "ru_item (appendExecutionPath k st) = ru_item st"
  "ru_loop (commitNodeOutput h k v st) = ru_loop st" "ru_item (commitNodeOutput h k v st) = ru_item st"
  by (simp_all add: emit_def set_row_def mark_executed_def appendExecutionPath_def commitNodeOutput_def
      setNodeOutput_def split: prod.splits)

text \<open>
  Between two states only nodes of \<open>S\<close> were at work: rows were added for them alone, and only their
  outputs and execution marks differ.
\<close>

definition inside :: "string set \<Rightarrow> 'w run \<Rightarrow> 'w run \<Rightarrow> bool" where
  "inside S a b \<longleftrightarrow>
     (\<exists>new. ru_rows b = ru_rows a @ new \<and> nr_nodeId ` set new \<subseteq> S)
     \<and> (\<forall>k. k \<notin> S \<longrightarrow> map_of (ru_outputs b) k = map_of (ru_outputs a) k)
     \<and> set (ru_executed a) \<subseteq> set (ru_executed b) \<and> set (ru_executed b) \<subseteq> set (ru_executed a) \<union> S"

lemma inside_refl: "inside S a a"
  by (simp add: inside_def)

lemma inside_trans: "inside S a b \<Longrightarrow> inside S b c \<Longrightarrow> inside S a c"
  unfolding inside_def by (elim conjE exE, intro conjI) (fastforce simp: image_Un, simp, blast, blast)

lemma inside_mono:
  assumes "inside S a b" and "S \<subseteq> T"
  shows "inside T a b"
proof -
  obtain new where "ru_rows b = ru_rows a @ new" "nr_nodeId ` set new \<subseteq> S"
    using assms(1) unfolding inside_def by blast
  then have "\<exists>new. ru_rows b = ru_rows a @ new \<and> nr_nodeId ` set new \<subseteq> T" using assms(2) by auto
  moreover have "\<forall>k. k \<notin> T \<longrightarrow> map_of (ru_outputs b) k = map_of (ru_outputs a) k"
    "set (ru_executed a) \<subseteq> set (ru_executed b)" "set (ru_executed b) \<subseteq> set (ru_executed a) \<union> T"
    using assms unfolding inside_def by auto
  ultimately show ?thesis unfolding inside_def by blast
qed

lemma inside_fields [simp]:
  "inside S (a\<lparr>ru_objs := x\<rparr>) b = inside S a b" "inside S a (b\<lparr>ru_objs := x\<rparr>) = inside S a b"
  "inside S (a\<lparr>ru_item := i\<rparr>) b = inside S a b" "inside S a (b\<lparr>ru_item := i\<rparr>) = inside S a b"
  "inside S (a\<lparr>ru_loop := l\<rparr>) b = inside S a b" "inside S a (b\<lparr>ru_loop := l\<rparr>) = inside S a b"
  "inside S a (b\<lparr>ru_ticks := k\<rparr>) = inside S a b" "inside S a (b\<lparr>ru_structured := t\<rparr>) = inside S a b"
  "inside S a (b\<lparr>ru_world := w\<rparr>) = inside S a b"
  by (simp_all add: inside_def)

text \<open>
  What a node asks of its handler: it works on nodes of \<open>S\<close> only. For the workflow node these are the nodes
  of the workflow it calls, and of the workflows called there; every other handler leaves rows, outputs
  and execution marks to the engine, with \<open>S\<close> empty.
\<close>

definition handler_touches :: "'w node_env \<Rightarrow> string \<Rightarrow> string set \<Rightarrow> bool" where
  "handler_touches env ty S \<longleftrightarrow>
     (\<forall>hdl. map_of (ne_handlers env) ty = Some hdl
        \<longrightarrow> (\<forall>v cfg ctx st. inside S st (snd (hd_execute hdl v cfg ctx st))))"

lemma retry_loop_keeps:
  assumes "\<And>a. R a a" and "\<And>a b c. R a b \<Longrightarrow> R b c \<Longrightarrow> R a c"
  shows "retry_loop h run maxr delay attempt lastE rc ds w = Some rd \<Longrightarrow> (\<And>a. R a (snd (run a))) \<Longrightarrow> R w (rd_world rd)"
proof (induction h run maxr delay attempt lastE rc ds w rd rule: retry_loop.raw_induct [rotated, consumes 1, case_names step])
  case (step rec h run maxr delay attempt lastE rc ds w rd)
  note rec = step(1) and eq = step(2) and keeps = step(3)
  obtain r w' where run: "run w = (r, w')" by fastforce
  have first: "R w w'" using keeps [of w] run by simp
  show ?case
  proof (cases "num_le (num_of_nat attempt) maxr \<and> isl r \<and> \<not> cancels h (projl r)")
    case True
    then obtain e where r: "r = Inl e" by (cases r) auto
    have "rec h run maxr delay (Suc attempt) (Some (to_error h e)) (Suc attempt)
        (if num_less (num_of_nat attempt) maxr then ds @ [delay attempt] else ds) w' = Some rd"
      using eq True run r by simp
    then have "R w' (rd_world rd)" by (rule rec) (rule keeps)
    with first show ?thesis by (rule assms(2))
  next
    case False
    then show ?thesis using eq run first assms(1) by (auto split: sum.splits if_splits)
  qed
qed

lemma executeWithRetry_inside:
  assumes "executeWithRetry h pow run cfg aborted w = Some rd" and "\<And>a. inside S a (snd (run a))"
  shows "inside S w (rd_world rd)"
  using assms(1) retry_loop_keeps [where R = "inside S" and run = run, OF inside_refl inside_trans _ assms(2)]
    assms(2) [of w]
  by (auto simp: executeWithRetry_def Let_def inside_refl split: if_splits prod.splits)

text \<open>
  Between two states the row \<open>r\<close> keeps its node, the other rows stay, rows are added for nodes of \<open>S\<close>
  alone, and only the outputs and execution marks of \<open>v\<close> and of nodes of \<open>S\<close> differ.
\<close>

definition only_node :: "string set \<Rightarrow> string \<Rightarrow> nat \<Rightarrow> 'w run \<Rightarrow> 'w run \<Rightarrow> bool" where
  "only_node S v r st st' =
     (length (ru_rows st) \<le> length (ru_rows st')
      \<and> (\<forall>i < length (ru_rows st). i \<noteq> r \<longrightarrow> ru_rows st' ! i = ru_rows st ! i)
      \<and> (\<forall>i. length (ru_rows st) \<le> i \<and> i < length (ru_rows st') \<longrightarrow> nr_nodeId (ru_rows st' ! i) \<in> S)
      \<and> (r < length (ru_rows st) \<longrightarrow> nr_nodeId (ru_rows st' ! r) = nr_nodeId (ru_rows st ! r))
      \<and> (\<forall>k. k \<notin> insert v S \<longrightarrow> map_of (ru_outputs st') k = map_of (ru_outputs st) k)
      \<and> set (ru_executed st) \<subseteq> set (ru_executed st')
      \<and> set (ru_executed st') \<subseteq> insert v (set (ru_executed st) \<union> S))"

lemma only_node_refl: "only_node S v r st st"
  by (auto simp: only_node_def)

lemma only_node_trans:
  assumes "only_node S v r a b" and "only_node S v r b c" and "r < length (ru_rows a)"
  shows "only_node S v r a c"
proof -
  have "nr_nodeId (ru_rows c ! i) \<in> S" if "length (ru_rows a) \<le> i" "i < length (ru_rows c)" for i
  proof (cases "i < length (ru_rows b)")
    case True
    then have "ru_rows c ! i = ru_rows b ! i" using assms that unfolding only_node_def by auto
    then show ?thesis using True that assms(1) unfolding only_node_def by auto
  qed (use that assms(2) in \<open>auto simp: only_node_def\<close>)
  then show ?thesis using assms unfolding only_node_def by (auto 4 4)
qed

lemma inside_only_node:
  assumes "inside S a b"
  shows "only_node S v r a b \<and> (\<forall>i < length (ru_rows a). ru_rows b ! i = ru_rows a ! i)"
proof -
  obtain new where new: "ru_rows b = ru_rows a @ new" "nr_nodeId ` set new \<subseteq> S"
    using assms unfolding inside_def by blast
  have "nr_nodeId (ru_rows b ! i) \<in> S" if "length (ru_rows a) \<le> i" "i < length (ru_rows b)" for i
  proof -
    have "new ! (i - length (ru_rows a)) \<in> set new" using that by (intro nth_mem) (simp add: new(1))
    then show ?thesis using that new by (auto simp: nth_append)
  qed
  then show ?thesis using assms new(1) unfolding only_node_def inside_def by (auto simp: nth_append)
qed

lemma only_node_fields [simp]:
  "only_node S v r (st\<lparr>ru_objs := x\<rparr>) st' = only_node S v r st st'"
  "only_node S v r st (st'\<lparr>ru_objs := x\<rparr>) = only_node S v r st st'"
  "only_node S v r st (st'\<lparr>ru_ticks := k, ru_objs := x\<rparr>) = only_node S v r st st'"
  by (simp_all add: only_node_def)

lemma set_row_only: "(\<And>x. nr_nodeId (f x) = nr_nodeId x) \<Longrightarrow> only_node S v r st (set_row r f st)"
  by (auto simp: only_node_def nth_list_update)

lemma record_output_only:
  "record_output h n cfg adapted st = (v, st') \<Longrightarrow>
    only_node S (node_id n) r st st' \<and> node_id n \<in> set (ru_executed st') \<and> ru_rows st' = ru_rows st
    \<and> map_of (ru_outputs st') (node_id n) = Some v"
  by (auto simp: record_output_def only_node_def split: prod.splits)

text \<open>What is known of the row of a node execution that has ended.\<close>

definition settled :: "host \<Rightarrow> node_row \<Rightarrow> bool" where
  "settled h row \<longleftrightarrow>
     (nr_status row \<in> {NodeCompleted, NodeFailed, NodeSkipped} \<and> nr_finished row)
     \<or> (nr_status row = NodeRunning \<and> \<not> nr_finished row \<and> isBlockingReturn h (nr_output row))"

lemma finalizeErrorPortNode_only:
  "finalizeErrorPortNode h n r raw final out st = (m, st') \<Longrightarrow> r < length (ru_rows st) \<Longrightarrow>
    only_node S v r st st' \<and> nr_status (ru_rows st' ! r) = NodeFailed \<and> nr_finished (ru_rows st' ! r)
    \<and> ru_executed st' = ru_executed st"
  by (auto simp: finalizeErrorPortNode_def Let_def settle_row_def only_node_def)

lemma settle_return_only:
  assumes "settle_return h n r adapted raw final out st = (m, st')" and "r < length (ru_rows st)"
    and "nr_status (ru_rows st ! r) = NodeRunning" and "\<not> nr_finished (ru_rows st ! r)"
  shows "only_node S v r st st' \<and> ru_executed st' = ru_executed st \<and> settled h (ru_rows st' ! r)
    \<and> (m \<noteq> None \<longrightarrow> nr_status (ru_rows st' ! r) = NodeFailed \<and> nr_finished (ru_rows st' ! r))"
proof (cases "isBlockingReturn h raw")
  case True
  then show ?thesis using assms by (auto simp: settle_return_def settled_def intro!: set_row_only)
next
  case False
  show ?thesis
  proof (cases "isErrorPortRouted h final")
    case True
    then have "finalizeErrorPortNode h n r raw final out st = (m, st')"
      using assms(1) False by (simp add: settle_return_def)
    from finalizeErrorPortNode_only [OF this assms(2)] show ?thesis by (simp add: settled_def)
  next
    case no_route: False
    then show ?thesis
      using assms False
      by (auto simp: settle_return_def Let_def settle_row_def only_node_def settled_def split: if_splits)
  qed
qed

lemma run_ev_same:
  "run_ev m st = (r, st') \<Longrightarrow> st' = st\<lparr>ru_ticks := ru_ticks st', ru_objs := ru_objs st'\<rparr>"
  by (auto simp: run_ev_def with_counters_def split: prod.splits)

lemma prepare_same:
  "prepare_node env nodeMap n inp st = (r, st') \<Longrightarrow> st' = st\<lparr>ru_ticks := ru_ticks st', ru_objs := ru_objs st'\<rparr>"
  by (auto simp: prepare_node_def resolve_settings_def Let_def dest!: run_ev_same
      split: sum.splits if_splits prod.splits)

lemma prepare_only:
  assumes "prepare_node env nodeMap n inp st = (x, st')"
  shows "only_node S v r st st' \<and> ru_rows st' = ru_rows st \<and> ru_executed st' = ru_executed st
    \<and> ru_world st' = ru_world st"
proof -
  obtain t ob where "st' = st\<lparr>ru_ticks := t, ru_objs := ob\<rparr>" using prepare_same [OF assms] by blast
  then show ?thesis by (auto simp: only_node_def)
qed

text \<open>An open row: the node is running and nothing has been recorded yet.\<close>

definition open_row :: "nat \<Rightarrow> 'w run \<Rightarrow> bool" where
  "open_row r st \<longleftrightarrow> r < length (ru_rows st) \<and> nr_status (ru_rows st ! r) = NodeRunning \<and> \<not> nr_finished (ru_rows st ! r)"

lemma prepare_handler:
  assumes "prepare_node env nodeMap n inp st = (Inr (handler, cfg, ctx), st0)"
  shows "map_of (ne_handlers env) (node_type n) = Some handler"
proof -
  obtain hdl where hdl: "get_handler env (node_type n) = Inr hdl"
    using assms by (auto simp: prepare_node_def split: sum.splits)
  obtain r st1 where res: "resolve_settings env nodeMap n inp st = (r, st1)" by fastforce
  have "map_sum id (Pair hdl) r = Inr (handler, cfg, ctx)"
    using assms hdl res by (auto simp: prepare_node_def Let_def split: if_splits)
  then have "hdl = handler" by (cases r) auto
  then show ?thesis using hdl by (auto simp: get_handler_def split: option.splits)
qed

lemma run_node_only:
  assumes "run_node env nodeMap n inp out r st = Some (x, st')" and "open_row r st"
    and "handler_touches env (node_type n) S"
  shows "only_node S (node_id n) r st st' \<and>
    (case x of
       Inl e \<Rightarrow> open_row r st'
     | Inr m \<Rightarrow> node_id n \<in> set (ru_executed st') \<and> settled (ne_host env) (ru_rows st' ! r)
         \<and> (m \<noteq> None \<longrightarrow> nr_status (ru_rows st' ! r) = NodeFailed \<and> nr_finished (ru_rows st' ! r)))"
proof (cases "fst (prepare_node env nodeMap n inp st)")
  case (Inl e)
  then obtain st0 where prep: "prepare_node env nodeMap n inp st = (Inl e, st0)" by (metis prod.collapse)
  then show ?thesis
    using assms(1,2) prepare_only [OF prep, of S "node_id n" r] by (auto simp: run_node_def open_row_def)
next
  case (Inr hc)
  obtain handler cfg ctx where hc: "hc = (handler, cfg, ctx)" by (cases hc)
  define st0 where "st0 = snd (prepare_node env nodeMap n inp st)"
  have prep: "prepare_node env nodeMap n inp st = (Inr (handler, cfg, ctx), st0)"
    using Inr hc by (simp add: st0_def prod_eq_iff)
  note st0 = prepare_only [OF prep, of S "node_id n" r]
  let ?h = "ne_host env"
  obtain rd where rd: "executeWithRetry ?h (ne_pow env) (hd_execute handler inp cfg (node_context_of env n ctx r st0))
      (node_config n) (ne_aborted env (ru_world st0)) st0 = Some rd"
    using assms(1) prep by (auto simp: run_node_def Let_def split: option.splits)
  have "inside S a (snd (hd_execute handler inp cfg (node_context_of env n ctx r st0) a))" for a
    using assms(3) prepare_handler [OF prep] by (simp add: handler_touches_def)
  then have ran: "inside S st0 (rd_world rd)" by (rule executeWithRetry_inside [OF rd])
  define st1 where "st1 = set_row r (\<lambda>x. x\<lparr>nr_retryCount := rd_retryCount rd\<rparr>) (rd_world rd)"
  have rows: "r < length (ru_rows st)" using assms(2) by (simp add: open_row_def)
  have st0_w: "only_node S (node_id n) r st0 (rd_world rd)" "open_row r (rd_world rd)"
    using inside_only_node [OF ran, of "node_id n" r] st0 assms(2) by (auto simp: open_row_def only_node_def)
  have "only_node S (node_id n) r (rd_world rd) st1" by (auto simp: st1_def intro: set_row_only)
  then have "only_node S (node_id n) r st0 st1"
    using only_node_trans [OF st0_w(1)] st0 rows by simp
  then have st1: "only_node S (node_id n) r st st1" "open_row r st1"
    using st0 st0_w(2) rows only_node_trans [of S "node_id n" r st st0] by (auto simp: st1_def open_row_def)
  show ?thesis
  proof (cases "rd_outcome rd")
    case (Inl e)
    then show ?thesis using assms(1) prep rd st1 by (auto simp: run_node_def Let_def simp flip: st1_def)
  next
    case (Inr raw)
    show ?thesis
    proof (cases "adaptHandlerReturn ?h raw (ru_objs st1)")
      case (Inl message)
      then show ?thesis
        using assms(1) prep rd st1 \<open>rd_outcome rd = Inr raw\<close>
        by (auto simp: run_node_def Let_def simp flip: st1_def)
    next
      case adapted: (Inr ao)
      obtain adapted objs where ao: "ao = (adapted, objs)" by (cases ao)
      obtain final st2 where rec: "record_output ?h n cfg adapted (st1\<lparr>ru_objs := objs\<rparr>) = (final, st2)"
        by fastforce
      obtain m st3 where settle: "settle_return ?h n r adapted raw final out st2 = (m, st3)"
        by fastforce
      have x: "x = Inr m" "st' = appendExecutionPath (node_id n) st3"
        using assms(1) prep rd adapted ao rec settle
          \<open>rd_outcome rd = Inr raw\<close>
        by (simp_all add: run_node_def Let_def flip: st1_def)
      have st2: "only_node S (node_id n) r st1 st2" "node_id n \<in> set (ru_executed st2)" "open_row r st2"
        using record_output_only [OF rec, of S r] st1(2) by (simp_all add: open_row_def)
      have st3: "only_node S (node_id n) r st2 st3" "ru_executed st3 = ru_executed st2" "settled ?h (ru_rows st3 ! r)"
          "m \<noteq> None \<longrightarrow> nr_status (ru_rows st3 ! r) = NodeFailed \<and> nr_finished (ru_rows st3 ! r)"
        using settle_return_only [OF settle, of S "node_id n"] st2(3) by (simp_all add: open_row_def)
      have "only_node S (node_id n) r st st3"
        using only_node_trans [OF only_node_trans [OF st1(1) st2(1) rows] st3(1) rows] .
      then have "only_node S (node_id n) r st st'" by (simp add: x only_node_def)
      then show ?thesis using st2 st3 by (auto simp: x)
    qed
  qed
qed

lemma apply_policy_only:
  assumes "apply_policy env n r e st = (x, st')" and "r < length (ru_rows st)"
  shows "only_node S (node_id n) r st st' \<and> nr_finished (ru_rows st' ! r) \<and>
    (case x of
       Inr u \<Rightarrow> node_id n \<in> set (ru_executed st')
         \<and> nr_status (ru_rows st' ! r) \<in> {NodeSkipped, NodeCompleted, NodeFailed}
     | Inl e' \<Rightarrow> e' = e \<and> nr_status (ru_rows st' ! r) = NodeFailed)"
proof -
  obtain action objs where action: "handleError (ne_host env) (ne_pow env) (to_error (ne_host env) e)
      (getErrorPolicyConfig (ne_host env) (node_config n)) (nr_retryCount (ru_rows st ! r)) (ru_objs st)
      = (action, objs)" by fastforce
  show ?thesis
    using assms unfolding apply_policy_def action Let_def
    by (cases action) (auto simp: settle_row_def only_node_def split: if_splits prod.splits)
qed

definition cancelled_exn :: "host \<Rightarrow> exn \<Rightarrow> bool" where
  "cancelled_exn h e = (isAbortError h e \<or> (\<exists>m. e = ExecutionCancelled m))"

text \<open>The row of a node execution that threw: open for a park, otherwise ended.\<close>

definition thrown_row :: "host \<Rightarrow> exn \<Rightarrow> node_row \<Rightarrow> bool" where
  "thrown_row h e row \<longleftrightarrow>
     nr_status row = (if cancelled_exn h e then NodeCancelled else if e = ParkRelease then NodeRunning else NodeFailed)
     \<and> nr_finished row = (e \<noteq> ParkRelease)"

lemma catch_node_only:
  assumes "catch_node env n r e st = (x, st')" and "open_row r st"
  shows "only_node S (node_id n) r st st' \<and>
    (case x of
       Inr u \<Rightarrow> node_id n \<in> set (ru_executed st') \<and> settled (ne_host env) (ru_rows st' ! r)
     | Inl e' \<Rightarrow> e' = e \<and> thrown_row (ne_host env) e (ru_rows st' ! r))"
proof (cases "cancelled_exn (ne_host env) e \<or> e = ParkRelease")
  case True
  have "\<not> isAbortError (ne_host env) ParkRelease" by (simp add: isAbortError_def)
  then show ?thesis
    using True assms
    by (auto simp: catch_node_def cancelled_exn_def markNodeCancelled_def only_node_def open_row_def thrown_row_def
        split: exn.splits if_splits)
next
  case False
  then have "apply_policy env n r e st = (x, st')"
    using assms(1) by (auto simp: catch_node_def cancelled_exn_def split: exn.splits)
  from apply_policy_only [OF this, of S] assms(2) show ?thesis using False
    by (cases x) (auto simp: settled_def thrown_row_def open_row_def)
qed

lemma executeNode_only:
  assumes "executeNode env nodeMap n nodeInput outgoing st = Some (x, st')" and "handler_touches env (node_type n) S"
  obtains st2 where "only_node S (node_id n) (length (ru_rows st)) st2 st'"
    and "take (length (ru_rows st)) (ru_rows st2) = ru_rows st" and "length (ru_rows st2) = Suc (length (ru_rows st))"
    and "nr_nodeId (ru_rows st2 ! length (ru_rows st)) = node_id n"
    and "ru_executed st2 = ru_executed st" and "ru_outputs st2 = ru_outputs st"
    and "case x of
         Inr u \<Rightarrow> node_id n \<in> set (ru_executed st') \<and> settled (ne_host env) (ru_rows st' ! length (ru_rows st))
       | Inl e \<Rightarrow> thrown_row (ne_host env) e (ru_rows st' ! length (ru_rows st))"
proof -
  define r where "r = length (ru_rows st)"
  obtain st1 where start: "createNodeExecution (node_id n) NodeRunning nodeInput st = (r, st1)"
    by (fastforce simp: createNodeExecution_def r_def split: prod.splits)
  define st2 where "st2 = emit (EvStarted r) st1"
  have st2: "take r (ru_rows st2) = ru_rows st" "length (ru_rows st2) = Suc r" "nr_nodeId (ru_rows st2 ! r) = node_id n"
      "ru_executed st2 = ru_executed st" "ru_outputs st2 = ru_outputs st" "open_row r st2"
    using start by (auto simp: st2_def createNodeExecution_def r_def open_row_def split: prod.splits if_splits)
  obtain y st3 where run: "run_node env nodeMap n nodeInput outgoing r st2 = Some (y, st3)"
    using assms by (auto simp: executeNode_def start st2_def split: option.splits)
  note body = run_node_only [OF run st2(6) assms(2)]
  have rows: "r < length (ru_rows st2)" using st2(2) by simp
  have "only_node S (node_id n) r st2 st' \<and> (case x of
         Inr u \<Rightarrow> node_id n \<in> set (ru_executed st') \<and> settled (ne_host env) (ru_rows st' ! r)
       | Inl e \<Rightarrow> thrown_row (ne_host env) e (ru_rows st' ! r))"
  proof (cases y)
    case (Inl e)
    then have catch: "catch_node env n r e st3 = (x, st')"
      using assms(1) run by (simp add: executeNode_def start st2_def)
    have "open_row r st3" using body Inl by simp
    note caught = catch_node_only [OF catch this, of S]
    then have "only_node S (node_id n) r st2 st'" using body only_node_trans [OF _ _ rows] by blast
    then show ?thesis using caught by (auto split: sum.splits)
  next
    case (Inr m)
    then have x: "st' = st3" "x = (case m of None \<Rightarrow> Inr () | Some msg \<Rightarrow> Inl (Raised ''ErrorPortFallbackError'' msg))"
      using assms(1) run by (auto simp: executeNode_def start st2_def split: option.splits)
    then show ?thesis
      using body Inr by (auto simp: thrown_row_def cancelled_exn_def isAbortError_def split: option.splits)
  qed
  then show ?thesis using that st2 unfolding r_def by blast
qed

lemma executeNode_facts:
  assumes "executeNode env nodeMap n nodeInput outgoing st = Some (x, st')" and "handler_touches env (node_type n) S"
  shows "\<exists>own added. ru_rows st' = ru_rows st @ own # added \<and> nr_nodeId own = node_id n \<and> nr_nodeId ` set added \<subseteq> S
    \<and> map_of (ru_outputs st') |` (- insert (node_id n) S) = map_of (ru_outputs st) |` (- insert (node_id n) S)
    \<and> set (ru_executed st) \<subseteq> set (ru_executed st') \<and> set (ru_executed st') \<subseteq> insert (node_id n) (set (ru_executed st) \<union> S)
    \<and> (case x of
         Inr u \<Rightarrow> node_id n \<in> set (ru_executed st') \<and> settled (ne_host env) own
       | Inl e \<Rightarrow> thrown_row (ne_host env) e own)"
proof -
  let ?r = "length (ru_rows st)"
  obtain st2 where only: "only_node S (node_id n) ?r st2 st'" and rows: "take ?r (ru_rows st2) = ru_rows st"
      "length (ru_rows st2) = Suc ?r" "nr_nodeId (ru_rows st2 ! ?r) = node_id n"
    and same: "ru_executed st2 = ru_executed st" "ru_outputs st2 = ru_outputs st"
    and fin: "case x of
         Inr u \<Rightarrow> node_id n \<in> set (ru_executed st') \<and> settled (ne_host env) (ru_rows st' ! ?r)
       | Inl e \<Rightarrow> thrown_row (ne_host env) e (ru_rows st' ! ?r)"
    using executeNode_only [OF assms] .
  have len: "?r < length (ru_rows st')" using only rows(2) by (simp add: only_node_def)
  have "take ?r (ru_rows st') = take ?r (ru_rows st2)"
    using only rows(2) len by (intro nth_equalityI) (auto simp: only_node_def)
  then have split: "ru_rows st' = ru_rows st @ ru_rows st' ! ?r # drop (Suc ?r) (ru_rows st')"
    using rows(1) id_take_nth_drop [OF len] by simp
  have own: "nr_nodeId (ru_rows st' ! ?r) = node_id n" using only rows by (simp add: only_node_def)
  have added: "nr_nodeId ` set (drop (Suc ?r) (ru_rows st')) \<subseteq> S"
    using only rows(2) by (auto simp: only_node_def in_set_conv_nth)
  have outs: "map_of (ru_outputs st') |` (- insert (node_id n) S) = map_of (ru_outputs st) |` (- insert (node_id n) S)"
    using only same by (auto simp: only_node_def restrict_map_def fun_eq_iff)
  show ?thesis
    by (rule exI [of _ "ru_rows st' ! ?r"], rule exI [of _ "drop (Suc ?r) (ru_rows st')"])
      (use split own added outs fin only same in \<open>auto simp: only_node_def\<close>)
qed

text \<open>C5. A node execution settles its row. It adds one row for its node, and besides only rows of the
  nodes that its handler works on (none, unless the node calls a workflow): no earlier row changes, and
  no output or execution mark of any other node. When it returns, the node counts as executed and its row
  is completed, failed or skipped and ended, or it is open because the output it holds waits for input;
  when it throws, the row is cancelled for a cancellation, open for a park, and failed for every other
  error.\<close>

theorem executeNode_settles:
  assumes "executeNode env nodeMap n nodeInput outgoing st = Some (x, st')" and "handler_touches env (node_type n) S"
  shows "\<exists>own added. ru_rows st' = ru_rows st @ own # added \<and> nr_nodeId own = node_id n \<and> nr_nodeId ` set added \<subseteq> S
    \<and> map_of (ru_outputs st') |` (- insert (node_id n) S) = map_of (ru_outputs st) |` (- insert (node_id n) S)
    \<and> set (ru_executed st) \<subseteq> set (ru_executed st') \<and> set (ru_executed st') \<subseteq> insert (node_id n) (set (ru_executed st) \<union> S)
    \<and> (case x of
         Inr u \<Rightarrow> node_id n \<in> set (ru_executed st') \<and> settled (ne_host env) own
       | Inl e \<Rightarrow> thrown_row (ne_host env) e own)"
  by (rule executeNode_facts [OF assms])

lemma executeNode_inside:
  assumes "executeNode env nodeMap n inp out st = Some (x, st')" and "handler_touches env (node_type n) S"
    and "node_id n \<in> T" and "S \<subseteq> T"
  shows "inside T st st'"
proof -
  obtain own added where rows: "ru_rows st' = ru_rows st @ own # added" "nr_nodeId own = node_id n" "nr_nodeId ` set added \<subseteq> S"
    and outs: "map_of (ru_outputs st') |` (- insert (node_id n) S) = map_of (ru_outputs st) |` (- insert (node_id n) S)"
    and ex: "set (ru_executed st) \<subseteq> set (ru_executed st')" "set (ru_executed st') \<subseteq> insert (node_id n) (set (ru_executed st) \<union> S)"
    using executeNode_facts [OF assms(1,2)] by blast
  have "map_of (ru_outputs st') k = map_of (ru_outputs st) k" if "k \<notin> T" for k
  proof -
    have "k \<in> - insert (node_id n) S" using that assms(3,4) by auto
    then show ?thesis using outs by (metis restrict_in)
  qed
  moreover have "\<exists>new. ru_rows st' = ru_rows st @ new \<and> nr_nodeId ` set new \<subseteq> T"
    using rows assms(3,4) by (intro exI [of _ "own # added"]) auto
  ultimately show ?thesis using ex assms(3,4) unfolding inside_def by blast
qed


text \<open>A node that always fails, under a given error policy.\<close>

definition no_process :: process where
  "no_process = \<lparr>ps_host = no_host, ps_nowIso = (\<lambda>_. []), ps_allowlist = None, ps_env = (\<lambda>_. None)\<rparr>"

definition failing_handler :: "nat handler" where
  "failing_handler = \<lparr>hd_errors = (\<lambda>_. None),
     hd_execute = (\<lambda>_ _ _ st. let (r, w) = failing (Raised ''Error'' ''boom'') (ru_world st) in (r, st\<lparr>ru_world := w\<rparr>))\<rparr>"

definition failing_env :: "nat node_env" where
  "failing_env = \<lparr>ne_process = no_process, ne_pow = num_mul,
     ne_handlers = [(''fail'', failing_handler)],
     ne_executionId = ''e'', ne_workflowId = ''w'', ne_meta = \<lparr>em_startedAt = None, em_mode = None\<rparr>,
     ne_trigger = None, ne_variables = (\<lambda>_. JNull), ne_thread = (\<lambda>_. None), ne_workspaceId = [], ne_hasDefaultLlm = (\<lambda>_. Inr False),
     ne_aborted = (\<lambda>_. False)\<rparr>"

definition failing_node :: "string \<Rightarrow> node" where
  "failing_node policy = \<lparr>node_id = ''f'', node_type = ''fail'', node_category = INTEGRATION,
     node_label = ''F'', node_config = [(''errorHandling'', JObj 0 [(''policy'', JStr policy)])],
     node_isDisabled = False, node_containerId = None, node_toolOwnerId = None\<rparr>"

definition empty_run :: "nat run" where
  "empty_run = \<lparr>ru_objs = \<lparr>ob_next = 1, ob_marked = []\<rparr>, ru_outputs = [], ru_structured = [], ru_resolved = [],
     ru_executed = [], ru_rows = [], ru_events = [], ru_path = [], ru_ticks = 0, ru_loop = None, ru_item = None, ru_world = 0\<rparr>"

lemma failing_policy:
  "ep_policy (getErrorPolicyConfig no_host (node_config (failing_node policy))) = JStr policy"
  by (simp add: failing_node_def getErrorPolicyConfig_def Let_def obj_get_def js_get_def nullish_or_def no_host_def)

lemma failing_env_fields [simp]:
  "ne_host failing_env = no_host" "ne_pow failing_env = num_mul" "ne_aborted failing_env w = False"
  by (simp_all add: failing_env_def no_process_def)

lemma failing_resolve:
  assumes "find_sub ''{{'' policy = None"
  shows "\<exists>cfg ctx st'. prepare_node failing_env [] (failing_node policy) inp st
    = (Inr (failing_handler, cfg, ctx), st')"
proof -
  let ?m = "bindM (buildExpressionContext (ne_process failing_env) inp (context_of failing_env st) []
      (ne_meta failing_env)) (\<lambda>built. let exprContext = spread_template_input (node_type (failing_node policy)) inp built
        in bindM (resolveConfig (ne_host failing_env) (node_config (failing_node policy)) exprContext
          (node_type (failing_node policy))) (\<lambda>resolvedConfig. retM (resolvedConfig, exprContext)))"
  have "returns_ev (resolveConfig h (node_config (failing_node policy)) ctx ty)" for h ctx ty
    by (auto simp: resolveConfig_def failing_node_def resolveString_def MAX_DEPTH_def assms
        intro!: returns_intros)
  then have "returns_ev ?m"
    unfolding Let_def
    by (intro returns_ev_bind) (simp_all add: returns_ev_def buildExpressionContext_returns retM_def)
  then obtain cfg ctx e where "?m (counters st) = (Inr (cfg, ctx), e)"
    unfolding returns_ev_def by (metis surj_pair)
  then have "fst (resolve_settings failing_env [] (failing_node policy) inp st) = Inr (cfg, ctx)"
    by (simp add: resolve_settings_def run_ev_def)
  then obtain st' where "resolve_settings failing_env [] (failing_node policy) inp st = (Inr (cfg, ctx), st')"
    by (metis prod.collapse)
  moreover have "get_handler failing_env (node_type (failing_node policy)) = Inr failing_handler"
    by (simp add: get_handler_def failing_env_def failing_node_def)
  ultimately show ?thesis by (simp add: prepare_node_def failing_handler_def)
qed

lemma failing_run:
  assumes "policy \<noteq> ''retry''" and "find_sub ''{{'' policy = None"
  shows "\<exists>t ob. run_node failing_env [] (failing_node policy) inp out r st
    = Some (Inl (Raised ''Error'' ''boom''), set_row r (\<lambda>x. x\<lparr>nr_retryCount := 0\<rparr>)
        (st\<lparr>ru_ticks := t, ru_objs := ob, ru_world := Suc (ru_world st)\<rparr>))"
proof -
  obtain cfg ctx st' where prep: "prepare_node failing_env [] (failing_node policy) inp st
    = (Inr (failing_handler, cfg, ctx), st')"
    using failing_resolve [OF assms(2)] by blast
  obtain t ob where st': "st' = st\<lparr>ru_ticks := t, ru_objs := ob\<rparr>" using prepare_same [OF prep] by blast
  have commute: "st\<lparr>ru_world := w, ru_ticks := t, ru_objs := ob\<rparr> = st\<lparr>ru_ticks := t, ru_objs := ob, ru_world := w\<rparr>"
    for w :: nat by simp
  show ?thesis
    using assms(1) failing_policy [of policy]
    by (intro exI [of _ t] exI [of _ ob])
      (simp add: run_node_def prep st' executeWithRetry_def failing_handler_def failing_def Let_def
        with_counters_def counters_def commute)
qed

lemma failing_execute:
  assumes "policy \<noteq> ''retry''" and "find_sub ''{{'' policy = None"
  shows "\<exists>t ob. executeNode failing_env [] (failing_node policy) inp out st =
    (let (row, st1) = createNodeExecution ''f'' NodeRunning inp st
     in Some (apply_policy failing_env (failing_node policy) row (Raised ''Error'' ''boom'')
          (set_row row (\<lambda>x. x\<lparr>nr_retryCount := 0\<rparr>)
             ((emit (EvStarted row) st1)\<lparr>ru_ticks := t, ru_objs := ob, ru_world := Suc (ru_world (emit (EvStarted row) st1))\<rparr>))))"
proof -
  obtain row st1 where start: "createNodeExecution ''f'' NodeRunning inp st = (row, st1)" by fastforce
  have v: "node_id (failing_node policy) = ''f''" by (simp add: failing_node_def)
  obtain t ob where "run_node failing_env [] (failing_node policy) inp out row (emit (EvStarted row) st1)
    = Some (Inl (Raised ''Error'' ''boom''), set_row row (\<lambda>x. x\<lparr>nr_retryCount := 0\<rparr>)
        ((emit (EvStarted row) st1)\<lparr>ru_ticks := t, ru_objs := ob, ru_world := Suc (ru_world (emit (EvStarted row) st1))\<rparr>))"
    using failing_run [OF assms] by blast
  then show ?thesis
    by (intro exI [of _ t] exI [of _ ob])
      (simp add: executeNode_def v start catch_node_def isAbortError_def)
qed

lemma failing_touches: "handler_touches failing_env ty S"
  by (simp add: handler_touches_def failing_env_def failing_handler_def failing_def inside_refl)

theorem executeNode_settles_witness:
  "\<exists>x st'. executeNode failing_env [] (failing_node ''skip_node'') JUndef [] empty_run = Some (x, st')
     \<and> length (ru_rows st') = 1 \<and> x = Inr () \<and> nr_nodeId (last (ru_rows st')) = ''f''"
proof -
  obtain x st' where run: "executeNode failing_env [] (failing_node ''skip_node'') JUndef [] empty_run = Some (x, st')"
    and x: "x = Inr ()"
    using failing_execute [of "''skip_node''" JUndef "[]" empty_run]
    by (auto simp: find_sub.simps starts_with_def createNodeExecution_def apply_policy_def handleError_def failing_policy
        Let_def alloc_obj_def to_error_def)
  have "handler_touches failing_env (node_type (failing_node ''skip_node'')) {}"
    by (rule failing_touches)
  from executeNode_settles [OF run this] show ?thesis
    using run x by (auto simp: empty_run_def failing_node_def settled_def)
qed

section \<open>Routing to the error port\<close>


text \<open>Two edges that leave the failing node: its main port and its error port.\<close>

definition two_ports :: "(string, graph_edge list) jmap" where
  "two_ports = [(''f'', [
     \<lparr>sourceNodeId = ''f'', sourcePort = ''out'', targetNodeId = ''next'', targetPort = ''in''\<rparr>,
     \<lparr>sourceNodeId = ''f'', sourcePort = ''error'', targetNodeId = ''handler'', targetPort = ''in''\<rparr>])]"


section \<open>A node execution returns\<close>

text \<open>
  Under the policy \<open>retry\<close> the attempts are counted exactly up to \<open>2 ^ 53\<close>; no run of the engine gets
  there, but \<open>maxRetries\<close> may be \<open>Infinity\<close>.
\<close>

definition bounded_retries :: "host \<Rightarrow> node \<Rightarrow> bool" where
  "bounded_retries h n \<longleftrightarrow>
     (ep_policy (getErrorPolicyConfig h (node_config n)) = JStr ''retry''
      \<longrightarrow> (\<exists>M < 2 ^ 53. \<not> num_less (Fin (of_nat M))
            (to_number h (rt_maxRetries (retry_config_of (getErrorPolicyConfig h (node_config n)))))))"

lemma beyond_limit:
  assumes "M < 2 ^ 53" and "\<not> num_less (Fin (of_nat M)) x"
  shows "\<not> num_le (num_of_nat (Suc M)) x"
proof -
  have "num_of_nat (Suc M) = Fin (of_nat (Suc M))" by (rule num_of_nat_exact) (use assms(1) in simp)
  then show ?thesis using assms(2) by (cases x) (auto simp: num_le_def num_less_def num_eq_def is_zero_def)
qed

lemma retry_loop_returns:
  assumes "M < 2 ^ 53" and "\<not> num_less (Fin (of_nat M)) maxr"
  shows "attempt \<le> Suc M \<Longrightarrow> retry_loop h run maxr delay attempt lastE rc ds w \<noteq> None"
proof (induction "Suc M - attempt" arbitrary: attempt lastE rc ds w)
  case 0
  then have "attempt = Suc M" by simp
  then show ?case using beyond_limit [OF assms] by (simp add: retry_loop.simps [of h run maxr])
next
  case (Suc k)
  then have "retry_loop h run maxr delay (Suc attempt) lastE' rc' ds' w' \<noteq> None" for lastE' rc' ds' w'
    by (intro Suc.hyps(1)) simp_all
  then show ?case
    by (simp add: retry_loop.simps [of h run maxr delay attempt] del: not_None_eq split: prod.splits sum.splits)
qed

lemma executeNode_returns:
  assumes "bounded_retries (ne_host env) n"
  shows "executeNode env nodeMap n nodeInput outgoing st \<noteq> None"
proof -
  have retried: "executeWithRetry (ne_host env) (ne_pow env) run (node_config n) aborted w \<noteq> None" for run aborted and w :: "'a run"
  proof -
    have "retry_loop (ne_host env) run (to_number (ne_host env) (rt_maxRetries (retry_config_of
          (getErrorPolicyConfig (ne_host env) (node_config n))))) delay 0 None 0 [] w \<noteq> None"
      if policy: "ep_policy (getErrorPolicyConfig (ne_host env) (node_config n)) = JStr ''retry''" for delay
    proof -
      obtain M where "M < 2 ^ 53" "\<not> num_less (Fin (of_nat M)) (to_number (ne_host env) (rt_maxRetries (retry_config_of
          (getErrorPolicyConfig (ne_host env) (node_config n)))))"
        using assms policy unfolding bounded_retries_def by blast
      from this show ?thesis by (rule retry_loop_returns) simp
    qed
    then show ?thesis by (simp add: executeWithRetry_def Let_def del: not_None_eq split: prod.splits)
  qed
  have "run_node env nodeMap n nodeInput outgoing r st \<noteq> None" for r st
  proof -
    obtain y st0 where prep: "prepare_node env nodeMap n nodeInput st = (y, st0)" by fastforce
    show ?thesis
    proof (cases y)
      case (Inr hc)
      obtain handler cfg ctx where hc: "hc = (handler, cfg, ctx)" by (cases hc)
      obtain rd where "executeWithRetry (ne_host env) (ne_pow env)
          (hd_execute handler nodeInput cfg (node_context_of env n ctx r st0)) (node_config n)
          (ne_aborted env (ru_world st0)) st0 = Some rd"
        using retried by (meson not_None_eq)
      then show ?thesis using prep Inr hc by (auto simp: run_node_def Let_def split: sum.splits prod.splits)
    qed (simp add: run_node_def prep)
  qed
  moreover obtain row st1 where start: "createNodeExecution (node_id n) NodeRunning nodeInput st = (row, st1)"
    by fastforce
  ultimately obtain y st3 where "run_node env nodeMap n nodeInput outgoing row (emit (EvStarted row) st1) = Some (y, st3)"
    by (metis not_None_eq surj_pair)
  then show ?thesis
    by (cases y; cases "catch_node env n row (projl y) st3") (auto simp: executeNode_def start split: option.splits)
qed

end
