(* ===== verification/Topo.thy ===== *)
theory Topo
  imports Graph "HOL-Library.Multiset"
begin

text \<open>
  Kahn's algorithm (\<open>topological-sort.ts\<close>). The scan over the neighbours of the current node is a
  definition of its own; \<open>sort\<close> on strings is the lexicographic order of code units that
  \<open>Array.prototype.sort\<close> uses by default.
\<close>

section \<open>Definitions\<close>

definition in_degrees :: "string list \<Rightarrow> graph_edge list \<Rightarrow> (string, int) jmap" where
  "in_degrees nodeIds edges =
     fold (\<lambda>e m. if sourceNodeId e \<notin> set nodeIds \<or> targetNodeId e \<notin> set nodeIds then m
                 else jput (targetNodeId e) (jget_or 0 m (targetNodeId e) + 1) m)
       edges (fold (\<lambda>id. jput id 0) nodeIds [])"

text \<open>One neighbour: its degree drops, and it is ready when nothing is left.\<close>

definition relax :: "string \<Rightarrow> (string, int) jmap \<times> string list \<Rightarrow> (string, int) jmap \<times> string list" where
  "relax neighbor st =
     (let newDegree = jget_or 1 (fst st) neighbor - 1
      in (jput neighbor newDegree (fst st),
          if newDegree = 0 then snd st @ [neighbor] else snd st))"

definition relax_all :: "string list \<Rightarrow> (string, int) jmap \<Rightarrow> (string, int) jmap \<times> string list" where
  "relax_all neighbors inDegree = fold relax neighbors (inDegree, [])"

text \<open>The loop ends: a node enters the queue when the degree it may still lose reaches zero.\<close>

definition pending :: "(string, string list) jmap \<Rightarrow> (string, int) jmap \<Rightarrow> string set" where
  "pending adjacency m = {n \<in> \<Union> (set ` snd ` set adjacency). 0 < jget_or 1 m n}"

lemma finite_pending [simp]: "finite (pending adjacency m)"
  by (simp add: pending_def)

lemma relax_pending:
  assumes "n \<in> \<Union> (set ` snd ` set adjacency)"
  shows "card (pending adjacency (fst (relax n (m, ready)))) + length (snd (relax n (m, ready)))
    \<le> card (pending adjacency m) + length ready"
proof -
  let ?m = "jput n (jget_or 1 m n - 1) m"
  have sub: "pending adjacency ?m \<subseteq> pending adjacency m"
    by (auto simp: pending_def split: if_splits)
  show ?thesis
  proof (cases "jget_or 1 m n = 1")
    case True
    then have "n \<in> pending adjacency m" "n \<notin> pending adjacency ?m"
      using assms by (auto simp: pending_def)
    then have "pending adjacency ?m \<subset> pending adjacency m" using sub by blast
    then have "card (pending adjacency ?m) < card (pending adjacency m)"
      by (rule psubset_card_mono [OF finite_pending])
    then show ?thesis using True by (simp add: relax_def Let_def)
  next
    case False
    then show ?thesis
      using card_mono [OF finite_pending sub] by (simp add: relax_def Let_def)
  qed
qed

lemma relax_all_pending:
  assumes "set ns \<subseteq> \<Union> (set ` snd ` set adjacency)"
  shows "card (pending adjacency (fst (relax_all ns m))) + length (snd (relax_all ns m))
    \<le> card (pending adjacency m)"
proof -
  have "card (pending adjacency (fst (fold relax ns (m, ready)))) + length (snd (fold relax ns (m, ready)))
    \<le> card (pending adjacency m) + length ready" for ready
    using assms
  proof (induction ns arbitrary: m ready)
    case (Cons n ns)
    obtain m' ready' where r: "relax n (m, ready) = (m', ready')" by (cases "relax n (m, ready)")
    show ?case using Cons.IH [of m' ready'] relax_pending [of n adjacency m ready] Cons.prems r by simp
  qed simp
  from this [of "[]"] show ?thesis by (simp add: relax_all_def)
qed

lemma jget_or_subset: "set (jget_or [] adjacency v) \<subseteq> \<Union> (set ` snd ` set adjacency)"
proof (cases "map_of adjacency v")
  case (Some xs)
  then have "(v, xs) \<in> set adjacency" by (rule map_of_SomeD)
  then show ?thesis using Some by (force simp: jget_or_def)
qed (simp add: jget_or_def)

function kahn_loop ::
    "(string, string list) jmap \<Rightarrow> (string, int) jmap \<Rightarrow> string list \<Rightarrow> string list \<Rightarrow> string list" where
  "kahn_loop adjacency inDegree queue result =
     (case queue of
        [] \<Rightarrow> result
      | current # rest \<Rightarrow>
          (let r = relax_all (jget_or [] adjacency current) inDegree
           in kahn_loop adjacency (fst r) (rest @ sort (snd r)) (result @ [current])))"
  by pat_completeness auto
termination
proof (relation "measure (\<lambda>(adjacency, inDegree, queue, result).
    length queue + card (pending adjacency inDegree))", goal_cases)
  case 1
  show ?case by simp
next
  case (2 adjacency inDegree queue result current rest r)
  then show ?case
    using relax_all_pending [OF jget_or_subset, of adjacency current inDegree] by simp
qed

declare kahn_loop.simps [simp del]

definition cycle_error :: string where
  "cycle_error = ''Graph contains a cycle: topological sort could not process all nodes''"

definition topologicalSort :: "graph_node list \<Rightarrow> graph_edge list \<Rightarrow> string + string list" where
  "topologicalSort nodes edges =
     (let nodeIds = jset_of (map gn_id nodes);
          adjacency = build_adjacency nodeIds sourceNodeId targetNodeId targetNodeId edges;
          inDegree = in_degrees nodeIds edges;
          queue = sort (map fst (filter (\<lambda>kv. snd kv = 0) inDegree));
          result = kahn_loop adjacency inDegree queue []
      in if length result \<noteq> length nodeIds then Inl cycle_error else Inr result)"

section \<open>Degrees\<close>

lemma in_degrees_map:
  assumes "distinct nodeIds"
  shows "map_of (in_degrees nodeIds edges) n =
      (if n \<in> set nodeIds
       then Some (int (length (filter (\<lambda>e. targetNodeId e = n \<and> sourceNodeId e \<in> set nodeIds) edges)))
       else None)"
    and "jkeys (in_degrees nodeIds edges) = nodeIds"
proof -
  let ?step = "\<lambda>e m. if sourceNodeId e \<notin> set nodeIds \<or> targetNodeId e \<notin> set nodeIds then m
                 else jput (targetNodeId e) (jget_or 0 m (targetNodeId e) + 1) m"
  have zero: "map_of (fold (\<lambda>id. jput id 0) ids m) n = (if n \<in> set ids then Some 0 else map_of m n)"
    for ids and m :: "(string, int) jmap" and n
    by (induction ids arbitrary: m) auto
  have keys0: "jkeys (fold (\<lambda>id. jput id 0) ids m) = jkeys m @ ids"
    if "distinct ids" "set ids \<inter> set (jkeys m) = {}" for ids and m :: "(string, int) jmap"
    using that by (induction ids arbitrary: m) (auto simp: jkeys_jput)
  have deg: "map_of (fold ?step es m) n =
      (case map_of m n of
         None \<Rightarrow> None
       | Some d \<Rightarrow> Some (d + int (length (filter (\<lambda>e. targetNodeId e = n \<and> sourceNodeId e \<in> set nodeIds) es))))"
    if "dom (map_of m) = set nodeIds" for es m n
    using that
  proof (induction es arbitrary: m)
    case (Cons e es)
    show ?case
    proof (cases "sourceNodeId e \<notin> set nodeIds \<or> targetNodeId e \<notin> set nodeIds")
      case True
      then have "\<not> (targetNodeId e = n \<and> sourceNodeId e \<in> set nodeIds) \<or> map_of m n = None"
        using Cons.prems by auto
      then show ?thesis using True Cons.IH [OF Cons.prems] by (auto split: option.splits)
    next
      case False
      then obtain d where d: "map_of m (targetNodeId e) = Some d" using Cons.prems by blast
      have "dom (map_of (jput (targetNodeId e) (d + 1) m)) = set nodeIds" using Cons.prems False by auto
      from Cons.IH [OF this] show ?thesis
        using False d by (auto simp: jget_or_def split: option.splits)
    qed
  qed (simp split: option.splits)
  have keys: "jkeys (fold ?step es m) = jkeys m" if "set (jkeys m) = set nodeIds"
    for es and m :: "(string, int) jmap"
    using that by (induction es arbitrary: m) (auto simp: jkeys_jput)
  have "dom (map_of (fold (\<lambda>id. jput id (0 :: int)) nodeIds [])) = set nodeIds"
    by (auto simp: zero split: if_splits)
  from deg [OF this, of edges n] show "map_of (in_degrees nodeIds edges) n =
      (if n \<in> set nodeIds
       then Some (int (length (filter (\<lambda>e. targetNodeId e = n \<and> sourceNodeId e \<in> set nodeIds) edges)))
       else None)"
    by (simp add: in_degrees_def zero)
  show "jkeys (in_degrees nodeIds edges) = nodeIds"
    using keys [of "fold (\<lambda>id. jput id 0) nodeIds []" edges] keys0 [OF assms, of "[]"]
    by (simp add: in_degrees_def)
qed

lemma relax_all_result:
  assumes "\<And>x. x \<in> set ns \<Longrightarrow> \<exists>d. map_of m x = Some d \<and> int (count_list ns x) \<le> d"
  obtains m' r where "relax_all ns m = (m', r)" and "distinct r"
    and "set r = {x \<in> set ns. map_of m x = Some (int (count_list ns x))}"
    and "\<And>x. map_of m' x = map_option (\<lambda>d. d - int (count_list ns x)) (map_of m x)"
proof -
  have "\<exists>m' r. fold relax ns (m, ready) = (m', ready @ r) \<and> distinct r
      \<and> set r = {x \<in> set ns. map_of m x = Some (int (count_list ns x))}
      \<and> (\<forall>x. map_of m' x = map_option (\<lambda>d. d - int (count_list ns x)) (map_of m x))" for ready
    using assms
  proof (induction ns arbitrary: m ready)
    case Nil
    then show ?case by (simp add: option.map_ident)
  next
    case (Cons n ns)
    obtain d where d: "map_of m n = Some d" "int (count_list (n # ns) n) \<le> d"
      using Cons.prems [of n] by auto
    let ?m = "jput n (d - 1) m"
    let ?ready = "if d = 1 then ready @ [n] else ready"
    have step: "relax n (m, ready) = (?m, ?ready)" using d(1) by (simp add: relax_def jget_or_def Let_def)
    have "\<exists>d'. map_of ?m x = Some d' \<and> int (count_list ns x) \<le> d'" if "x \<in> set ns" for x
      using Cons.prems [of x] that d by auto
    from Cons.IH [OF this, of ?ready] obtain m' r where r: "fold relax ns (?m, ?ready) = (m', ?ready @ r)"
        "distinct r" "set r = {x \<in> set ns. map_of ?m x = Some (int (count_list ns x))}"
        "\<forall>x. map_of m' x = map_option (\<lambda>d. d - int (count_list ns x)) (map_of ?m x)"
      by blast
    define r' where "r' = (if d = 1 then n # r else r)"
    have "d = 1 \<Longrightarrow> n \<notin> set ns" using d(2) by (auto simp: count_list_0_iff)
    then have "distinct r'" using r(2,3) by (auto simp: r'_def)
    moreover have "fold relax (n # ns) (m, ready) = (m', ready @ r')"
      using r(1) step by (simp add: r'_def)
    moreover have "set r' = {x \<in> set (n # ns). map_of m x = Some (int (count_list (n # ns) x))}"
    proof (rule set_eqI)
      fix x
      have "n \<in> set r' \<longleftrightarrow> d = int (count_list (n # ns) n)"
        using r(3) d \<open>d = 1 \<Longrightarrow> n \<notin> set ns\<close>
        by (cases "n \<in> set ns") (auto simp: r'_def count_list_0_iff)
      moreover have "x \<noteq> n \<Longrightarrow> x \<in> set r' \<longleftrightarrow> x \<in> set ns \<and> map_of m x = Some (int (count_list ns x))"
        using r(3) by (simp add: r'_def)
      ultimately show "x \<in> set r' \<longleftrightarrow> x \<in> {x \<in> set (n # ns). map_of m x = Some (int (count_list (n # ns) x))}"
        using d(1) by (cases "x = n") auto
    qed
    moreover have "\<forall>x. map_of m' x = map_option (\<lambda>d. d - int (count_list (n # ns) x)) (map_of m x)"
      using r(4) d(1) by auto
    ultimately show ?case by blast
  qed
  from this [of "[]"] show thesis using that by (auto simp: relax_all_def)
qed

section \<open>Orders that respect a relation\<close>

definition in_order :: "('a \<times> 'a) set \<Rightarrow> 'a list \<Rightarrow> bool" where
  "in_order R xs = (\<forall>i < length xs. \<forall>u. (u, xs ! i) \<in> R \<longrightarrow> u \<in> set (take i xs))"

lemma in_order_snoc:
  "in_order R xs \<Longrightarrow> (\<And>u. (u, y) \<in> R \<Longrightarrow> u \<in> set xs) \<Longrightarrow> in_order R (xs @ [y])"
  by (auto simp: in_order_def nth_append less_Suc_eq)

lemma in_order_trancl:
  assumes "in_order R xs" and "(u, v) \<in> R\<^sup>+" and "i < length xs" and "v = xs ! i"
  shows "u \<in> set (take i xs)"
  using assms(2-)
proof (induction arbitrary: i)
  case (base v)
  then show ?case using assms(1) by (auto simp: in_order_def)
next
  case (step w v)
  then have "w \<in> set (take i xs)" using assms(1) by (auto simp: in_order_def)
  then obtain j where j: "j < i" "j < length xs" "w = xs ! j"
    by (auto simp: in_set_conv_nth)
  then have "u \<in> set (take j xs)" using step.IH by blast
  then show ?case using j(1) set_take_subset_set_take [of j i xs] by auto
qed

lemma in_order_acyclic:
  assumes "in_order R xs" and "distinct xs" and "Range R \<subseteq> set xs"
  shows "acyclic R"
proof (rule acyclicI, rule allI, rule notI)
  fix v assume v: "(v, v) \<in> R\<^sup>+"
  then have "v \<in> Range R" by (auto elim: tranclE)
  then have "v \<in> set xs" using assms(3) by blast
  then obtain i where i: "i < length xs" "v = xs ! i" by (auto simp: in_set_conv_nth)
  have "v \<in> set (take i xs)" by (rule in_order_trancl [OF assms(1) v i])
  then show False using i assms(2) by (auto simp: in_set_conv_nth nth_eq_iff_index_eq)
qed

text \<open>The consequence every reader of the order relies on: the source of an edge comes first.\<close>

lemma in_order_before:
  "in_order R xs \<Longrightarrow> xs = ys @ v # zs \<Longrightarrow> (u, v) \<in> R \<Longrightarrow> u \<in> set ys"
  by (auto simp: in_order_def dest: spec [of _ "length ys"])

section \<open>The loop\<close>

text \<open>Edges into \<open>n\<close> between known nodes whose source is not yet in \<open>S\<close>.\<close>

definition waiting :: "string list \<Rightarrow> graph_edge list \<Rightarrow> string set \<Rightarrow> string \<Rightarrow> graph_edge list" where
  "waiting ids edges S n =
     filter (\<lambda>e. targetNodeId e = n \<and> sourceNodeId e \<in> set ids \<and> sourceNodeId e \<notin> S) edges"

definition kahn_inv ::
    "string list \<Rightarrow> graph_edge list \<Rightarrow> (string, int) jmap \<Rightarrow> string list \<Rightarrow> string list \<Rightarrow> bool" where
  "kahn_inv ids edges m queue res \<longleftrightarrow>
     distinct (res @ queue) \<and> set (res @ queue) \<subseteq> set ids
   \<and> (\<forall>n. map_of m n = (if n \<in> set ids then Some (int (length (waiting ids edges (set res) n))) else None))
   \<and> (\<forall>n \<in> set ids. n \<in> set (res @ queue) \<longleftrightarrow> waiting ids edges (set res) n = [])
   \<and> in_order (edge_rel ids sourceNodeId targetNodeId edges) res"

lemma waiting_Nil_iff:
  "n \<in> set ids \<Longrightarrow> waiting ids edges S n = [] \<longleftrightarrow>
    (\<forall>u. (u, n) \<in> edge_rel ids sourceNodeId targetNodeId edges \<longrightarrow> u \<in> S)"
  by (auto simp: waiting_def edge_rel_def filter_empty_conv)

abbreviation out_list :: "string list \<Rightarrow> graph_edge list \<Rightarrow> string \<Rightarrow> string list" where
  "out_list ids edges \<equiv> jget_or [] (build_adjacency ids sourceNodeId targetNodeId targetNodeId edges)"

lemma waiting_insert:
  assumes "c \<in> set ids" and "c \<notin> S" and "n \<in> set ids"
  shows "length (waiting ids edges (insert c S) n) + count_list (out_list ids edges c) n
    = length (waiting ids edges S n)"
  using assms
  by (induction edges) (auto simp: waiting_def adjacency_list)

lemma kahn_step:
  assumes inv: "kahn_inv ids edges m (c # rest) res"
    and r: "r = relax_all (out_list ids edges c) m"
  shows "kahn_inv ids edges (fst r) (rest @ sort (snd r)) (res @ [c])"
proof -
  let ?R = "edge_rel ids sourceNodeId targetNodeId edges"
  note i = inv [unfolded kahn_inv_def]
  have c: "c \<in> set ids" "c \<notin> set res" "c \<notin> set rest" using i by auto
  have m: "map_of m n = Some (int (length (waiting ids edges (set res) n)))" if "n \<in> set ids" for n
    using i that by simp
  have out: "x \<in> set ids" if "x \<in> set (out_list ids edges c)" for x
    using that by (auto simp: adjacency_list)
  have insert: "set (res @ [c]) = insert c (set res)" by simp
  have drop: "length (waiting ids edges (set (res @ [c])) n) + count_list (out_list ids edges c) n
      = length (waiting ids edges (set res) n)" if "n \<in> set ids" for n
    unfolding insert by (rule waiting_insert [OF c(1,2) that])
  have "\<exists>d. map_of m x = Some d \<and> int (count_list (out_list ids edges c) x) \<le> d"
    if "x \<in> set (out_list ids edges c)" for x
    using m [OF out [OF that]] drop [OF out [OF that]] by auto
  from relax_all_result [OF this] obtain m' ready where res: "relax_all (out_list ids edges c) m = (m', ready)"
      "distinct ready"
      "set ready = {x \<in> set (out_list ids edges c). map_of m x = Some (int (count_list (out_list ids edges c) x))}"
      "\<And>x. map_of m' x = map_option (\<lambda>d. d - int (count_list (out_list ids edges c) x)) (map_of m x)"
    by blast
  have m': "map_of m' n = (if n \<in> set ids then Some (int (length (waiting ids edges (set (res @ [c])) n))) else None)" for n
  proof (cases "n \<in> set ids")
    case True
    then show ?thesis using res(4) [of n] m [OF True] drop [OF True] by simp
  next
    case False
    then show ?thesis using res(4) [of n] i by simp
  qed
  have ready: "x \<in> set ready \<longleftrightarrow> x \<in> set (out_list ids edges c) \<and> waiting ids edges (set (res @ [c])) x = []" for x
  proof (cases "x \<in> set (out_list ids edges c)")
    case True
    have "x \<in> set ready \<longleftrightarrow> length (waiting ids edges (set res) x) = count_list (out_list ids edges c) x"
      using res(3) True m [OF out [OF True]] by simp
    also have "\<dots> \<longleftrightarrow> length (waiting ids edges (set (res @ [c])) x) = 0"
      using drop [OF out [OF True]] by linarith
    finally show ?thesis using True by blast
  next
    case False
    then show ?thesis using res(3) by blast
  qed
  have old: "x \<in> set (res @ c # rest) \<longleftrightarrow> waiting ids edges (set res) x = []" if "x \<in> set ids" for x
    using i that by blast
  have fresh: "x \<notin> set (res @ c # rest)" if "x \<in> set ready" for x
  proof
    assume "x \<in> set (res @ c # rest)"
    then have "waiting ids edges (set res) x = []" using old out ready that by blast
    moreover have "count_list (out_list ids edges c) x \<noteq> 0" using ready [of x] that by (simp add: count_list_0_iff)
    ultimately show False using drop [of x] out ready [of x] that by auto
  qed
  have new: "x \<in> set ((res @ [c]) @ rest @ sort ready) \<longleftrightarrow> waiting ids edges (set (res @ [c])) x = []"
    if x: "x \<in> set ids" for x
  proof (cases "x \<in> set (out_list ids edges c)")
    case True
    then show ?thesis using ready [of x] old [OF x] drop [OF x] by auto
  next
    case False
    then have "waiting ids edges (set (res @ [c])) x = [] \<longleftrightarrow> waiting ids edges (set res) x = []"
      using drop [OF x] by (simp add: count_notin flip: length_0_conv)
    then show ?thesis using False ready [of x] old [OF x] by auto
  qed
  have "in_order ?R (res @ [c])"
  proof (rule in_order_snoc)
    show "in_order ?R res" using i by blast
    show "u \<in> set res" if "(u, c) \<in> ?R" for u
      using old [OF c(1)] waiting_Nil_iff [OF c(1)] that by auto
  qed
  moreover have "distinct ((res @ [c]) @ rest @ sort ready)" using i res(2) fresh by auto
  moreover have "set ((res @ [c]) @ rest @ sort ready) \<subseteq> set ids" using i out ready by auto
  ultimately show ?thesis
    using m' new unfolding kahn_inv_def r res(1) by simp
qed

lemma kahn_loop_inv:
  assumes "adjacency = build_adjacency ids sourceNodeId targetNodeId targetNodeId edges"
  shows "kahn_inv ids edges m queue res \<Longrightarrow> \<exists>m'. kahn_inv ids edges m' [] (kahn_loop adjacency m queue res)"
  using assms
proof (induction adjacency m queue res rule: kahn_loop.induct)
  case (1 adjacency m queue res)
  show ?case
  proof (cases queue)
    case Nil
    then show ?thesis using "1.prems" by (auto simp: kahn_loop.simps [of _ _ "[]"])
  next
    case (Cons c rest)
    then show ?thesis
      using "1.IH" [OF Cons refl kahn_step] "1.prems"
      by (simp add: kahn_loop.simps [of _ _ "c # rest"] Let_def)
  qed
qed

lemma sorted_keys_zero:
  assumes "distinct nodeIds"
  shows "set (map fst (filter (\<lambda>kv. snd kv = 0) (in_degrees nodeIds edges)))
      = {n \<in> set nodeIds. waiting nodeIds edges {} n = []}"
    and "distinct (map fst (filter (\<lambda>kv. snd kv = 0) (in_degrees nodeIds edges)))"
proof -
  let ?m = "in_degrees nodeIds edges"
  have keys: "map fst ?m = nodeIds" using in_degrees_map(2) [OF assms] by (simp add: jkeys_def)
  have d: "distinct (map fst ?m)" using keys assms by simp
  then show "distinct (map fst (filter (\<lambda>kv. snd kv = 0) ?m))" by (rule distinct_map_filter)
  show "set (map fst (filter (\<lambda>kv. snd kv = 0) ?m)) = {n \<in> set nodeIds. waiting nodeIds edges {} n = []}"
  proof (intro set_eqI)
    fix n
    have "n \<in> set (map fst (filter (\<lambda>kv. snd kv = 0) ?m)) \<longleftrightarrow> (n, 0) \<in> set ?m" by force
    also have "\<dots> \<longleftrightarrow> map_of ?m n = Some 0" using d by (simp add: map_of_eq_Some_iff)
    also have "\<dots> \<longleftrightarrow> n \<in> {n \<in> set nodeIds. waiting nodeIds edges {} n = []}"
      using in_degrees_map(1) [OF assms, of edges n] by (simp add: waiting_def)
    finally show "n \<in> set (map fst (filter (\<lambda>kv. snd kv = 0) ?m))
        \<longleftrightarrow> n \<in> {n \<in> set nodeIds. waiting nodeIds edges {} n = []}" .
  qed
qed

lemma kahn_inv_start:
  assumes "distinct nodeIds"
  shows "kahn_inv nodeIds edges (in_degrees nodeIds edges)
      (sort (map fst (filter (\<lambda>kv. snd kv = 0) (in_degrees nodeIds edges)))) []"
  using sorted_keys_zero [OF assms, of edges] in_degrees_map(1) [OF assms, of edges]
  by (simp add: kahn_inv_def in_order_def) (simp add: waiting_def)

lemma finite_edge_rel [simp]: "finite (edge_rel ids src tgt edges)"
  by (rule finite_subset [of _ "(\<lambda>e. (src e, tgt e)) ` set edges"]) (auto simp: edge_rel_def)

lemma kahn_done:
  assumes inv: "kahn_inv ids edges m [] res" and "distinct ids"
  shows "length res = length ids \<longleftrightarrow> acyclic (edge_rel ids sourceNodeId targetNodeId edges)"
    and "length res = length ids \<Longrightarrow> set res = set ids"
proof -
  let ?R = "edge_rel ids sourceNodeId targetNodeId edges"
  note i = inv [unfolded kahn_inv_def]
  have len: "length res = length ids \<longleftrightarrow> set res = set ids"
    using i assms(2) by (metis append_Nil2 card_subset_eq distinct_card finite_set)
  then show "length res = length ids \<Longrightarrow> set res = set ids" by blast
  show "length res = length ids \<longleftrightarrow> acyclic ?R"
  proof
    assume "length res = length ids"
    then have "Range ?R \<subseteq> set res" using len by (auto simp: edge_rel_def)
    then show "acyclic ?R" using i by (intro in_order_acyclic [of ?R res]) auto
  next
    assume "acyclic ?R"
    then have wf: "wf ?R" by (intro finite_acyclic_wf) simp
    have "set ids - set res = {}"
    proof (rule ccontr)
      assume "set ids - set res \<noteq> {}"
      then obtain z where z: "z \<in> set ids" "z \<notin> set res"
          "\<And>y. (y, z) \<in> ?R \<Longrightarrow> y \<notin> set ids - set res"
        using wf by (metis Diff_iff ex_in_conv wfE_min)
      have "waiting ids edges (set res) z \<noteq> []" using i z(1,2) by auto
      then obtain u where "(u, z) \<in> ?R" "u \<notin> set res" using waiting_Nil_iff [OF z(1)] by blast
      moreover have "u \<in> set ids" using calculation(1) by (auto simp: edge_rel_def)
      ultimately show False using z(3) by blast
    qed
    then show "length res = length ids" using len i by auto
  qed
qed

lemma topologicalSort_facts:
  "case topologicalSort nodes edges of
     Inl e \<Rightarrow> e = cycle_error \<and> \<not> acyclic (graph_rel nodes edges)
   | Inr res \<Rightarrow> acyclic (graph_rel nodes edges) \<and> distinct res \<and> set res = gn_id ` set nodes
       \<and> in_order (graph_rel nodes edges) res"
proof -
  define ids where "ids = jset_of (map gn_id nodes)"
  have ids: "distinct ids" by (simp add: ids_def)
  define res where "res = kahn_loop (build_adjacency ids sourceNodeId targetNodeId targetNodeId edges)
      (in_degrees ids edges) (sort (map fst (filter (\<lambda>kv. snd kv = 0) (in_degrees ids edges)))) []"
  obtain m where inv: "kahn_inv ids edges m [] res"
    using kahn_loop_inv [OF refl kahn_inv_start [OF ids]] unfolding res_def by blast
  have top: "topologicalSort nodes edges = (if length res \<noteq> length ids then Inl cycle_error else Inr res)"
    by (simp add: topologicalSort_def Let_def ids_def res_def)
  have "graph_rel nodes edges = edge_rel ids sourceNodeId targetNodeId edges" by (simp add: ids_def)
  moreover have "set ids = gn_id ` set nodes" by (simp add: ids_def)
  ultimately show ?thesis
    using kahn_done [OF inv ids] inv [unfolded kahn_inv_def] by (simp add: top)
qed

end
