(* ===== verification/Dispatch.thy ===== *)
theory Dispatch
  imports NodeRun Topo Cycles
begin

text \<open>
  The walk of the engine over a workflow graph: the graph state that \<open>loadAndBuildGraph\<close> builds, the
  input of a node (\<open>gatherNodeInput\<close>), disabled nodes, back edges, and the pointer loop
  \<open>runNodeDispatchLoop\<close>. What the loop calls besides \<open>executeNode\<close> (the checks between nodes,
  containers, background bodies, parallel branches, parking) is a field of \<open>driver\<close>. The loop is an
  option-valued partial function, \<open>None\<close> when it never ends.
\<close>

section \<open>Graph state\<close>

record graph_state =
  gs_nodes :: "node list"
  gs_edges :: "graph_edge list"
  gs_graphEdges :: "graph_edge list"
  gs_forwardEdges :: "graph_edge list"
  gs_backEdges :: "graph_edge list"
  gs_sortedNodeIds :: "string list"
  gs_sortedIndexMap :: "(string, nat) jmap"
  gs_indexes :: edge_indexes
  gs_nodeMap :: "(string, node) jmap"
  gs_maxNodeIterations :: nat

definition index_map :: "string list \<Rightarrow> (string, nat) jmap" where
  "index_map ids = fold (\<lambda>(i, v). jput v i) (enumerate 0 ids) []"

definition node_map :: "node list \<Rightarrow> (string, node) jmap" where
  "node_map nodes = fold (\<lambda>n. jput (node_id n) n) nodes []"

text \<open>The rows of the two repositories are the arguments.\<close>

definition loadAndBuildGraph :: "node list \<Rightarrow> graph_edge list \<Rightarrow> nat \<Rightarrow> string + graph_state" where
  "loadAndBuildGraph nodes edges maxNodeIterations =
     (let (graphNodes, graphEdges) = buildGraph nodes edges;
          split = identifyBackEdges graphNodes graphEdges
      in bindE (topologicalSort graphNodes (forwardEdges split)) (\<lambda>sortedNodeIds.
           let sortedIndexMap = index_map sortedNodeIds
           in Inr \<lparr>gs_nodes = nodes, gs_edges = edges, gs_graphEdges = graphEdges,
                gs_forwardEdges = forwardEdges split, gs_backEdges = backEdges split,
                gs_sortedNodeIds = sortedNodeIds, gs_sortedIndexMap = sortedIndexMap,
                gs_indexes = buildEdgeIndexes graphEdges (backEdges split) sortedIndexMap,
                gs_nodeMap = node_map nodes, gs_maxNodeIterations = maxNodeIterations\<rparr>))"

section \<open>Inputs, disabled nodes and back edges\<close>

definition merge_inputs :: "host \<Rightarrow> graph_edge list \<Rightarrow> string list \<Rightarrow> (string, jsval) jmap \<Rightarrow> objs
    \<Rightarrow> (props \<times> bool) \<times> objs" where
  "merge_inputs h incoming executed outputs s =
     fold (\<lambda>e ((merged, hasAnyInput), s).
         if sourceNodeId e \<in> set executed then
           (let sourceOutput = jget_or JUndef outputs (sourceNodeId e)
            in if isPortFiltered h sourceOutput (sourcePort e) then ((merged, hasAnyInput), s)
               else let (v, s') = stripControlFields h sourceOutput s
                    in ((assign_prop (sourceNodeId e) v merged, True), s'))
         else ((merged, hasAnyInput), s)) incoming (([], False), s)"

definition gatherNodeInput :: "host \<Rightarrow> string \<Rightarrow> graph_edge list \<Rightarrow> string list \<Rightarrow> (string, jsval) jmap
    \<Rightarrow> jsval \<Rightarrow> (string, graph_edge list) jmap \<Rightarrow> objs \<Rightarrow> jsval \<times> objs" where
  "gatherNodeInput h nodeId edges executed outputs workflowInput incomingMap s =
     (case (case map_of incomingMap nodeId of Some es \<Rightarrow> es
            | None \<Rightarrow> filter (\<lambda>e. targetNodeId e = nodeId) edges) of
        [] \<Rightarrow> (workflowInput, s)
      | [e] \<Rightarrow>
          (if sourceNodeId e \<in> set executed then
             (let sourceOutput = jget_or JUndef outputs (sourceNodeId e)
              in if isPortFiltered h sourceOutput (sourcePort e) then (JUndef, s)
                 else stripControlFields h sourceOutput s)
           else (workflowInput, s))
      | incoming \<Rightarrow>
          (let ((merged, hasAnyInput), s') = merge_inputs h incoming executed outputs s
           in if hasAnyInput then alloc_obj merged s' else (workflowInput, s')))"

definition findActivatedBackEdge :: "host \<Rightarrow> string \<Rightarrow> (graph_edge \<times> nat) list \<Rightarrow> (string, jsval) jmap
    \<Rightarrow> (graph_edge \<times> nat) option" where
  "findActivatedBackEdge h nodeId backs outputs =
     (let sourceOutput = jget_or JUndef outputs nodeId
      in find (\<lambda>b. \<not> isPortFiltered h sourceOutput (sourcePort (fst b))) backs)"

definition handleDisabledNode :: "string \<Rightarrow> 'w run \<Rightarrow> 'w run" where
  "handleDisabledNode nodeId st =
     (let (row, st1) = createNodeExecution nodeId NodeSkipped JUndef st
      in mark_executed nodeId (emit (EvSkipped row None) st1))"

section \<open>The loop\<close>

datatype dispatch_kind = KStandard | KContainer | KBackground | KParallel | KBlocking | KTrigger

record 'w driver =
  dr_env :: "'w node_env"
  dr_guard :: "'w run \<Rightarrow> (exn + unit) \<times> 'w run"
  dr_kind :: "string \<Rightarrow> dispatch_kind"
  dr_container :: "node \<Rightarrow> 'w run \<Rightarrow> ((exn + unit) \<times> 'w run) option"
  dr_background :: "node \<Rightarrow> 'w run \<Rightarrow> (exn + unit) \<times> 'w run"
  dr_parallelV1 :: bool
  dr_parallel :: "node \<Rightarrow> jsval \<Rightarrow> string list \<Rightarrow> 'w run \<Rightarrow> ((exn + string list) \<times> 'w run) option"
  dr_park :: "node \<Rightarrow> 'w run \<Rightarrow> ((exn + bool) \<times> 'w run) option"

record 'w loop =
  lp_run :: "'w run"
  lp_reachable :: "string list"
  lp_counts :: "(string, nat) jmap"
  lp_pointer :: nat

datatype 'w step = Continue "'w loop" | Finished "exn + bool" "'w loop"

definition advance :: "'w loop \<Rightarrow> 'w loop" where
  "advance st = st\<lparr>lp_pointer := Suc (lp_pointer st)\<rparr>"

text \<open>The outer \<open>catch\<close>: a park signal ends the segment as parked.\<close>

definition ends_with :: "exn \<Rightarrow> 'w loop \<Rightarrow> 'w step" where
  "ends_with e st = Finished (if e = ParkRelease then Inr True else Inl e) st"

text \<open>Sequencing inside an iteration: an error ends the loop.\<close>

definition thenR :: "((exn + 'a) \<times> 'w run) option \<Rightarrow> 'w loop \<Rightarrow> ('a \<Rightarrow> 'w loop \<Rightarrow> 'w step option) \<Rightarrow> 'w step option" where
  "thenR m st f = (case m of
     None \<Rightarrow> None
   | Some (Inl e, r) \<Rightarrow> Some (ends_with e (st\<lparr>lp_run := r\<rparr>))
   | Some (Inr x, r) \<Rightarrow> f x (st\<lparr>lp_run := r\<rparr>))"

definition rewind :: "string list \<Rightarrow> nat \<Rightarrow> 'w loop \<Rightarrow> 'w loop" where
  "rewind order target st =
     (let cleared = filter (\<lambda>v. v \<notin> set (slice order target (Suc (lp_pointer st)))) (lp_reachable st)
      in st\<lparr>lp_reachable := (if target < length order then jadd (order ! target) cleared else cleared),
            lp_pointer := target\<rparr>)"

text \<open>After the node ran: propagate, then follow the first back edge whose port is open.\<close>

definition finish_node :: "'w driver \<Rightarrow> graph_state \<Rightarrow> string \<Rightarrow> 'w loop \<Rightarrow> 'w step" where
  "finish_node d g nodeId st =
     (let h = ne_host (dr_env d);
          outputs = ru_outputs (lp_run st);
          st1 = st\<lparr>lp_reachable := propagateReachability h nodeId (outgoingEdgeMap (gs_indexes g)) outputs (lp_reachable st)\<rparr>
      in case findActivatedBackEdge h nodeId (jget_or [] (backEdgeMap (gs_indexes g)) nodeId) outputs of
           Some (e, target) \<Rightarrow> Continue (rewind (gs_sortedNodeIds g) target st1)
         | None \<Rightarrow> Continue (advance st1))"

definition is_waiting :: "host \<Rightarrow> jsval \<Rightarrow> bool" where
  "is_waiting h v = (js_get h ''status'' v = JStr ''waiting_for_input'')"

definition dispatch_node :: "'w driver \<Rightarrow> graph_state \<Rightarrow> jsval \<Rightarrow> node \<Rightarrow> 'w loop \<Rightarrow> 'w step option" where
  "dispatch_node d g input n st =
     (let h = ne_host (dr_env d);
          nodeId = gs_sortedNodeIds g ! lp_pointer st;
          kind = dr_kind d (node_type n);
          (nodeInput, objs) = gatherNodeInput h nodeId (gs_graphEdges g) (ru_executed (lp_run st))
            (ru_outputs (lp_run st)) input (incomingEdgeMap (gs_indexes g)) (ru_objs (lp_run st))
      in thenR (executeNode (dr_env d) (gs_nodeMap g) n nodeInput (outgoingEdgeMap (gs_indexes g)) ((lp_run st)\<lparr>ru_objs := objs\<rparr>)) st (\<lambda>_ st1.
         thenR (if kind = KContainer then dr_container d n (lp_run st1) else Some (Inr (), lp_run st1)) st1 (\<lambda>_ st2.
         thenR (Some (if kind = KBackground then dr_background d n (lp_run st2) else (Inr (), lp_run st2))) st2 (\<lambda>_ st3.
           if kind = KParallel \<and> dr_parallelV1 d
           then thenR (dr_parallel d n nodeInput (lp_reachable st3) (lp_run st3)) st3 (\<lambda>reachable st4.
                  Some (Continue (advance (st4\<lparr>lp_reachable := reachable\<rparr>))))
           else thenR (if is_waiting h (jget_or JUndef (ru_outputs (lp_run st3)) (node_id n))
                       then dr_park d n (lp_run st3) else Some (Inr False, lp_run st3)) st3 (\<lambda>parked st4.
                  Some (if parked then Finished (Inr True) st4 else finish_node d g nodeId st4))))))"

definition iteration_message :: "node \<Rightarrow> nat \<Rightarrow> string" where
  "iteration_message n maxNodeIterations =
     ''Node '' @ dquoted (node_label n) @ '' exceeded maximum iteration count (''
     @ show_nat maxNodeIterations @ ''). Set MAX_NODE_ITERATIONS=0 for unlimited.''"

definition visit_node :: "'w driver \<Rightarrow> graph_state \<Rightarrow> jsval \<Rightarrow> bool \<Rightarrow> string \<Rightarrow> node \<Rightarrow> 'w loop
    \<Rightarrow> 'w step option" where
  "visit_node d g input skipExecutedNodes nodeId n st =
     (if nodeId \<notin> set (lp_reachable st) then Some (Continue (advance st))
      else if skipExecutedNodes \<and> nodeId \<in> set (ru_executed (lp_run st)) then Some (Continue (advance st))
      else
        (let count = jget_or 0 (lp_counts st) nodeId + 1;
             st1 = st\<lparr>lp_counts := jput nodeId count (lp_counts st)\<rparr>
         in if 0 < gs_maxNodeIterations g \<and> gs_maxNodeIterations g < count
            then Some (ends_with (Raised ''Error'' (iteration_message n (gs_maxNodeIterations g))) st1)
            else if node_isDisabled n
            then Some (Continue (advance (st1\<lparr>lp_run := handleDisabledNode nodeId (lp_run st1)\<rparr>)))
            else dispatch_node d g input n st1))"

definition dispatch_step :: "'w driver \<Rightarrow> graph_state \<Rightarrow> jsval \<Rightarrow> bool \<Rightarrow> 'w loop \<Rightarrow> 'w step option" where
  "dispatch_step d g input skipExecutedNodes st =
     (if length (gs_sortedNodeIds g) \<le> lp_pointer st then Some (Finished (Inr False) st)
      else thenR (Some (dr_guard d (lp_run st))) st (\<lambda>_ st.
        let nodeId = gs_sortedNodeIds g ! lp_pointer st
        in case map_of (gs_nodeMap g) nodeId of
             None \<Rightarrow> Some (Continue (advance st))
           | Some n \<Rightarrow> visit_node d g input skipExecutedNodes nodeId n st))"

partial_function (option) runNodeDispatchLoop ::
    "'w driver \<Rightarrow> graph_state \<Rightarrow> jsval \<Rightarrow> bool \<Rightarrow> 'w loop \<Rightarrow> ((exn + bool) \<times> 'w loop) option" where
  "runNodeDispatchLoop d g input skipExecutedNodes st =
     (case dispatch_step d g input skipExecutedNodes st of
        None \<Rightarrow> None
      | Some (Finished r st') \<Rightarrow> Some (r, st')
      | Some (Continue st') \<Rightarrow> runNodeDispatchLoop d g input skipExecutedNodes st')"

declare runNodeDispatchLoop.simps [code]

section \<open>Loading\<close>

lemma map_of_index_map:
  assumes "distinct ids" and "i < length ids"
  shows "map_of (index_map ids) (ids ! i) = Some i"
proof -
  have other: "v \<notin> set vs \<Longrightarrow> map_of (fold (\<lambda>(i, v). jput v i) (enumerate k vs) m) v = map_of m v" for k vs m v
    by (induction vs arbitrary: k m) auto
  have "distinct vs \<Longrightarrow> i < length vs \<Longrightarrow>
      map_of (fold (\<lambda>(i, v). jput v i) (enumerate k vs) m) (vs ! i) = Some (k + i)" for k vs m i
  proof (induction vs arbitrary: k m i)
    case (Cons v vs)
    then show ?case by (cases i) (simp_all add: other)
  qed simp
  from this [OF assms, of 0 "[]"] show ?thesis by (simp add: index_map_def)
qed

lemma map_of_index_map_None: "v \<notin> set ids \<Longrightarrow> map_of (index_map ids) v = None"
proof -
  have "v \<notin> set vs \<Longrightarrow> map_of (fold (\<lambda>(i, v). jput v i) (enumerate k vs) m) v = map_of m v" for k vs m
    by (induction vs arbitrary: k m) auto
  from this [of ids 0 "[]"] show "v \<notin> set ids \<Longrightarrow> ?thesis" by (simp add: index_map_def)
qed

lemma node_map_get:
  assumes "v \<in> node_id ` set nodes"
  shows "\<exists>n. map_of (node_map nodes) v = Some n \<and> node_id n = v"
proof -
  have "v \<in> node_id ` set ns \<or> (\<exists>n. map_of m v = Some n \<and> node_id n = v) \<Longrightarrow>
      \<exists>n. map_of (fold (\<lambda>n. jput (node_id n) n) ns m) v = Some n \<and> node_id n = v" for ns m
    by (induction ns arbitrary: m) auto
  from this [of nodes "[]"] assms show ?thesis by (simp add: node_map_def)
qed

section \<open>Termination of the loop\<close>

text \<open>The nodes that the order of the graph visits.\<close>

definition graph_node :: "graph_state \<Rightarrow> node \<Rightarrow> bool" where
  "graph_node g n \<longleftrightarrow> (\<exists>v \<in> set (gs_sortedNodeIds g). map_of (gs_nodeMap g) v = Some n)"

text \<open>
  What the loop asks of the nodes of its graph: their retries are bounded, and where they are containers or
  Parallels, or wait, the run of their body and the parking end.
\<close>

definition calls_return :: "'w driver \<Rightarrow> graph_state \<Rightarrow> bool" where
  "calls_return d g \<longleftrightarrow>
     (\<forall>n. graph_node g n \<longrightarrow> bounded_retries (ne_host (dr_env d)) n
        \<and> (dr_kind d (node_type n) = KContainer \<longrightarrow> (\<forall>r. dr_container d n r \<noteq> None))
        \<and> (dr_kind d (node_type n) = KParallel \<and> dr_parallelV1 d \<longrightarrow> (\<forall>inp reach r. dr_parallel d n inp reach r \<noteq> None))
        \<and> (\<forall>r. dr_park d n r \<noteq> None))"

lemma thenR_returns: "m \<noteq> None \<Longrightarrow> (\<And>x st'. f x st' \<noteq> None) \<Longrightarrow> thenR m st f \<noteq> None"
  by (auto simp: thenR_def split: option.splits sum.splits)

lemma if_returns: "(b \<Longrightarrow> x \<noteq> None) \<Longrightarrow> (\<not> b \<Longrightarrow> y \<noteq> None) \<Longrightarrow> (if b then x else y) \<noteq> None"
  by simp

lemma case_returns: "x \<noteq> None \<Longrightarrow> (\<And>a. p = Some a \<Longrightarrow> f a \<noteq> None) \<Longrightarrow> (case p of None \<Rightarrow> x | Some a \<Rightarrow> f a) \<noteq> None"
  by (cases p) simp_all

lemma dispatch_node_returns:
  assumes "calls_return d g" and "graph_node g n"
  shows "dispatch_node d g input n st \<noteq> None"
proof -
  have r: "\<And>nm inp out r. executeNode (dr_env d) nm n inp out r \<noteq> None"
    "\<And>r. dr_kind d (node_type n) = KContainer \<Longrightarrow> dr_container d n r \<noteq> None"
    "\<And>inp reach r. dr_kind d (node_type n) = KParallel \<and> dr_parallelV1 d \<Longrightarrow> dr_parallel d n inp reach r \<noteq> None"
    "\<And>r. dr_park d n r \<noteq> None"
    using assms executeNode_returns unfolding calls_return_def by blast+
  obtain inp objs where gather: "gatherNodeInput (ne_host (dr_env d)) (gs_sortedNodeIds g ! lp_pointer st)
      (gs_graphEdges g) (ru_executed (lp_run st)) (ru_outputs (lp_run st)) input
      (incomingEdgeMap (gs_indexes g)) (ru_objs (lp_run st)) = (inp, objs)" by fastforce
  show ?thesis
    unfolding dispatch_node_def Let_def gather prod.case
    by (intro thenR_returns if_returns r option.distinct(2))
qed

lemma thenR_Continue:
  "thenR m st f = Some (Continue st') \<Longrightarrow>
    (\<And>x r. m = Some (Inr x, r) \<Longrightarrow> f x (st\<lparr>lp_run := r\<rparr>) = Some (Continue st') \<Longrightarrow> P) \<Longrightarrow> P"
  by (auto simp: thenR_def ends_with_def split: option.splits sum.splits)

definition no_back_edges :: "graph_state \<Rightarrow> bool" where
  "no_back_edges g = (\<forall>v. jget_or [] (backEdgeMap (gs_indexes g)) v = [])"

lemma finish_node_Continue:
  "finish_node d g v st = Continue st' \<Longrightarrow>
    lp_counts st' = lp_counts st \<and> (no_back_edges g \<longrightarrow> lp_pointer st' = Suc (lp_pointer st))"
  by (auto simp: finish_node_def Let_def rewind_def advance_def no_back_edges_def findActivatedBackEdge_def
      split: option.splits)

lemma dispatch_node_Continue:
  assumes "dispatch_node d g input n st = Some (Continue st')"
  shows "lp_counts st' = lp_counts st \<and> (no_back_edges g \<longrightarrow> lp_pointer st' = Suc (lp_pointer st))"
  using assms unfolding dispatch_node_def Let_def
  by (auto elim!: thenR_Continue split: prod.splits if_splits simp: advance_def dest!: finish_node_Continue)

lemma dispatch_step_returns:
  assumes "calls_return d g"
  shows "dispatch_step d g input skip st \<noteq> None"
proof -
  have "graph_node g n" if "\<not> length (gs_sortedNodeIds g) \<le> p" and "map_of (gs_nodeMap g) (gs_sortedNodeIds g ! p) = Some n" for p n
    using that by (auto simp: graph_node_def)
  then have "visit_node d g input skip v n st \<noteq> None"
    if "\<not> length (gs_sortedNodeIds g) \<le> p" and "map_of (gs_nodeMap g) (gs_sortedNodeIds g ! p) = Some n" for p n v st
    using that unfolding visit_node_def Let_def
    by (intro if_returns dispatch_node_returns [OF assms] option.distinct(2)) blast
  then show ?thesis
    by (auto simp: dispatch_step_def thenR_def Let_def simp del: not_None_eq split: option.splits sum.splits prod.splits)
qed

text \<open>A step that goes on has counted a visit within the limit, or has moved the pointer by one.\<close>

lemma dispatch_step_Continue:
  assumes "dispatch_step d g input skip st = Some (Continue st')"
    and "v = gs_sortedNodeIds g ! lp_pointer st"
  shows "lp_pointer st < length (gs_sortedNodeIds g)
    \<and> (lp_counts st' = lp_counts st \<and> lp_pointer st' = Suc (lp_pointer st)
       \<or> lp_counts st' = jput v (Suc (jget_or 0 (lp_counts st) v)) (lp_counts st)
            \<and> (0 < gs_maxNodeIterations g \<longrightarrow> jget_or 0 (lp_counts st) v < gs_maxNodeIterations g)
            \<and> (no_back_edges g \<longrightarrow> lp_pointer st' = Suc (lp_pointer st)))"
  using assms unfolding dispatch_step_def visit_node_def Let_def
  by (auto elim!: thenR_Continue split: if_splits option.splits simp: advance_def ends_with_def
      dest!: dispatch_node_Continue)

definition visits_left :: "graph_state \<Rightarrow> 'w loop \<Rightarrow> nat" where
  "visits_left g st = (\<Sum>v \<in> set (gs_sortedNodeIds g). gs_maxNodeIterations g - jget_or 0 (lp_counts st) v)"

lemma visits_left_less:
  assumes "v \<in> set (gs_sortedNodeIds g)" and "jget_or 0 (lp_counts st) v < gs_maxNodeIterations g"
    and "lp_counts st' = jput v (Suc (jget_or 0 (lp_counts st) v)) (lp_counts st)"
  shows "visits_left g st' < visits_left g st"
  unfolding visits_left_def
proof (rule sum_strict_mono_ex1)
  show "\<exists>u \<in> set (gs_sortedNodeIds g).
      gs_maxNodeIterations g - jget_or 0 (lp_counts st') u < gs_maxNodeIterations g - jget_or 0 (lp_counts st) u"
    using assms by (intro bexI [of _ v]) auto
qed (use assms(3) in auto)

lemma step_decreases:
  assumes "dispatch_step d g input skip st = Some (Continue st')"
    and "0 < gs_maxNodeIterations g \<or> no_back_edges g"
  shows "(st', st) \<in> measures [\<lambda>st. if 0 < gs_maxNodeIterations g then visits_left g st else 0,
    \<lambda>st. length (gs_sortedNodeIds g) - lp_pointer st]"
proof -
  define v where "v = gs_sortedNodeIds g ! lp_pointer st"
  note step = dispatch_step_Continue [OF assms(1) v_def]
  show ?thesis
  proof (cases "lp_counts st' = lp_counts st \<and> lp_pointer st' = Suc (lp_pointer st)")
    case True
    then show ?thesis using step by (auto simp: visits_left_def)
  next
    case False
    show ?thesis
    proof (cases "0 < gs_maxNodeIterations g")
      case True
      then have "visits_left g st' < visits_left g st"
        using step False by (intro visits_left_less [of v]) (auto simp: v_def)
      then show ?thesis using True by simp
    next
      case no_limit: False
      then show ?thesis using step False assms(2) by auto
    qed
  qed
qed

text \<open>C6. The walk ends. With an iteration limit, or without back edges, the dispatch loop returns from
  every state, provided that the retries of the nodes of its graph are bounded, that the containers and
  Parallels among them return and that parking them returns (a call of a handler is taken to settle). Back
  edges can rewind the pointer, but only after a counted visit.\<close>

theorem dispatch_loop_terminates:
  assumes "calls_return d g" and "0 < gs_maxNodeIterations g \<or> no_back_edges g"
  shows "\<exists>r st'. runNodeDispatchLoop d g input skipExecutedNodes st = Some (r, st')"
  using wf_measures [of "[\<lambda>st. if 0 < gs_maxNodeIterations g then visits_left g st else 0,
    \<lambda>st. length (gs_sortedNodeIds g) - lp_pointer st]"]
proof (induction st rule: wf_induct_rule)
  case (less st)
  obtain s where s: "dispatch_step d g input skipExecutedNodes st = Some s"
    using dispatch_step_returns [OF assms(1)] by blast
  show ?case
  proof (cases s)
    case (Continue st')
    have "\<exists>r st''. runNodeDispatchLoop d g input skipExecutedNodes st' = Some (r, st'')"
      using less [OF step_decreases [OF s [unfolded Continue] assms(2)]] .
    then show ?thesis using s Continue by (simp add: runNodeDispatchLoop.simps [of d g input _ st])
  next
    case (Finished r st')
    then show ?thesis using s by (simp add: runNodeDispatchLoop.simps [of d g input _ st])
  qed
qed



section \<open>The loaded graph\<close>

lemma loadAndBuildGraph_facts:
  obtains g order where "loadAndBuildGraph nodes edges m = Inr g" and "gs_sortedNodeIds g = order"
    and "gs_graphEdges g = snd (buildGraph nodes edges)"
    and "topologicalSort (fst (buildGraph nodes edges))
        (forwardEdges (identifyBackEdges (fst (buildGraph nodes edges)) (snd (buildGraph nodes edges)))) = Inr order"
    and "gs_backEdges g = backEdges (identifyBackEdges (fst (buildGraph nodes edges)) (snd (buildGraph nodes edges)))"
    and "gs_sortedIndexMap g = index_map order"
    and "gs_indexes g = buildEdgeIndexes (gs_graphEdges g) (gs_backEdges g) (gs_sortedIndexMap g)"
    and "gs_maxNodeIterations g = m" and "gs_nodeMap g = node_map nodes"
proof -
  let ?gn = "fst (buildGraph nodes edges)" and ?ge = "snd (buildGraph nodes edges)"
  obtain order where "topologicalSort ?gn (forwardEdges (identifyBackEdges ?gn ?ge)) = Inr order"
    using topologicalSort_facts [of ?gn "forwardEdges (identifyBackEdges ?gn ?ge)"] forwardEdges_acyclic [of ?gn ?ge]
    by (auto split: sum.splits)
  then obtain g where load: "loadAndBuildGraph nodes edges m = Inr g" and order: "topologicalSort ?gn
      (forwardEdges (identifyBackEdges ?gn ?ge)) = Inr order"
    by (simp add: loadAndBuildGraph_def Let_def split_beta)
  from load [symmetric] order show ?thesis
    by (intro that [OF load _ _ order]) (simp_all add: loadAndBuildGraph_def Let_def split_beta)
qed

lemma in_order_index:
  assumes "in_order R xs" and "(u, v) \<in> R\<^sup>+" and "v \<in> set xs"
  obtains i j where "i < j" and "j < length xs" and "xs ! i = u" and "xs ! j = v"
proof -
  obtain j where j: "j < length xs" "v = xs ! j" using assms(3) by (auto simp: in_set_conv_nth)
  from in_order_trancl [OF assms(1,2) j] obtain i where "i < j" "xs ! i = u"
    by (auto simp: in_set_conv_nth)
  then show ?thesis using that j by blast
qed

text \<open>C8. Loading a workflow never fails. Its order lists the top-level nodes once; an edge that is not
  a back edge goes forward in it; and every rewind position of a back edge is the index of its target
  and does not lie after its source, so that the loop never skips nodes by rewinding.\<close>

theorem loaded_graph_ordered:
  "\<exists>g. loadAndBuildGraph nodes edges m = Inr g
     \<and> distinct (gs_sortedNodeIds g) \<and> set (gs_sortedNodeIds g) = node_id ` set (filter is_top_level nodes)
     \<and> set (gs_graphEdges g) - set (gs_backEdges g) \<subseteq> {e. \<exists>i j. i < j \<and> j < length (gs_sortedNodeIds g)
          \<and> gs_sortedNodeIds g ! i = sourceNodeId e \<and> gs_sortedNodeIds g ! j = targetNodeId e}
     \<and> (\<forall>v. set (jget_or [] (backEdgeMap (gs_indexes g)) v) \<subseteq> {(e, j). \<exists>i. j \<le> i \<and> i < length (gs_sortedNodeIds g)
          \<and> gs_sortedNodeIds g ! i = v \<and> gs_sortedNodeIds g ! j = targetNodeId e})"
proof -
  define gn ge where "gn = fst (buildGraph nodes edges)" and "ge = snd (buildGraph nodes edges)"
  define F where "F = forwardEdges (identifyBackEdges gn ge)"
  obtain g order where g: "loadAndBuildGraph nodes edges m = Inr g" "gs_sortedNodeIds g = order"
      "gs_graphEdges g = ge" "topologicalSort gn F = Inr order" "gs_backEdges g = backEdges (identifyBackEdges gn ge)"
      "gs_sortedIndexMap g = index_map order"
      "gs_indexes g = buildEdgeIndexes (gs_graphEdges g) (gs_backEdges g) (gs_sortedIndexMap g)"
    unfolding gn_def ge_def F_def by (rule loadAndBuildGraph_facts)
  have order: "distinct order" "set order = gn_id ` set gn" "in_order (graph_rel gn F) order"
    using topologicalSort_facts [of gn F] g(4) by auto
  have ids: "gn_id ` set gn = node_id ` set (filter is_top_level nodes)"
    by (simp add: gn_def buildGraph_def Let_def image_image)
  have position: "map_of (index_map order) v = Some i \<longleftrightarrow> i < length order \<and> order ! i = v" for v i
    using map_of_index_map [OF order(1)] map_of_index_map_None [of v order]
    by (metis in_set_conv_nth option.distinct(1) option.inject)
  have "\<exists>i j. i < j \<and> j < length order \<and> order ! i = sourceNodeId e \<and> order ! j = targetNodeId e"
    if e: "e \<in> set ge" "e \<notin> set (backEdges (identifyBackEdges gn ge))" for e
  proof -
    have "e \<in># mset F" using e back_edge_partition [of gn ge] by (metis F_def in_multiset_in_set union_iff)
    moreover have "sourceNodeId e \<in> gn_id ` set gn" "targetNodeId e \<in> gn_id ` set gn"
      using buildGraph_closed [of nodes edges gn ge] e(1) by (simp_all add: gn_def ge_def)
    ultimately have "(sourceNodeId e, targetNodeId e) \<in> graph_rel gn F" "targetNodeId e \<in> set order"
      by (auto simp: edge_rel_def order(2))
    then show ?thesis using in_order_index [OF order(3) r_into_trancl] by metis
  qed
  moreover have "\<exists>i. j \<le> i \<and> i < length order \<and> order ! i = v \<and> order ! j = targetNodeId e"
    if "(e, j) \<in> set (jget_or [] (backEdgeMap (gs_indexes g)) v)" for v e j
  proof -
    have e: "e \<in> set (backEdges (identifyBackEdges gn ge))" "sourceNodeId e = v"
      and target: "map_of (index_map order) (targetNodeId e) = Some j"
      using that by (auto simp: g(5-7) backEdgeMap_list split: option.splits if_splits)
    from target have j: "j < length order" "order ! j = targetNodeId e" by (simp_all only: position)
    note cycle = backEdges_close_cycles [OF e(1), folded F_def]
    from cycle have v: "v \<in> set order" by (auto simp: edge_rel_def order(2) e(2))
    show ?thesis
    proof (cases "targetNodeId e = v")
      case True
      then show ?thesis using j by auto
    next
      case False
      then have "(targetNodeId e, v) \<in> (graph_rel gn F)\<^sup>+" using cycle e(2) by (metis rtranclD)
      from in_order_index [OF order(3) this v] obtain i k where
        "i < k" "k < length order" "order ! i = targetNodeId e" "order ! k = v" .
      then show ?thesis using j order(1) by (metis le_less nth_eq_iff_index_eq order.strict_trans)
    qed
  qed
  ultimately show ?thesis using g(1) order(1,2) ids by (auto simp: g(2,3,5))
qed

text \<open>An engine without handlers: every node fails with the error of its policy, at once.\<close>

definition bare_driver :: "nat driver" where
  "bare_driver = \<lparr>dr_env = failing_env\<lparr>ne_handlers := []\<rparr>, dr_guard = (\<lambda>r. (Inr (), r)), dr_kind = (\<lambda>_. KStandard),
     dr_container = (\<lambda>_ r. Some (Inr (), r)), dr_background = (\<lambda>_ r. (Inr (), r)), dr_parallelV1 = True,
     dr_parallel = (\<lambda>_ _ reach r. Some (Inr reach, r)), dr_park = (\<lambda>_ r. Some (Inr True, r))\<rparr>"

definition skipping_node :: "string \<Rightarrow> node" where
  "skipping_node v = (failing_node ''skip_node'')\<lparr>node_id := v\<rparr>"

definition edge_between :: "string \<Rightarrow> string \<Rightarrow> graph_edge" where
  "edge_between u v = \<lparr>sourceNodeId = u, sourcePort = ''out'', targetNodeId = v, targetPort = ''in''\<rparr>"

text \<open>Two nodes in a loop, with the limit 3.\<close>

definition two_loop :: graph_state where
  "two_loop = projr (loadAndBuildGraph [skipping_node ''a'', skipping_node ''b'']
     [edge_between ''a'' ''b'', edge_between ''b'' ''a''] 3)"

definition at_start :: "string list \<Rightarrow> nat loop" where
  "at_start reachable = \<lparr>lp_run = empty_run, lp_reachable = reachable, lp_counts = [], lp_pointer = 0\<rparr>"

lemma bare_driver_returns:
  assumes "\<And>n. graph_node g n \<Longrightarrow> bounded_retries no_host n"
  shows "calls_return bare_driver g"
  using assms by (simp add: calls_return_def bare_driver_def failing_env_def no_process_def)

lemma skipping_bounded: "bounded_retries no_host (skipping_node v)"
  by (simp add: bounded_retries_def skipping_node_def failing_policy)

lemma two_loop_limit: "gs_maxNodeIterations two_loop = 3"
  by (rule loadAndBuildGraph_facts [of "[skipping_node ''a'', skipping_node ''b'']"
        "[edge_between ''a'' ''b'', edge_between ''b'' ''a'']" 3]) (simp add: two_loop_def)

lemma two_loop_nodes:
  assumes "graph_node two_loop n"
  obtains v where "n = skipping_node v"
proof -
  have "gs_nodeMap two_loop = [(''a'', skipping_node ''a''), (''b'', skipping_node ''b'')]" by code_simp
  then show ?thesis using assms that by (auto simp: graph_node_def split: if_splits)
qed

theorem dispatch_loop_terminates_witness:
  "\<exists>r st'. runNodeDispatchLoop bare_driver two_loop JNull False (at_start [''a'']) = Some (r, st')"
proof -
  have "calls_return bare_driver two_loop"
    by (rule bare_driver_returns) (auto elim!: two_loop_nodes intro: skipping_bounded)
  then show ?thesis by (rule dispatch_loop_terminates) (simp add: two_loop_limit)
qed

section \<open>Workflows without loops\<close>

text \<open>The rows of nodes of \<open>T\<close>, in order.\<close>

definition rows_of :: "string set \<Rightarrow> 'w run \<Rightarrow> string list" where
  "rows_of T r = filter (\<lambda>v. v \<in> T) (map nr_nodeId (ru_rows r))"

text \<open>
  What the loop calls besides \<open>executeNode\<close> leaves the nodes of the order to the loop: the check between nodes,
  the body of a container (its children have a container and so are not in the order), the scheduling of a
  background body, waiting for input, and the handlers, whose workflow node runs the nodes of other workflows.
  Only a Parallel runs nodes of the order itself; the graph has none, or the engine does not run them in
  branches.
\<close>

definition works_elsewhere :: "'w driver \<Rightarrow> graph_state \<Rightarrow> bool" where
  "works_elsewhere d g \<longleftrightarrow>
     (\<forall>r x r'. dr_guard d r = (Inr x, r') \<longrightarrow> rows_of (set (gs_sortedNodeIds g)) r' = rows_of (set (gs_sortedNodeIds g)) r)
     \<and> (\<forall>n. graph_node g n \<longrightarrow>
          handler_touches (dr_env d) (node_type n) (- set (gs_sortedNodeIds g))
          \<and> (dr_parallelV1 d \<longrightarrow> dr_kind d (node_type n) \<noteq> KParallel)
          \<and> (\<forall>r x r'. dr_container d n r = Some (Inr x, r')
                \<longrightarrow> rows_of (set (gs_sortedNodeIds g)) r' = rows_of (set (gs_sortedNodeIds g)) r)
          \<and> (\<forall>r x r'. dr_background d n r = (Inr x, r')
                \<longrightarrow> rows_of (set (gs_sortedNodeIds g)) r' = rows_of (set (gs_sortedNodeIds g)) r)
          \<and> (\<forall>r r'. dr_park d n r = Some (Inr False, r')
                \<longrightarrow> rows_of (set (gs_sortedNodeIds g)) r' = rows_of (set (gs_sortedNodeIds g)) r))"

abbreviation node_ids :: "graph_state \<Rightarrow> 'w loop \<Rightarrow> string list" where
  "node_ids g st \<equiv> rows_of (set (gs_sortedNodeIds g)) (lp_run st)"

lemma works_elsewhereD:
  assumes "works_elsewhere d g"
  shows "dr_guard d r = (Inr x, r') \<Longrightarrow> rows_of (set (gs_sortedNodeIds g)) r' = rows_of (set (gs_sortedNodeIds g)) r"
    and "graph_node g n \<Longrightarrow> handler_touches (dr_env d) (node_type n) (- set (gs_sortedNodeIds g))"
    and "graph_node g n \<Longrightarrow> \<not> (dr_kind d (node_type n) = KParallel \<and> dr_parallelV1 d)"
    and "graph_node g n \<Longrightarrow> dr_container d n r = Some (Inr x, r') \<Longrightarrow>
      rows_of (set (gs_sortedNodeIds g)) r' = rows_of (set (gs_sortedNodeIds g)) r"
    and "graph_node g n \<Longrightarrow> dr_background d n r = (Inr x, r') \<Longrightarrow>
      rows_of (set (gs_sortedNodeIds g)) r' = rows_of (set (gs_sortedNodeIds g)) r"
    and "graph_node g n \<Longrightarrow> dr_park d n r = Some (Inr False, r') \<Longrightarrow>
      rows_of (set (gs_sortedNodeIds g)) r' = rows_of (set (gs_sortedNodeIds g)) r"
  using assms unfolding works_elsewhere_def by blast+

lemma executeNode_rows:
  assumes "executeNode env nodeMap n inp out st = Some (x, st')" and "handler_touches env (node_type n) (- T)"
  shows "rows_of T st' = rows_of T st @ (if node_id n \<in> T then [node_id n] else [])"
proof -
  obtain own added where rows: "ru_rows st' = ru_rows st @ own # added" "nr_nodeId own = node_id n"
      "nr_nodeId ` set added \<subseteq> - T"
    using executeNode_facts [OF assms] by blast
  have "filter (\<lambda>v. v \<in> T) (map nr_nodeId added) = []"
    using rows(3) by (auto simp: filter_empty_conv)
  then show ?thesis using rows(1,2) by (simp add: rows_of_def)
qed

lemma rows_of_objs [simp]: "rows_of T (st\<lparr>ru_objs := x\<rparr>) = rows_of T st"
  by (simp add: rows_of_def)

lemma thenR_return [simp]: "thenR (Some (Inr x, lp_run st)) st f = f x st"
  by (simp add: thenR_def)

lemma finish_node_plain:
  assumes "finish_node d g v st = Continue st'" and "no_back_edges g"
  shows "lp_pointer st' = Suc (lp_pointer st) \<and> lp_run st' = lp_run st
    \<and> (\<exists>outputs. lp_reachable st' = propagateReachability (ne_host (dr_env d)) v
         (outgoingEdgeMap (gs_indexes g)) outputs (lp_reachable st))"
  using assms by (auto simp: finish_node_def Let_def advance_def no_back_edges_def findActivatedBackEdge_def)

lemma dispatch_node_plain:
  assumes "dispatch_node d g input n st = Some (Continue st')" and "works_elsewhere d g" and "no_back_edges g"
    and "graph_node g n" and "node_id n \<in> set (gs_sortedNodeIds g)"
  shows "lp_pointer st' = Suc (lp_pointer st) \<and> node_ids g st' = node_ids g st @ [node_id n]
    \<and> (\<exists>outputs. lp_reachable st' = propagateReachability (ne_host (dr_env d)) (gs_sortedNodeIds g ! lp_pointer st)
         (outgoingEdgeMap (gs_indexes g)) outputs (lp_reachable st))"
proof -
  let ?v = "gs_sortedNodeIds g ! lp_pointer st" and ?T = "set (gs_sortedNodeIds g)"
  let ?kind = "dr_kind d (node_type n)"
  note same = works_elsewhereD [OF assms(2)]
  obtain inp objs where gather: "gatherNodeInput (ne_host (dr_env d)) ?v
      (gs_graphEdges g) (ru_executed (lp_run st)) (ru_outputs (lp_run st)) input
      (incomingEdgeMap (gs_indexes g)) (ru_objs (lp_run st)) = (inp, objs)" by fastforce
  obtain r1 r2 r3 r4 where run: "executeNode (dr_env d) (gs_nodeMap g) n inp (outgoingEdgeMap (gs_indexes g)) ((lp_run st)\<lparr>ru_objs := objs\<rparr>)
      = Some (Inr (), r1)"
    and r2: "(if ?kind = KContainer then dr_container d n r1 else Some (Inr (), r1)) = Some (Inr (), r2)"
    and r3: "(if ?kind = KBackground then dr_background d n r2 else (Inr (), r2)) = (Inr (), r3)"
    and r4: "(if is_waiting (ne_host (dr_env d)) (jget_or JUndef (ru_outputs r3) (node_id n))
        then dr_park d n r3 else Some (Inr False, r3)) = Some (Inr False, r4)"
    and finish: "finish_node d g ?v (st\<lparr>lp_run := r4\<rparr>) = Continue st'"
    using assms(1) same(3) [OF assms(4)] unfolding dispatch_node_def Let_def gather
    by (auto simp del: if_split_eq1 elim!: thenR_Continue split: if_splits)
  have "rows_of ?T r2 = rows_of ?T r1" using r2 same(4) [OF assms(4)] by (auto split: if_splits)
  moreover have "rows_of ?T r3 = rows_of ?T r2" using r3 same(5) [OF assms(4)] by (auto split: if_splits)
  moreover have "rows_of ?T r4 = rows_of ?T r3" using r4 same(6) [OF assms(4)] by (auto split: if_splits)
  ultimately show ?thesis
    using finish_node_plain [OF finish assms(3)] executeNode_rows [OF run same(2) [OF assms(4)]] assms(5) by simp
qed

text \<open>
  The order lists the nodes once, every id of it has its node, and the outgoing edges go forward.
\<close>

definition ordered_graph :: "graph_state \<Rightarrow> bool" where
  "ordered_graph g =
     (distinct (gs_sortedNodeIds g)
      \<and> (\<forall>v \<in> set (gs_sortedNodeIds g). \<exists>n. map_of (gs_nodeMap g) v = Some n \<and> node_id n = v)
      \<and> (\<forall>v. \<forall>e \<in> set (jget_or [] (outgoingEdgeMap (gs_indexes g)) v). \<exists>i j. i < j \<and> j < length (gs_sortedNodeIds g)
            \<and> gs_sortedNodeIds g ! i = v \<and> gs_sortedNodeIds g ! j = targetNodeId e))"

definition out_rel :: "graph_state \<Rightarrow> (string \<times> string) set" where
  "out_rel g = {(v, targetNodeId e) | v e. e \<in> set (jget_or [] (outgoingEdgeMap (gs_indexes g)) v)}"

lemma nth_in_drop: "j < length xs \<Longrightarrow> n \<le> j \<Longrightarrow> xs ! j \<in> set (drop n xs)"
  using nth_mem [of "j - n" "drop n xs"] by simp

lemma ordered_targets:
  assumes "ordered_graph g" and "p < length (gs_sortedNodeIds g)" and "(gs_sortedNodeIds g ! p, w) \<in> out_rel g"
  shows "w \<in> set (drop (Suc p) (gs_sortedNodeIds g))"
proof -
  obtain i j where ij: "i < j" "j < length (gs_sortedNodeIds g)" "gs_sortedNodeIds g ! i = gs_sortedNodeIds g ! p"
      "gs_sortedNodeIds g ! j = w"
    using assms(1,3) unfolding ordered_graph_def out_rel_def by blast
  have "i = p" using ij assms(1,2) by (simp add: ordered_graph_def nth_eq_iff_index_eq)
  then show ?thesis using ij nth_in_drop [of j "gs_sortedNodeIds g" "Suc p"] by auto
qed

text \<open>A step over the node at the pointer: when it is reachable it is executed, and it activates
  some of its targets.\<close>

lemma dispatch_step_plain:
  assumes "dispatch_step d g input False st = Some (Continue st')" and "works_elsewhere d g" and "no_back_edges g"
    and "ordered_graph g" and "v = gs_sortedNodeIds g ! lp_pointer st"
  shows "lp_pointer st < length (gs_sortedNodeIds g) \<and> lp_pointer st' = Suc (lp_pointer st)
    \<and> node_ids g st' = node_ids g st @ (if v \<in> set (lp_reachable st) then [v] else [])
    \<and> set (lp_reachable st) \<subseteq> set (lp_reachable st')
    \<and> set (lp_reachable st') \<subseteq> set (lp_reachable st)
        \<union> (if v \<in> set (lp_reachable st) then {w. (v, w) \<in> out_rel g} else {})"
proof -
  have p: "lp_pointer st < length (gs_sortedNodeIds g)"
    using assms(1) by (auto simp: dispatch_step_def split: if_splits)
  then have "v \<in> set (gs_sortedNodeIds g)" using assms(5) by simp
  then obtain n where n: "map_of (gs_nodeMap g) v = Some n" "node_id n = v"
    using assms(4) unfolding ordered_graph_def by blast
  then have node: "graph_node g n" "node_id n \<in> set (gs_sortedNodeIds g)"
    using \<open>v \<in> _\<close> by (auto simp: graph_node_def)
  obtain x r where guard: "dr_guard d (lp_run st) = (Inr x, r)"
    and rest: "visit_node d g input False v n (st\<lparr>lp_run := r\<rparr>) = Some (Continue st')"
    using assms(1) p n unfolding dispatch_step_def Let_def assms(5)
    by (auto elim!: thenR_Continue)
  have ids: "rows_of (set (gs_sortedNodeIds g)) r = node_ids g st" by (rule works_elsewhereD(1) [OF assms(2) guard])
  show ?thesis
  proof (cases "v \<in> set (lp_reachable st)")
    case False
    then show ?thesis using rest p ids by (auto simp: visit_node_def advance_def)
  next
    case True
    define st1 where "st1 = st\<lparr>lp_run := r, lp_counts := jput v (jget_or 0 (lp_counts st) v + 1) (lp_counts st)\<rparr>"
    show ?thesis
    proof (cases "node_isDisabled n")
      case disabled: True
      then show ?thesis using rest True p ids node(2) n(2)
        by (auto simp: rows_of_def visit_node_def Let_def ends_with_def advance_def handleDisabledNode_def createNodeExecution_def
            split: if_splits prod.splits)
    next
      case False
      then have "dispatch_node d g input n st1 = Some (Continue st')"
        using rest True by (auto simp: visit_node_def Let_def ends_with_def st1_def split: if_splits)
      from dispatch_node_plain [OF this assms(2,3) node] obtain outputs where
        "lp_pointer st' = Suc (lp_pointer st)" "node_ids g st' = node_ids g st @ [v]"
        "lp_reachable st' = propagateReachability (ne_host (dr_env d)) v (outgoingEdgeMap (gs_indexes g))
           outputs (lp_reachable st)"
        using n ids by (auto simp: st1_def assms(5))
      then show ?thesis using True p by (auto simp: set_propagateReachability out_rel_def)
    qed
  qed
qed

lemma thenR_Finished:
  "thenR m st f = Some (Finished (Inr False) st') \<Longrightarrow>
    (\<And>x r. m = Some (Inr x, r) \<Longrightarrow> f x (st\<lparr>lp_run := r\<rparr>) = Some (Finished (Inr False) st') \<Longrightarrow> P) \<Longrightarrow> P"
  by (auto simp: thenR_def ends_with_def split: option.splits sum.splits if_splits)

lemma finish_node_goes_on: "finish_node d g v st \<noteq> Finished r st'"
  by (auto simp: finish_node_def Let_def split: option.splits)

lemma dispatch_step_end:
  "dispatch_step d g input skip st = Some (Finished (Inr False) st') \<Longrightarrow>
    length (gs_sortedNodeIds g) \<le> lp_pointer st \<and> st' = st"
  unfolding dispatch_step_def visit_node_def dispatch_node_def Let_def
  by (auto elim!: thenR_Finished split: if_splits option.splits prod.splits
      simp: ends_with_def finish_node_goes_on)

lemma plain_loop:
  assumes "works_elsewhere d g" and "no_back_edges g" and "ordered_graph g"
  shows "runNodeDispatchLoop d g input False st = Some (Inr False, st') \<Longrightarrow>
    node_ids g st' = node_ids g st
      @ filter (\<lambda>v. v \<in> set (lp_reachable st')) (drop (lp_pointer st) (gs_sortedNodeIds g))
    \<and> set (lp_reachable st) \<subseteq> set (lp_reachable st')
    \<and> set (lp_reachable st') \<subseteq> set (lp_reachable st) \<union> set (drop (Suc (lp_pointer st)) (gs_sortedNodeIds g))
    \<and> set (lp_reachable st') \<subseteq> (out_rel g)\<^sup>* `` set (lp_reachable st)"
proof (induction "length (gs_sortedNodeIds g) - lp_pointer st" arbitrary: st rule: less_induct)
  case less
  let ?ids = "gs_sortedNodeIds g" and ?p = "lp_pointer st"
  show ?case
  proof (cases "dispatch_step d g input False st")
    case None
    then show ?thesis using less.prems by (simp add: runNodeDispatchLoop.simps [of d g input False st])
  next
    case (Some s)
    show ?thesis
    proof (cases s)
      case (Finished r st2)
      then have "r = Inr False" "st2 = st'"
        using less.prems Some by (simp_all add: runNodeDispatchLoop.simps [of d g input False st])
      then show ?thesis using dispatch_step_end [of d g input False st st2] Some Finished by auto
    next
      case (Continue st1)
      define v where "v = ?ids ! ?p"
      from dispatch_step_plain [OF Some [unfolded Continue] assms v_def]
      have p: "?p < length ?ids" "lp_pointer st1 = Suc ?p"
        and ids1: "node_ids g st1 = node_ids g st @ (if v \<in> set (lp_reachable st) then [v] else [])"
        and more1: "set (lp_reachable st) \<subseteq> set (lp_reachable st1)"
        and new1: "set (lp_reachable st1) \<subseteq> set (lp_reachable st)
          \<union> (if v \<in> set (lp_reachable st) then {w. (v, w) \<in> out_rel g} else {})"
        by blast+
      have "runNodeDispatchLoop d g input False st1 = Some (Inr False, st')"
        using less.prems Some Continue by (simp add: runNodeDispatchLoop.simps [of d g input False st])
      from less.hyps [OF _ this] p
      have ids2: "node_ids g st' = node_ids g st1 @ filter (\<lambda>v. v \<in> set (lp_reachable st')) (drop (Suc ?p) ?ids)"
        and more2: "set (lp_reachable st1) \<subseteq> set (lp_reachable st')"
        and new2: "set (lp_reachable st') \<subseteq> set (lp_reachable st1) \<union> set (drop (Suc (Suc ?p)) ?ids)"
        and reach2: "set (lp_reachable st') \<subseteq> (out_rel g)\<^sup>* `` set (lp_reachable st1)"
        by simp_all
      have targets: "{w. (v, w) \<in> out_rel g} \<subseteq> set (drop (Suc ?p) ?ids)"
        using ordered_targets [OF assms(3) p(1)] by (auto simp: v_def)
      have later: "set (drop (Suc (Suc ?p)) ?ids) \<subseteq> set (drop (Suc ?p) ?ids)"
        by (simp add: set_drop_subset_set_drop)
      have new: "set (lp_reachable st') \<subseteq> set (lp_reachable st) \<union> set (drop (Suc ?p) ?ids)"
        using new1 new2 targets later by (auto split: if_splits)
      have drop: "drop ?p ?ids = v # drop (Suc ?p) ?ids" using p(1) by (simp add: v_def Cons_nth_drop_Suc)
      moreover have "distinct (drop ?p ?ids)" using assms(3) by (simp add: ordered_graph_def)
      ultimately have "v \<in> set (lp_reachable st') \<longleftrightarrow> v \<in> set (lp_reachable st)"
        using new more1 more2 by auto
      moreover have "set (lp_reachable st1) \<subseteq> (out_rel g)\<^sup>* `` set (lp_reachable st)"
        using new1 by (auto split: if_splits)
      then have "set (lp_reachable st') \<subseteq> (out_rel g)\<^sup>* `` ((out_rel g)\<^sup>* `` set (lp_reachable st))"
        using reach2 Image_mono [OF subset_refl] by (rule_tac subset_trans)
      then have "set (lp_reachable st') \<subseteq> (out_rel g)\<^sup>* `` set (lp_reachable st)"
        by (simp flip: relcomp_Image)
      ultimately show ?thesis using ids1 ids2 drop more1 more2 new by auto
    qed
  qed
qed

lemma acyclic_loaded:
  assumes "acyclic (graph_rel (fst (buildGraph nodes edges)) (snd (buildGraph nodes edges)))"
    and "loadAndBuildGraph nodes edges m = Inr g"
  shows "no_back_edges g \<and> ordered_graph g
    \<and> out_rel g \<subseteq> graph_rel (fst (buildGraph nodes edges)) (snd (buildGraph nodes edges))"
proof -
  define gn ge where "gn = fst (buildGraph nodes edges)" and "ge = snd (buildGraph nodes edges)"
  define F where "F = forwardEdges (identifyBackEdges gn ge)"
  obtain g' order where "loadAndBuildGraph nodes edges m = Inr g'" "gs_sortedNodeIds g' = order"
      "gs_graphEdges g' = ge" "topologicalSort gn F = Inr order" "gs_backEdges g' = backEdges (identifyBackEdges gn ge)"
      "gs_indexes g' = buildEdgeIndexes (gs_graphEdges g') (gs_backEdges g') (gs_sortedIndexMap g')"
      "gs_nodeMap g' = node_map nodes"
    unfolding gn_def ge_def F_def by (rule loadAndBuildGraph_facts)
  then have g: "gs_sortedNodeIds g = order" "gs_graphEdges g = ge" "topologicalSort gn F = Inr order"
      "gs_backEdges g = backEdges (identifyBackEdges gn ge)" "gs_nodeMap g = node_map nodes"
      "gs_indexes g = buildEdgeIndexes (gs_graphEdges g) (gs_backEdges g) (gs_sortedIndexMap g)"
    using assms(2) by simp_all
  have "set (backEdges (identifyBackEdges gn ge)) = {}"
  proof -
    have "False" if e: "e \<in> set (backEdges (identifyBackEdges gn ge))" for e
    proof -
      have "graph_rel gn F \<subseteq> graph_rel gn ge"
        using back_edge_partition [of gn ge] unfolding F_def
        by (intro edge_rel_mono) (metis mset_subset_eq_add_left set_mset_mono set_mset_mset)
      then have "(targetNodeId e, sourceNodeId e) \<in> (graph_rel gn ge)\<^sup>*"
        using backEdges_close_cycles [OF e] rtrancl_mono unfolding F_def by blast
      then have "(sourceNodeId e, sourceNodeId e) \<in> (graph_rel gn ge)\<^sup>+"
        using backEdges_close_cycles [OF e] by (meson rtrancl_into_trancl2)
      then show False using assms(1) unfolding acyclic_def gn_def ge_def by blast
    qed
    then show ?thesis by (metis equals0I)
  qed
  then have none: "backEdges (identifyBackEdges gn ge) = []" by simp
  then have F: "set F = set ge" using back_edge_partition [of gn ge] unfolding F_def
    by (metis add.right_neutral mset.simps(1) set_mset_mset)
  have order: "distinct order" "set order = gn_id ` set gn" "in_order (graph_rel gn F) order"
    using topologicalSort_facts [of gn F] g(3) by auto
  have out: "e \<in> set (jget_or [] (outgoingEdgeMap (gs_indexes g)) v) \<longleftrightarrow> e \<in> set ge \<and> sourceNodeId e = v" for e v
    by (auto simp: g(2,6) buildEdgeIndexes_def)
  have rel: "(sourceNodeId e, targetNodeId e) \<in> graph_rel gn F \<and> targetNodeId e \<in> set order" if "e \<in> set ge" for e
    using buildGraph_closed [of nodes edges gn ge] that F by (auto simp: gn_def ge_def edge_rel_def order(2))
  have "no_back_edges g" by (simp add: no_back_edges_def g(4,6) none buildEdgeIndexes_def)
  moreover have "\<exists>n. map_of (gs_nodeMap g) v = Some n \<and> node_id n = v" if "v \<in> set order" for v
  proof -
    have "v \<in> node_id ` set nodes"
      using that by (auto simp: order(2) gn_def buildGraph_def Let_def)
    then show ?thesis unfolding g(5) by (rule node_map_get)
  qed
  moreover have "\<exists>i j. i < j \<and> j < length order \<and> order ! i = v \<and> order ! j = targetNodeId e"
    if "e \<in> set (jget_or [] (outgoingEdgeMap (gs_indexes g)) v)" for v e
    using that rel [of e] in_order_index [OF order(3) r_into_trancl] out by metis
  moreover have "out_rel g \<subseteq> graph_rel gn ge"
    using rel unfolding out_rel_def out by (auto simp: edge_rel_def F)
  ultimately show ?thesis
    using order(1) g(1) by (auto simp: ordered_graph_def gn_def ge_def)
qed

text \<open>C4. A workflow without loops runs in order. When a walk over it from its start ends by itself, it has
  executed exactly the nodes that became reachable, each once and in topological order, and only nodes that
  the edges reach from the entry nodes; the rows of container children and of called workflows lie between
  theirs. Nodes of every kind may occur but Parallels that run in branches, as long as the graph has no cycle
  and what the loop calls executes no top-level node of this workflow (no workflow node calls it again).\<close>

theorem acyclic_workflow_runs_in_order:
  assumes "acyclic (graph_rel (fst (buildGraph nodes edges)) (snd (buildGraph nodes edges)))"
    and "loadAndBuildGraph nodes edges m = Inr g" and "works_elsewhere d g" and "lp_pointer st = 0"
    and "runNodeDispatchLoop d g input False st = Some (Inr False, st')"
  shows "rows_of (set (gs_sortedNodeIds g)) (lp_run st') = rows_of (set (gs_sortedNodeIds g)) (lp_run st)
      @ filter (\<lambda>v. v \<in> set (lp_reachable st')) (gs_sortedNodeIds g)
    \<and> set (lp_reachable st) \<subseteq> set (lp_reachable st')
    \<and> set (lp_reachable st') \<subseteq> (graph_rel (fst (buildGraph nodes edges)) (snd (buildGraph nodes edges)))\<^sup>*
        `` set (lp_reachable st)"
proof -
  note g = acyclic_loaded [OF assms(1,2)]
  then have "(out_rel g)\<^sup>* \<subseteq> (graph_rel (fst (buildGraph nodes edges)) (snd (buildGraph nodes edges)))\<^sup>*"
    by (simp add: rtrancl_mono)
  then have "(out_rel g)\<^sup>* `` set (lp_reachable st)
      \<subseteq> (graph_rel (fst (buildGraph nodes edges)) (snd (buildGraph nodes edges)))\<^sup>* `` set (lp_reachable st)"
    by (rule Image_mono) simp
  then show ?thesis using plain_loop [OF assms(3) _ _ assms(5)] g assms(4) by force
qed


lemma skip_execute:
  "\<exists>r. executeNode (dr_env bare_driver) nm (skipping_node v) inp out st = Some (Inr (), r) \<and> ru_outputs r = ru_outputs st"
  by (simp add: executeNode_def run_node_def prepare_node_def get_handler_def bare_driver_def failing_env_def no_process_def
      catch_node_def isAbortError_def apply_policy_def Let_def handleError_def skipping_node_def failing_policy
      createNodeExecution_def settle_row_def split: prod.splits if_splits)

lemma skip_step:
  assumes "lp_pointer st < length (gs_sortedNodeIds g)" and "v = gs_sortedNodeIds g ! lp_pointer st"
    and "map_of (gs_nodeMap g) v = Some (skipping_node v)" and "no_back_edges g"
    and "gs_maxNodeIterations g = 0" and "ru_outputs (lp_run st) = []"
  shows "\<exists>st'. dispatch_step bare_driver g input False st = Some (Continue st')
    \<and> lp_pointer st' = Suc (lp_pointer st) \<and> ru_outputs (lp_run st') = []
    \<and> lp_reachable st' = (if v \<in> set (lp_reachable st)
        then propagateReachability no_host v (outgoingEdgeMap (gs_indexes g)) [] (lp_reachable st) else lp_reachable st)"
proof (cases "v \<in> set (lp_reachable st)")
  case True
  obtain inp objs where gather: "gatherNodeInput no_host v (gs_graphEdges g) (ru_executed (lp_run st))
      [] input (incomingEdgeMap (gs_indexes g)) (ru_objs (lp_run st)) = (inp, objs)" by fastforce
  obtain r where run: "executeNode (dr_env bare_driver) (gs_nodeMap g) (skipping_node v) inp (outgoingEdgeMap (gs_indexes g))
      ((lp_run st)\<lparr>ru_objs := objs\<rparr>) = Some (Inr (), r)" and r: "ru_outputs r = []"
    using skip_execute [of "gs_nodeMap g" v inp] assms(6) by (metis run.select_convs(2) run.update_convs(1) run.surjective)
  have d: "ne_host (dr_env bare_driver) = no_host" "\<And>t. dr_kind bare_driver t = KStandard"
    "\<And>r. dr_guard bare_driver r = (Inr (), r)"
    by (simp_all add: bare_driver_def failing_env_def no_process_def)
  have n: "node_isDisabled (skipping_node v) = False" "node_id (skipping_node v) = v"
    by (simp_all add: skipping_node_def failing_node_def)
  have idle: "\<not> is_waiting no_host JUndef" by (simp add: is_waiting_def js_get_def)
  have "jget_or [] (backEdgeMap (gs_indexes g)) v = []" using assms(4) by (simp add: no_back_edges_def)
  then show ?thesis
    using assms(1,3,5,6) True run r
    by (simp add: dispatch_step_def visit_node_def dispatch_node_def Let_def d n gather idle thenR_def
        finish_node_def findActivatedBackEdge_def advance_def assms(2) [symmetric])
next
  case False
  then show ?thesis using assms
    by (simp add: dispatch_step_def visit_node_def bare_driver_def thenR_def Let_def advance_def)
qed

text \<open>Three nodes, two of them in a line; the third is never reached.\<close>

definition line_nodes :: "node list" where
  "line_nodes = map skipping_node [''b'', ''a'', ''c'']"

definition line :: graph_state where
  "line = projr (loadAndBuildGraph line_nodes [edge_between ''a'' ''b''] 0)"

lemma line_facts:
  "gs_sortedNodeIds line = [''a'', ''c'', ''b'']" "gs_maxNodeIterations line = 0"
  "map_of (gs_nodeMap line) ''a'' = Some (skipping_node ''a'')"
  "map_of (gs_nodeMap line) ''b'' = Some (skipping_node ''b'')"
  "map_of (gs_nodeMap line) ''c'' = Some (skipping_node ''c'')"
  "outgoingEdgeMap (gs_indexes line) = [(''a'', [edge_between ''a'' ''b''])]"
  "backEdgeMap (gs_indexes line) = []"
  by code_simp+

lemma line_runs:
  "\<exists>st'. runNodeDispatchLoop bare_driver line JNull False (at_start [''a'']) = Some (Inr False, st')
     \<and> lp_reachable st' = [''a'', ''b'']"
proof -
  have start: "lp_pointer (at_start [''a'']) = 0" "ru_outputs (lp_run (at_start [''a''])) = []"
      "lp_reachable (at_start [''a'']) = [''a'']" and flat: "no_back_edges line"
    by (simp_all add: at_start_def empty_run_def no_back_edges_def line_facts)
  have opened: "\<not> isPortFiltered no_host JUndef p" for p by (simp add: isPortFiltered_def)
  obtain s1 where s1: "dispatch_step bare_driver line JNull False (at_start [''a'']) = Some (Continue s1)"
      "lp_pointer s1 = Suc 0" "ru_outputs (lp_run s1) = []" "lp_reachable s1 = [''a'', ''b'']"
    using skip_step [of "at_start [''a'']" line "''a''" JNull] flat
    by (auto simp: start line_facts propagateReachability_def opened edge_between_def jget_or_def jadd_def)
  have p: "''c'' = gs_sortedNodeIds line ! lp_pointer s1" "lp_pointer s1 < length (gs_sortedNodeIds line)"
    by (simp_all add: s1(2) line_facts(1))
  obtain s2 where s2: "dispatch_step bare_driver line JNull False s1 = Some (Continue s2)"
      "lp_pointer s2 = Suc (lp_pointer s1)" "ru_outputs (lp_run s2) = []"
      "lp_reachable s2 = (if ''c'' \<in> set (lp_reachable s1) then propagateReachability no_host ''c''
         (outgoingEdgeMap (gs_indexes line)) [] (lp_reachable s1) else lp_reachable s1)"
    using skip_step [OF p(2,1) line_facts(5) flat line_facts(2) s1(3)] by blast
  have r2: "lp_reachable s2 = [''a'', ''b'']" by (simp add: s2(4) s1(4))
  have q: "''b'' = gs_sortedNodeIds line ! lp_pointer s2" "lp_pointer s2 < length (gs_sortedNodeIds line)"
    by (simp_all add: s1(2) s2(2) line_facts(1))
  obtain s3 where s3: "dispatch_step bare_driver line JNull False s2 = Some (Continue s3)"
      "lp_pointer s3 = Suc (lp_pointer s2)"
      "lp_reachable s3 = (if ''b'' \<in> set (lp_reachable s2) then propagateReachability no_host ''b''
         (outgoingEdgeMap (gs_indexes line)) [] (lp_reachable s2) else lp_reachable s2)"
    using skip_step [OF q(2,1) line_facts(4) flat line_facts(2) s2(3)] by blast
  have r3: "lp_reachable s3 = [''a'', ''b'']"
    by (simp add: s3(3) r2 line_facts(6) propagateReachability_def jget_or_def)
  have "dispatch_step bare_driver line JNull False s3 = Some (Finished (Inr False) s3)"
    by (simp add: dispatch_step_def s1(2) s2(2) s3(2) line_facts(1))
  then show ?thesis using s1(1) s2(1) s3(1) r3 by (simp add: runNodeDispatchLoop.simps)
qed

theorem acyclic_workflow_runs_in_order_witness:
  "\<exists>st'. runNodeDispatchLoop bare_driver line JNull False (at_start [''a'']) = Some (Inr False, st')
     \<and> rows_of (set (gs_sortedNodeIds line)) (lp_run st') = [''a'', ''b'']"
proof -
  obtain st' where run: "runNodeDispatchLoop bare_driver line JNull False (at_start [''a'']) = Some (Inr False, st')"
    and reach: "lp_reachable st' = [''a'', ''b'']"
    using line_runs by blast
  have load: "loadAndBuildGraph line_nodes [edge_between ''a'' ''b''] 0 = Inr line"
    by (rule loadAndBuildGraph_facts [of line_nodes "[edge_between ''a'' ''b'']" 0]) (simp add: line_def)
  have "graph_rel (fst (buildGraph line_nodes [edge_between ''a'' ''b'']))
      (snd (buildGraph line_nodes [edge_between ''a'' ''b''])) \<subseteq> {(''a'', ''b'')}"
    by (auto simp: edge_rel_def buildGraph_def edge_between_def Let_def split: if_splits)
  then have acyclic: "acyclic (graph_rel (fst (buildGraph line_nodes [edge_between ''a'' ''b'']))
      (snd (buildGraph line_nodes [edge_between ''a'' ''b''])))"
    by (rule acyclic_subset [rotated]) (simp add: acyclic_insert wf_acyclic)
  have elsewhere: "works_elsewhere bare_driver line"
    by (simp add: works_elsewhere_def bare_driver_def handler_touches_def)
  have start: "lp_pointer (at_start [''a'']) = 0" "rows_of T (lp_run (at_start [''a''])) = []" for T
    by (simp_all add: at_start_def empty_run_def rows_of_def)
  have "rows_of (set (gs_sortedNodeIds line)) (lp_run st') = filter (\<lambda>v. v \<in> set (lp_reachable st')) (gs_sortedNodeIds line)"
    using acyclic_workflow_runs_in_order [OF acyclic load elsewhere start(1) run] start(2) by simp
  also have "\<dots> = [''a'', ''b'']" by (simp add: line_facts(1) reach)
  finally show ?thesis using run by blast
qed


end
