(* ===== verification/ExecutionState.thy ===== *)
theory ExecutionState
  imports JsValue
begin

text \<open>
  The states of an execution and the numbers that bound it: the transition table of
  \<open>state/state-machine.ts\<close>, the limits of \<open>execution-limits.ts\<close> (read from the environment and from
  the settings of a workspace or workflow) and the duration of a finished execution
  (\<open>shared/utils/terminal-duration.ts\<close>). Points in time are milliseconds.
\<close>

section \<open>States and transitions\<close>

datatype execution_status = Pending | Running | Completed | Failed | Cancelled | WaitingForInput

definition all_statuses :: "execution_status list" where
  "all_statuses = [Pending, Running, Completed, Failed, Cancelled, WaitingForInput]"

fun status_string :: "execution_status \<Rightarrow> string" where
  "status_string Pending = ''pending''"
| "status_string Running = ''running''"
| "status_string Completed = ''completed''"
| "status_string Failed = ''failed''"
| "status_string Cancelled = ''cancelled''"
| "status_string WaitingForInput = ''waiting_for_input''"

definition ALLOWED_TRANSITIONS :: "(string \<times> string list) list" where
  "ALLOWED_TRANSITIONS =
     [(''pending'', [''running'', ''cancelled'']),
      (''running'', [''completed'', ''failed'', ''cancelled'', ''waiting_for_input'']),
      (''waiting_for_input'', [''running'', ''cancelled'', ''failed'']),
      (''completed'', []),
      (''failed'', []),
      (''cancelled'', [])]"

text \<open>The option \<open>allowRetryReentry\<close> is a truth value: an absent one is false.\<close>

definition canTransition :: "string \<Rightarrow> string \<Rightarrow> bool \<Rightarrow> bool" where
  "canTransition from target allowRetryReentry =
     (if allowRetryReentry \<and> from = status_string Failed
         \<and> (target = status_string Running \<or> target = status_string WaitingForInput) then True
      else case map_of ALLOWED_TRANSITIONS from of
        None \<Rightarrow> False
      | Some allowed \<Rightarrow> target \<in> set allowed)"

definition transition_error :: "string \<Rightarrow> string \<Rightarrow> string" where
  "transition_error from target = ''Invalid state transition: cannot transition from \"'' @ from @ ''\" to \"'' @ target @ ''\"''"

definition assertTransition :: "string \<Rightarrow> string \<Rightarrow> bool \<Rightarrow> string + unit" where
  "assertTransition from target opts =
     (if canTransition from target opts then Inr () else Inl (transition_error from target))"

text \<open>The states the guards of the database let a writer leave.\<close>

definition nonTerminalStatuses :: "bool \<Rightarrow> execution_status list" where
  "nonTerminalStatuses opts =
     filter (\<lambda>from. \<exists>target \<in> set all_statuses. canTransition (status_string from) (status_string target) opts)
       all_statuses"

definition TERMINAL_STATUSES :: "execution_status list" where
  "TERMINAL_STATUSES = [Completed, Failed, Cancelled]"

lemma all_statuses_all [simp]: "s \<in> set all_statuses"
  by (cases s) (simp_all add: all_statuses_def)

lemma status_string_inject [simp]: "status_string s = status_string t \<longleftrightarrow> s = t"
  by (cases s; cases t) simp_all

lemma nonTerminalStatuses_default: "nonTerminalStatuses False = [Pending, Running, WaitingForInput]"
  by code_simp

lemma nonTerminalStatuses_reentry: "nonTerminalStatuses True = [Pending, Running, Failed, WaitingForInput]"
  by code_simp

lemma nonTerminal_cases:
  "s \<in> set (nonTerminalStatuses opts) \<longleftrightarrow> s \<noteq> Completed \<and> s \<noteq> Cancelled \<and> (s = Failed \<longrightarrow> opts)"
  by (cases opts; cases s) (simp_all add: nonTerminalStatuses_default nonTerminalStatuses_reentry)

text \<open>The table, read as a relation between the states.\<close>

lemma canTransition_cases:
  "canTransition (status_string s) (status_string t) opts \<longleftrightarrow>
     (case s of
        Pending \<Rightarrow> t = Running \<or> t = Cancelled
      | Running \<Rightarrow> t = Completed \<or> t = Failed \<or> t = Cancelled \<or> t = WaitingForInput
      | WaitingForInput \<Rightarrow> t = Running \<or> t = Cancelled \<or> t = Failed
      | Failed \<Rightarrow> opts \<and> (t = Running \<or> t = WaitingForInput)
      | _ \<Rightarrow> False)"
  by (cases s; cases t; cases opts) (simp_all add: canTransition_def ALLOWED_TRANSITIONS_def)

section \<open>Limits\<close>

definition isInteger :: "jsnum \<Rightarrow> bool" where
  "isInteger x = (case x of Fin q \<Rightarrow> of_int \<lfloor>q\<rfloor> = q | NZero \<Rightarrow> True | _ \<Rightarrow> False)"

text \<open>The environment variable passes \<open>/^\d+$/\<close>; otherwise the default is taken.\<close>

definition digits_only :: "string \<Rightarrow> bool" where
  "digits_only s = (s \<noteq> [] \<and> list_all is_digit s)"

definition DEFAULT_MAX_ACTIVE_RUNNING_MS :: jsnum where
  "DEFAULT_MAX_ACTIVE_RUNNING_MS = Fin 1800000"

definition resolveMaxActiveRunningMs :: "string option \<Rightarrow> jsnum" where
  "resolveMaxActiveRunningMs raw =
     (case raw of
        None \<Rightarrow> DEFAULT_MAX_ACTIVE_RUNNING_MS
      | Some r \<Rightarrow>
          if \<not> digits_only (js_trim r) then DEFAULT_MAX_ACTIVE_RUNNING_MS
          else (let parsed = string_to_num r in
                if isInteger parsed \<and> num_le (Fin 0) parsed then parsed else DEFAULT_MAX_ACTIVE_RUNNING_MS))"

definition DEFAULT_WORKSPACE_MAX_CONCURRENT_EXECUTIONS :: jsnum where
  "DEFAULT_WORKSPACE_MAX_CONCURRENT_EXECUTIONS = Fin 10"

definition DEFAULT_WORKFLOW_MAX_CONCURRENT_EXECUTIONS :: jsnum where
  "DEFAULT_WORKFLOW_MAX_CONCURRENT_EXECUTIONS = Fin 3"

text \<open>The settings are the value of the column, or nothing; a missing key reads as undefined.\<close>

definition resolveConcurrencyCap :: "props option \<Rightarrow> jsnum \<Rightarrow> jsnum" where
  "resolveConcurrencyCap settings defaultCap =
     (case settings of
        None \<Rightarrow> defaultCap
      | Some ps \<Rightarrow>
          (case map_of ps ''maxConcurrentExecutions'' of
             Some (JNum raw) \<Rightarrow> if isInteger raw \<and> num_less (Fin 0) raw then raw else defaultCap
           | _ \<Rightarrow> defaultCap))"

definition DEFAULT_QUEUE_WAIT_TIMEOUT_MS :: jsnum where
  "DEFAULT_QUEUE_WAIT_TIMEOUT_MS = Fin 300000"

definition resolveQueueWaitTimeoutMs :: "string option \<Rightarrow> jsnum" where
  "resolveQueueWaitTimeoutMs raw =
     (case raw of
        None \<Rightarrow> DEFAULT_QUEUE_WAIT_TIMEOUT_MS
      | Some r \<Rightarrow>
          if \<not> digits_only (js_trim r) then DEFAULT_QUEUE_WAIT_TIMEOUT_MS
          else (let parsed = string_to_num r in
                if isInteger parsed \<and> num_less (Fin 0) parsed then parsed else DEFAULT_QUEUE_WAIT_TIMEOUT_MS))"

definition DEFAULT_EXECUTION_RUN_WORKER_CONCURRENCY :: jsnum where
  "DEFAULT_EXECUTION_RUN_WORKER_CONCURRENCY = Fin 1"

definition resolveExecutionRunWorkerConcurrency :: "string option \<Rightarrow> jsnum" where
  "resolveExecutionRunWorkerConcurrency raw =
     (case raw of
        None \<Rightarrow> DEFAULT_EXECUTION_RUN_WORKER_CONCURRENCY
      | Some r \<Rightarrow>
          if \<not> digits_only (js_trim r) then DEFAULT_EXECUTION_RUN_WORKER_CONCURRENCY
          else (let parsed = string_to_num r in
                if isInteger parsed \<and> num_less (Fin 0) parsed then parsed
                else DEFAULT_EXECUTION_RUN_WORKER_CONCURRENCY))"

section \<open>Durations\<close>

definition PG_INT4_MAX :: int where
  "PG_INT4_MAX = 2147483647"

text \<open>The duration of an execution, from its own column or from its two dates.\<close>

definition resolveTerminalDurationMs :: "int option \<Rightarrow> int option \<Rightarrow> int option \<Rightarrow> int option" where
  "resolveTerminalDurationMs durationMs startedAt finishedAt =
     (case durationMs of
        Some d \<Rightarrow> Some d
      | None \<Rightarrow>
          (case (startedAt, finishedAt) of
             (Some started, Some finished) \<Rightarrow>
               let span = finished - started in
               if span < 0 then None else Some (min span PG_INT4_MAX)
           | _ \<Rightarrow> None))"

text \<open>Its twin in SQL, for writers that hold no row: \<open>TERMINAL_DURATION_MS_SQL\<close>.\<close>

definition terminal_duration_ms_sql :: "int \<Rightarrow> int \<Rightarrow> int option" where
  "terminal_duration_ms_sql terminalFinishedAt started_at =
     (if terminalFinishedAt < started_at then None else Some (min PG_INT4_MAX (terminalFinishedAt - started_at)))"

lemma terminal_duration_twins:
  "terminal_duration_ms_sql finished started = resolveTerminalDurationMs None (Some started) (Some finished)"
  by (simp add: terminal_duration_ms_sql_def resolveTerminalDurationMs_def min.commute)

lemma resolveTerminalDurationMs_bounds:
  "resolveTerminalDurationMs None s f = Some d \<Longrightarrow> 0 \<le> d \<and> d \<le> PG_INT4_MAX"
  by (auto simp: resolveTerminalDurationMs_def PG_INT4_MAX_def Let_def split: option.splits if_splits)

end
