(* ===== verification/ExecutionRows.thy ===== *)
theory ExecutionRows
  imports ExecutionState NodeRun
begin

text \<open>
  The rows of executions and node executions in the database, and every writer of their status:
  \<open>updateExecutionStatus\<close> and the guarded updates of \<open>execution-engine.service.ts\<close>, the finishing of
  a retried turn in \<open>retry-turn.service.ts\<close>, Stop in \<open>executions.service.ts\<close> and the shutdown in
  \<open>shutdown-state.service.ts\<close>. A writer is a function on the shared world; one guarded
  update or transaction of it is atomic, as in the database. What a writer read earlier (an entity held in
  memory, the row of a previous \<open>SELECT\<close>) is an argument, so it may be stale. The memory of the
  engine processes is keyed by the number of the process. Statements succeed and events are delivered;
  messages of the log and the notification of a failure are left out.
\<close>

section \<open>Rows\<close>

text \<open>The error column: a message and, where the source sets one, a code.\<close>

type_synonym exec_error = "string \<times> string option"

record exec_row =
  er_id :: string
  er_workflowId :: string
  er_status :: execution_status
  er_queuedAt :: "int option"
  er_startedAt :: int
  er_finishedAt :: "int option"
  er_durationMs :: "int option"
  er_activeRunningMs :: int
  er_outputData :: "jsval option"
  er_error :: "exec_error option"
  er_conversationThread :: "jsval option"
  er_userVariables :: "jsval option"
  er_resumeCallStack :: "jsval option"

record ne_row =
  ne_id :: string
  ne_executionId :: string
  ne_status :: node_status
  ne_error :: "exec_error option"
  ne_finishedAt :: "int option"

record workflow_row =
  wf_workspaceId :: string
  wf_settings :: "props option"
  wf_workspaceSettings :: "props option"

text \<open>The events of an execution: its start, and its end with the duration and, for a failure or a
  cancellation, the error and who cancelled.\<close>

datatype exec_event =
    ExecStarted string
  | ExecCompleted string "int option"
  | ExecFailed string "int option" "exec_error option"
  | ExecCancelled string "int option" string "exec_error option"

record world =
  executions :: "exec_row list"
  nodeExecutions :: "ne_row list"
  workflows :: "(string \<times> workflow_row) list"
  runQueue :: "string list"
  segmentStartMs :: "(nat \<times> string, int) jmap"
  cancelCheckedAtMs :: "(nat \<times> string, int) jmap"
  execEvents :: "exec_event list"
  terminalMetrics :: "execution_status list"
  errorMetrics :: "string list"

definition row_of :: "world \<Rightarrow> string \<Rightarrow> exec_row option" where
  "row_of w k = find (\<lambda>r. er_id r = k) (executions w)"

definition emit_exec :: "exec_event \<Rightarrow> world \<Rightarrow> world" where
  "emit_exec e w = w\<lparr>execEvents := execEvents w @ [e]\<rparr>"

text \<open>\<open>UPDATE \<dots> SET f WHERE p RETURNING *\<close>: the updated rows, as they are afterwards.\<close>

definition update_executions :: "(exec_row \<Rightarrow> bool) \<Rightarrow> (exec_row \<Rightarrow> exec_row) \<Rightarrow> world \<Rightarrow> exec_row list \<times> world" where
  "update_executions p f w =
     (map f (filter p (executions w)), w\<lparr>executions := map (\<lambda>r. if p r then f r else r) (executions w)\<rparr>)"

definition update_node_executions :: "(ne_row \<Rightarrow> bool) \<Rightarrow> (ne_row \<Rightarrow> ne_row) \<Rightarrow> world \<Rightarrow> ne_row list \<times> world" where
  "update_node_executions p f w =
     (map f (filter p (nodeExecutions w)),
      w\<lparr>nodeExecutions := map (\<lambda>r. if p r then f r else r) (nodeExecutions w)\<rparr>)"

text \<open>\<open>save\<close> of a whole entity: its row takes every column of it, or is inserted.\<close>

definition save_execution :: "exec_row \<Rightarrow> world \<Rightarrow> world" where
  "save_execution e w =
     (if \<exists>r \<in> set (executions w). er_id r = er_id e
      then w\<lparr>executions := map (\<lambda>r. if er_id r = er_id e then e else r) (executions w)\<rparr>
      else w\<lparr>executions := executions w @ [e]\<rparr>)"

definition save_node_execution :: "ne_row \<Rightarrow> world \<Rightarrow> world" where
  "save_node_execution n w =
     (if \<exists>r \<in> set (nodeExecutions w). ne_id r = ne_id n
      then w\<lparr>nodeExecutions := map (\<lambda>r. if ne_id r = ne_id n then n else r) (nodeExecutions w)\<rparr>
      else w\<lparr>nodeExecutions := nodeExecutions w @ [n]\<rparr>)"

definition recordRunningSegmentStart :: "nat \<Rightarrow> int \<Rightarrow> string \<Rightarrow> world \<Rightarrow> world" where
  "recordRunningSegmentStart p now executionId w =
     w\<lparr>segmentStartMs := jput (p, executionId) now (segmentStartMs w)\<rparr>"

definition forget_segment :: "nat \<Rightarrow> string \<Rightarrow> world \<Rightarrow> world" where
  "forget_segment p executionId w =
     w\<lparr>segmentStartMs := filter (\<lambda>(k, _). k \<noteq> (p, executionId)) (segmentStartMs w)\<rparr>"

section \<open>The transitions of the engine\<close>

definition lockNonTerminalExecutionRow :: "string \<Rightarrow> bool \<Rightarrow> world \<Rightarrow> bool" where
  "lockNonTerminalExecutionRow executionId opts w =
     (filter (\<lambda>r. er_id r = executionId \<and> er_status r \<in> set (nonTerminalStatuses opts)) (executions w) \<noteq> [])"

definition emitTerminalExecutionMetrics :: "exec_row \<Rightarrow> execution_status \<Rightarrow> bool \<Rightarrow> world \<Rightarrow> world" where
  "emitTerminalExecutionMetrics execution newStatus persisted w =
     (if \<not> persisted \<or> newStatus \<notin> set TERMINAL_STATUSES then w
      else let w1 = w\<lparr>terminalMetrics := terminalMetrics w @ [newStatus]\<rparr> in
        if newStatus = Failed
        then (let code = (case er_error execution of Some (_, Some c) \<Rightarrow> js_trim c | _ \<Rightarrow> []) in
              w1\<lparr>errorMetrics := errorMetrics w1 @ [if code = [] then ''unknown'' else code]\<rparr>)
        else w1)"

definition finishStatusTransition ::
  "nat \<Rightarrow> int \<Rightarrow> exec_row \<Rightarrow> execution_status \<Rightarrow> bool \<Rightarrow> bool \<Rightarrow> world \<Rightarrow> world" where
  "finishStatusTransition p now execution newStatus enteringRunning persisted w =
     emitTerminalExecutionMetrics execution newStatus persisted
       (if enteringRunning \<and> persisted then recordRunningSegmentStart p now (er_id execution) w else w)"

text \<open>The time of the running segment is added to the entity when it leaves \<open>running\<close>.\<close>

definition close_segment :: "nat \<Rightarrow> int \<Rightarrow> exec_row \<Rightarrow> execution_status \<Rightarrow> world \<Rightarrow> exec_row \<times> world" where
  "close_segment p now execution newStatus w =
     (if er_status execution = Running \<and> newStatus \<noteq> Running
      then (case map_of (segmentStartMs w) (p, er_id execution) of
              None \<Rightarrow> (execution, w)
            | Some segStart \<Rightarrow>
                (execution\<lparr>er_activeRunningMs := er_activeRunningMs execution + (now - segStart)\<rparr>,
                 forget_segment p (er_id execution) w))
      else (execution, w))"

definition lifecycle_columns :: "exec_row \<Rightarrow> exec_row \<Rightarrow> exec_row" where
  "lifecycle_columns execution r = r\<lparr>er_status := er_status execution,
     er_activeRunningMs := er_activeRunningMs execution, er_finishedAt := er_finishedAt execution,
     er_durationMs := er_durationMs execution, er_outputData := er_outputData execution,
     er_resumeCallStack := er_resumeCallStack execution, er_error := er_error execution\<rparr>"

text \<open>The result, the entity as it is left in memory, and the world.\<close>

definition updateExecutionStatus ::
  "nat \<Rightarrow> int \<Rightarrow> exec_row \<Rightarrow> execution_status \<Rightarrow> ne_row option \<Rightarrow> bool \<Rightarrow> world \<Rightarrow>
     (string + bool) \<times> exec_row \<times> world" where
  "updateExecutionStatus p now execution newStatus linkedNodeExec opts w =
     (case assertTransition (status_string (er_status execution)) (status_string newStatus) opts of
        Inl e \<Rightarrow> (Inl e, execution, w)
      | Inr _ \<Rightarrow>
          let enteringRunning = (newStatus = Running \<and> er_status execution \<noteq> newStatus);
              (execution1, w1) = close_segment p now execution newStatus w
          in case linkedNodeExec of
            Some nodeExec \<Rightarrow>
              if lockNonTerminalExecutionRow (er_id execution1) opts w1
              then let execution2 = execution1\<lparr>er_status := newStatus\<rparr> in
                (Inr True, execution2,
                 finishStatusTransition p now execution2 newStatus enteringRunning True
                   (save_node_execution nodeExec (save_execution execution2 w1)))
              else (Inr False, execution1, finishStatusTransition p now execution1 newStatus enteringRunning False w1)
          | None \<Rightarrow>
              let execution2 = execution1\<lparr>er_status := newStatus\<rparr>;
                  (updated, w2) = update_executions
                    (\<lambda>r. er_id r = er_id execution2 \<and> er_status r \<in> set (nonTerminalStatuses opts))
                    (lifecycle_columns execution2) w1
              in (Inr (updated \<noteq> []), execution2,
                  finishStatusTransition p now execution2 newStatus enteringRunning (updated \<noteq> []) w2))"

definition tryLockActiveExecutionAndSaveNodeExec :: "string \<Rightarrow> ne_row option \<Rightarrow> bool \<Rightarrow> world \<Rightarrow> bool \<times> world" where
  "tryLockActiveExecutionAndSaveNodeExec executionId nodeExec opts w =
     (if lockNonTerminalExecutionRow executionId opts w
      then (True, case nodeExec of Some n \<Rightarrow> save_node_execution n w | None \<Rightarrow> w)
      else (False, w))"

text \<open>The creation of an execution; the database refuses a second row with the same key.\<close>

definition createExecution :: "string \<Rightarrow> string \<Rightarrow> int \<Rightarrow> world \<Rightarrow> world" where
  "createExecution executionId workflowId now w =
     (if \<exists>r \<in> set (executions w). er_id r = executionId then w
      else w\<lparr>executions := executions w @
        [\<lparr>er_id = executionId, er_workflowId = workflowId, er_status = Pending, er_queuedAt = Some now,
          er_startedAt = now, er_finishedAt = None, er_durationMs = None, er_activeRunningMs = 0,
          er_outputData = None, er_error = None, er_conversationThread = None, er_userVariables = None,
          er_resumeCallStack = None\<rparr>]\<rparr>)"

section \<open>Guarded updates that hold no entity\<close>

text \<open>The columns of a terminal row, with the duration computed by the database.\<close>

definition terminal_row :: "execution_status \<Rightarrow> int \<Rightarrow> exec_row \<Rightarrow> exec_row" where
  "terminal_row status now r = r\<lparr>er_status := status, er_finishedAt := Some now,
     er_durationMs := terminal_duration_ms_sql now (er_startedAt r)\<rparr>"

definition returned_duration :: "exec_row list \<Rightarrow> int option" where
  "returned_duration rows = (case rows of [] \<Rightarrow> None | r # _ \<Rightarrow> er_durationMs r)"

definition finalizeRehydrationCleanup :: "nat \<Rightarrow> string \<Rightarrow> world \<Rightarrow> world" where
  "finalizeRehydrationCleanup p executionId w =
     w\<lparr>cancelCheckedAtMs := filter (\<lambda>(k, _). k \<noteq> (p, executionId)) (cancelCheckedAtMs w)\<rparr>"

definition cancel_waiting_nodes :: "string \<Rightarrow> int \<Rightarrow> world \<Rightarrow> world" where
  "cancel_waiting_nodes executionId now w =
     snd (update_node_executions (\<lambda>n. ne_executionId n = executionId \<and> ne_status n = NodeWaiting)
       (\<lambda>n. n\<lparr>ne_status := NodeCancelled, ne_finishedAt := Some now\<rparr>) w)"

definition cancelParkedExecution :: "nat \<Rightarrow> string \<Rightarrow> int \<Rightarrow> world \<Rightarrow> world" where
  "cancelParkedExecution p executionId now w =
     (let (result, w1) = update_executions
            (\<lambda>r. er_id r = executionId \<and> er_status r = WaitingForInput) (terminal_row Cancelled now) w
      in if result = [] then w1
         else emit_exec (ExecCancelled executionId (returned_duration result) ''user'' None)
                (finalizeRehydrationCleanup p executionId (cancel_waiting_nodes executionId now w1)))"

definition markWebChatIdleTimeout :: "nat \<Rightarrow> string \<Rightarrow> int \<Rightarrow> world \<Rightarrow> bool \<times> world" where
  "markWebChatIdleTimeout p executionId now w =
     (let error = (''Execution cancelled: public web-chat widget idle-wait timeout'', Some ''WEBCHAT_IDLE_TIMEOUT'');
          (result, w1) = update_executions
            (\<lambda>r. er_id r = executionId \<and> er_status r = WaitingForInput)
            (\<lambda>r. terminal_row Cancelled now r\<lparr>er_error := Some error\<rparr>) w
      in if result = [] then (False, w1)
         else (True, emit_exec (ExecCancelled executionId (returned_duration result) ''timeout'' (Some error))
                (finalizeRehydrationCleanup p executionId (cancel_waiting_nodes executionId now w1))))"

text \<open>The claim of a parked execution: both rows or none. An absent node execution is not claimed.\<close>

definition claimResumeEntry :: "nat \<Rightarrow> int \<Rightarrow> string \<Rightarrow> string \<Rightarrow> world \<Rightarrow> bool \<times> world" where
  "claimResumeEntry p now executionId nodeExecutionId w =
     (if nodeExecutionId = [] \<or> nodeExecutionId = ''__no_node_exec__'' then (True, w)
      else
        let (nodeRes, w1) = update_node_executions
              (\<lambda>n. ne_id n = nodeExecutionId \<and> ne_status n = NodeWaiting) (\<lambda>n. n\<lparr>ne_status := NodeRunning\<rparr>) w
        in if nodeRes = [] then (False, w1)
           else let (execRes, w2) = update_executions
                  (\<lambda>r. er_id r = executionId \<and> er_status r \<in> {WaitingForInput, Running})
                  (\<lambda>r. r\<lparr>er_status := Running\<rparr>) w1
             in if execRes = [] then (False, w)
                else (True, recordRunningSegmentStart p now executionId w2))"

text \<open>The messages that are not written in the characters of a \<open>string\<close> (\<open>resumeErrorMessage\<close> by its
  code, and the two of a stalled worker).\<close>

record texts =
  resumeErrorMessage :: "string \<Rightarrow> string"
  stalledMessage :: string
  stalledNodeMessage :: string

definition markExecutionCancelled :: "texts \<Rightarrow> string \<Rightarrow> string \<Rightarrow> int \<Rightarrow> world \<Rightarrow> world" where
  "markExecutionCancelled tx executionId code now w =
     (let error = (resumeErrorMessage tx code, Some code);
          (result, w1) = update_executions
            (\<lambda>r. er_id r = executionId \<and> er_status r \<in> {WaitingForInput, Running})
            (\<lambda>r. terminal_row Cancelled now r\<lparr>er_error := Some error\<rparr>) w
      in if result = [] then w1
         else emit_exec (ExecCancelled executionId (returned_duration result) ''system'' (Some error)) w1)"

definition markNodeExecutionFailed :: "texts \<Rightarrow> string \<Rightarrow> string \<Rightarrow> int \<Rightarrow> world \<Rightarrow> world" where
  "markNodeExecutionFailed tx nodeExecutionId code now w =
     snd (update_node_executions
       (\<lambda>n. ne_id n = nodeExecutionId \<and> ne_status n \<in> {NodeWaiting, NodeRunning})
       (\<lambda>n. n\<lparr>ne_status := NodeFailed, ne_error := Some (resumeErrorMessage tx code, Some code),
              ne_finishedAt := Some now\<rparr>) w)"

definition markQueueWaitTimeout :: "string \<Rightarrow> int \<Rightarrow> world \<Rightarrow> world" where
  "markQueueWaitTimeout executionId now w =
     (let error = (''Execution cancelled: queue wait time exceeded'', Some ''EXECUTION_QUEUE_WAIT_TIMEOUT'');
          (result, w1) = update_executions
            (\<lambda>r. er_id r = executionId \<and> er_status r = Pending)
            (\<lambda>r. terminal_row Cancelled now r\<lparr>er_error := Some error\<rparr>) w
      in if result = [] then w1
         else emit_exec (ExecCancelled executionId (returned_duration result) ''timeout'' (Some error)) w1)"

definition reclaimStuckRunningExecution :: "nat \<Rightarrow> int \<Rightarrow> int \<Rightarrow> world \<Rightarrow> string list \<times> world" where
  "reclaimStuckRunningExecution p now staleThreshold w =
     (let (result, w1) = update_executions
            (\<lambda>r. er_status r = Running \<and> er_startedAt r < staleThreshold) (\<lambda>r. r\<lparr>er_startedAt := now\<rparr>) w;
          ids = map er_id result
      in (ids, fold (recordRunningSegmentStart p now) ids w1))"

definition finalizeStalledExhausted :: "texts \<Rightarrow> nat \<Rightarrow> string \<Rightarrow> int \<Rightarrow> world \<Rightarrow> world" where
  "finalizeStalledExhausted tx p executionId now w =
     (let stalledError = (stalledMessage tx, Some ''WORKER_HEARTBEAT_TIMEOUT'');
          (result, w1) = update_executions
            (\<lambda>r. er_id r = executionId \<and> er_status r = Running)
            (\<lambda>r. terminal_row Failed now r\<lparr>er_error := Some stalledError\<rparr>) w
      in if result = [] then w1
         else
           let w2 = snd (update_node_executions
                 (\<lambda>n. ne_executionId n = executionId \<and> ne_status n = NodeRunning)
                 (\<lambda>n. n\<lparr>ne_status := NodeFailed, ne_finishedAt := Some now,
                    ne_error := Some (stalledNodeMessage tx, Some ''WORKER_HEARTBEAT_TIMEOUT'')\<rparr>) w1)
           in emit_exec (ExecFailed executionId (returned_duration result) (Some stalledError))
                (finalizeRehydrationCleanup p executionId w2))"

text \<open>The server shuts down while work is in flight.\<close>

definition markRemainingAsInterrupted :: "string list \<Rightarrow> string list \<Rightarrow> int \<Rightarrow> world \<Rightarrow> world" where
  "markRemainingAsInterrupted nodeExecutionIds executionIds now w =
     (let w1 = snd (update_node_executions
            (\<lambda>n. ne_id n \<in> set nodeExecutionIds \<and> ne_status n = NodeRunning)
            (\<lambda>n. n\<lparr>ne_status := NodeFailed, ne_finishedAt := Some now, ne_error := Some
               (''NodeExecution interrupted by server shutdown (SIGTERM grace period elapsed)'',
                Some ''SERVER_INTERRUPTED'')\<rparr>) w)
      in snd (update_executions
            (\<lambda>r. er_id r \<in> set executionIds \<and> er_status r = Running)
            (\<lambda>r. r\<lparr>er_status := Failed, er_finishedAt := Some now, er_error := Some
               (''Execution interrupted by server shutdown (SIGTERM grace period elapsed)'',
                Some ''SERVER_INTERRUPTED'')\<rparr>) w1))"

section \<open>Admission\<close>

datatype admission = Admitted | WaitCancelled | Deferred

definition running_in_workspace :: "string \<Rightarrow> world \<Rightarrow> nat" where
  "running_in_workspace workspaceId w =
     length (filter (\<lambda>r. er_status r = Running \<and>
       (case map_of (workflows w) (er_workflowId r) of
          Some wrow \<Rightarrow> wf_workspaceId wrow = workspaceId
        | None \<Rightarrow> False)) (executions w))"

definition running_in_workflow :: "string \<Rightarrow> world \<Rightarrow> nat" where
  "running_in_workflow workflowId w =
     length (filter (\<lambda>r. er_workflowId r = workflowId \<and> er_status r = Running) (executions w))"

text \<open>The number of running executions of a workspace that is not known is zero.\<close>

definition admitExecutionOrDefer ::
  "string option \<Rightarrow> nat \<Rightarrow> int \<Rightarrow> exec_row \<Rightarrow> world \<Rightarrow> admission \<times> exec_row \<times> world" where
  "admitExecutionOrDefer queueTimeoutEnv p now execution w =
     (if (case er_queuedAt execution of
            None \<Rightarrow> False
          | Some q \<Rightarrow> num_less (resolveQueueWaitTimeoutMs queueTimeoutEnv) (num_of_int (now - q)))
      then (WaitCancelled, execution, markQueueWaitTimeout (er_id execution) now w)
      else
        let workflow = map_of (workflows w) (er_workflowId execution);
            wfCap = resolveConcurrencyCap (Option.bind workflow wf_settings)
                      DEFAULT_WORKFLOW_MAX_CONCURRENT_EXECUTIONS;
            wsCap = resolveConcurrencyCap (Option.bind workflow wf_workspaceSettings)
                      DEFAULT_WORKSPACE_MAX_CONCURRENT_EXECUTIONS;
            inWorkspace = (case workflow of None \<Rightarrow> 0 | Some wrow \<Rightarrow> running_in_workspace (wf_workspaceId wrow) w);
            (rows, w1) = update_executions
              (\<lambda>r. er_id r = er_id execution \<and> er_status r = Pending
                 \<and> num_less (num_of_nat inWorkspace) wsCap
                 \<and> num_less (num_of_nat (running_in_workflow (er_workflowId execution) w)) wfCap)
              (\<lambda>r. r\<lparr>er_status := Running, er_startedAt := now\<rparr>) w
        in if length rows = 1
           then (Admitted, execution\<lparr>er_status := Running\<rparr>,
                 emit_exec (ExecStarted (er_id execution)) (recordRunningSegmentStart p now (er_id execution) w1))
           else (Deferred, execution, w1\<lparr>runQueue := runQueue w1 @ [er_id execution]\<rparr>))"

section \<open>Checks between nodes\<close>

definition CONTAINER_CANCEL_CHECK_THROTTLE_MS :: int where
  "CONTAINER_CANCEL_CHECK_THROTTLE_MS = 250"

definition assertExecutionNotCancelled :: "nat \<Rightarrow> int \<Rightarrow> string \<Rightarrow> bool \<Rightarrow> world \<Rightarrow> (exn + unit) \<times> world" where
  "assertExecutionNotCancelled p now executionId throttle w =
     (if throttle \<and> (case map_of (cancelCheckedAtMs w) (p, executionId) of
           None \<Rightarrow> False
         | Some lastCheckedAt \<Rightarrow> now - lastCheckedAt < CONTAINER_CANCEL_CHECK_THROTTLE_MS)
      then (Inr (), w)
      else
        let w1 = (if throttle then w\<lparr>cancelCheckedAtMs := jput (p, executionId) now (cancelCheckedAtMs w)\<rparr> else w)
        in if map_option er_status (row_of w executionId) \<noteq> Some Cancelled then (Inr (), w1)
           else (Inl (ExecutionCancelled (''Execution '' @ executionId @ '' cancelled externally'')), w1))"

definition assertActiveTimeWithinLimit :: "jsnum \<Rightarrow> nat \<Rightarrow> int \<Rightarrow> exec_row \<Rightarrow> world \<Rightarrow> exn + unit" where
  "assertActiveTimeWithinLimit maxActiveRunningMs p now execution w =
     (if num_le maxActiveRunningMs (Fin 0) then Inr ()
      else
        let inProgress = (case map_of (segmentStartMs w) (p, er_id execution) of
              Some segStart \<Rightarrow> now - segStart | None \<Rightarrow> 0);
            activeNow = er_activeRunningMs execution + inProgress
        in if num_le maxActiveRunningMs (num_of_int activeNow)
           then Inl (Raised ''ExecutionTimeLimitError'' ''Execution active-running time limit exceeded.'')
           else Inr ())"

section \<open>Stop\<close>

datatype stop_error = NotFound | InvalidState string | EnqueueFailed

text \<open>\<open>execution\<close> is the row the first query found; \<open>queued\<close> says whether the cancel message of a
  waiting execution could be queued (its consumer is \<open>cancelParkedExecution\<close>).\<close>

definition stopInternal :: "exec_row option \<Rightarrow> bool \<Rightarrow> string \<Rightarrow> int \<Rightarrow> world \<Rightarrow> (stop_error + exec_row) \<times> world" where
  "stopInternal execution queued executionId now w =
     (case execution of
        None \<Rightarrow> (Inl NotFound, w)
      | Some e \<Rightarrow>
          if er_status e \<notin> {Running, Pending, WaitingForInput}
          then (Inl (InvalidState (''Cannot stop execution with status '' @ [CHR 0x27] @ status_string (er_status e) @ [CHR 0x27])), w)
          else if er_status e = WaitingForInput
          then (if \<not> queued then (Inl EnqueueFailed, w)
                else (Inr (case row_of w executionId of Some r \<Rightarrow> r | None \<Rightarrow> e), w))
          else
            let durationMs = (case resolveTerminalDurationMs None (Some (er_startedAt e)) (Some now) of
                  Some d \<Rightarrow> d | None \<Rightarrow> 0);
                (_, w1) = update_executions
                  (\<lambda>r. er_id r = executionId \<and> er_status r \<in> {Running, Pending})
                  (\<lambda>r. r\<lparr>er_status := Cancelled, er_finishedAt := Some now, er_durationMs := Some durationMs\<rparr>) w
            in (Inr (case row_of w1 executionId of Some r \<Rightarrow> r | None \<Rightarrow> e), w1))"

section \<open>The end of an execution\<close>

definition with_duration :: "exec_row \<Rightarrow> exec_row" where
  "with_duration e = (case resolveTerminalDurationMs (er_durationMs e) (Some (er_startedAt e)) (er_finishedAt e) of
     Some d \<Rightarrow> e\<lparr>er_durationMs := Some d\<rparr> | None \<Rightarrow> e)"

definition terminal_duration :: "exec_row \<Rightarrow> int option" where
  "terminal_duration e = resolveTerminalDurationMs (er_durationMs e) (Some (er_startedAt e)) (er_finishedAt e)"

text \<open>The end of \<open>runExecution\<close> when its walk has ended: \<open>outputData\<close> is the output of the result
  node, where there is one.\<close>

definition completeExecution :: "nat \<Rightarrow> int \<Rightarrow> jsval option \<Rightarrow> exec_row \<Rightarrow> world \<Rightarrow> (string + unit) \<times> exec_row \<times> world" where
  "completeExecution p now outputData execution w =
     (let e1 = (case outputData of Some v \<Rightarrow> execution\<lparr>er_outputData := Some v\<rparr> | None \<Rightarrow> execution);
          e2 = with_duration (e1\<lparr>er_finishedAt := Some now\<rparr>)
      in case updateExecutionStatus p now e2 Completed None False w of
        (Inl e, e3, w1) \<Rightarrow> (Inl e, e3, w1)
      | (Inr completed, e3, w1) \<Rightarrow>
          (Inr (), e3, if completed then emit_exec (ExecCompleted (er_id e3) (terminal_duration e3)) w1 else w1))"

text \<open>A cancellation that the guard refuses is announced if the row says cancelled.\<close>

definition finalizeCancelledExecution :: "nat \<Rightarrow> int \<Rightarrow> exec_row \<Rightarrow> world \<Rightarrow> (string + unit) \<times> exec_row \<times> world" where
  "finalizeCancelledExecution p now execution w =
     (let e1 = with_duration (execution\<lparr>er_finishedAt :=
             (case er_finishedAt execution of Some t \<Rightarrow> Some t | None \<Rightarrow> Some now)\<rparr>)
      in case updateExecutionStatus p now e1 Cancelled None False w of
        (Inl e, e2, w1) \<Rightarrow> (Inl e, e2, w1)
      | (Inr True, e2, w1) \<Rightarrow>
          (Inr (), e2, emit_exec (ExecCancelled (er_id e2) (terminal_duration e2) ''user'' None) w1)
      | (Inr False, e2, w1) \<Rightarrow>
          (case row_of w1 (er_id e2) of
             None \<Rightarrow> (Inr (), e2, w1)
           | Some live \<Rightarrow>
               if er_status live \<noteq> Cancelled then (Inr (), e2, w1)
               else
                 let e3 = e2\<lparr>er_durationMs :=
                         (case er_durationMs live of Some d \<Rightarrow> Some d | None \<Rightarrow> er_durationMs e2),
                       er_finishedAt := (case er_finishedAt live of Some t \<Rightarrow> Some t | None \<Rightarrow> er_finishedAt e2)\<rparr>
                 in (Inr (), e3, emit_exec (ExecCancelled (er_id e3) (terminal_duration e3) ''user'' None) w1)))"

text \<open>\<open>error\<close> is the message of the error, with the code of the two errors that have one.\<close>

definition finalizeFailedExecution :: "nat \<Rightarrow> int \<Rightarrow> exec_error \<Rightarrow> exec_row \<Rightarrow> world \<Rightarrow> (string + unit) \<times> exec_row \<times> world" where
  "finalizeFailedExecution p now error execution w =
     (let e1 = with_duration (execution\<lparr>er_error := Some error, er_finishedAt := Some now\<rparr>)
      in case updateExecutionStatus p now e1 Failed None False w of
        (Inl e, e2, w1) \<Rightarrow> (Inl e, e2, w1)
      | (Inr persisted, e2, w1) \<Rightarrow>
          (Inr (), e2, if persisted then emit_exec (ExecFailed (er_id e2) (terminal_duration e2) (er_error e2)) w1
                       else w1))"

section \<open>The end of a retried turn\<close>

text \<open>\<open>COALESCE\<close> keeps the times that the row has.\<close>

definition coalesce_times :: "exec_row \<Rightarrow> exec_row \<Rightarrow> exec_row" where
  "coalesce_times execution r = r\<lparr>
     er_finishedAt := (case er_finishedAt r of Some t \<Rightarrow> Some t | None \<Rightarrow> er_finishedAt execution),
     er_durationMs := (case er_durationMs r of Some d \<Rightarrow> Some d | None \<Rightarrow> er_durationMs execution)\<rparr>"

text \<open>\<open>live\<close> is the row its query found.\<close>

definition finalizeGuarded ::
  "nat \<Rightarrow> int \<Rightarrow> exec_row option \<Rightarrow> exec_row \<Rightarrow> string \<Rightarrow> execution_status \<Rightarrow> world \<Rightarrow>
     (string + bool) \<times> exec_row \<times> world" where
  "finalizeGuarded p now live execution executionId target w =
     (case live of
        None \<Rightarrow> (Inr False, execution, w)
      | Some l \<Rightarrow>
          let execution1 = execution\<lparr>er_status := er_status l\<rparr> in
          if er_status l = target
          then if target = Cancelled
            then
              let (result, w1) = update_executions
                    (\<lambda>r. er_id r = executionId \<and> er_status r = target)
                    (coalesce_times execution1) w
              in (Inr (result \<noteq> []),
                  (case result of
                     [] \<Rightarrow> execution1
                   | r # _ \<Rightarrow> execution1\<lparr>
                       er_durationMs := (case er_durationMs r of Some d \<Rightarrow> Some d | None \<Rightarrow> er_durationMs execution1),
                       er_finishedAt := (case er_finishedAt r of Some t \<Rightarrow> Some t | None \<Rightarrow> er_finishedAt execution1)\<rparr>),
                  w1)
            else
              let (result, w1) = update_executions
                    (\<lambda>r. er_id r = executionId \<and> er_status r = target)
                    (\<lambda>r. r\<lparr>er_error := er_error execution1, er_finishedAt := er_finishedAt execution1,
                           er_durationMs := er_durationMs execution1\<rparr>) w
              in (Inr (result \<noteq> []), execution1, w1)
          else if \<not> canTransition (status_string (er_status l)) (status_string target) False
          then (Inr False, execution1, w)
          else updateExecutionStatus p now execution1 target None False w)"

definition prepareSuccessTermination :: "int \<Rightarrow> exec_row \<Rightarrow> exec_row" where
  "prepareSuccessTermination now execution =
     with_duration (execution\<lparr>er_error := None, er_finishedAt := Some now\<rparr>)"

definition completeRetryExecution ::
  "nat \<Rightarrow> int \<Rightarrow> exec_row option \<Rightarrow> exec_row \<Rightarrow> string \<Rightarrow> world \<Rightarrow> (string + unit) \<times> exec_row \<times> world" where
  "completeRetryExecution p now live execution executionId w =
     (case finalizeGuarded p now live (prepareSuccessTermination now execution) executionId Completed w of
        (Inl e, e1, w1) \<Rightarrow> (Inl e, e1, w1)
      | (Inr persisted, e1, w1) \<Rightarrow>
          (Inr (), e1, if persisted then emit_exec (ExecCompleted executionId (terminal_duration e1)) w1 else w1))"

text \<open>\<open>error\<close> is the message of a failure, or nothing when the turn was cancelled.\<close>

definition failRetryExecution ::
  "nat \<Rightarrow> int \<Rightarrow> exec_row option \<Rightarrow> string option \<Rightarrow> exec_row \<Rightarrow> string \<Rightarrow> world \<Rightarrow>
     (string + unit) \<times> exec_row \<times> world" where
  "failRetryExecution p now live error execution executionId w =
     (let e1 = (case error of None \<Rightarrow> execution | Some m \<Rightarrow> execution\<lparr>er_error := Some (m, None)\<rparr>);
          e2 = with_duration (e1\<lparr>er_finishedAt := Some now\<rparr>)
      in case finalizeGuarded p now live e2 executionId (if error = None then Cancelled else Failed) w of
        (Inl e, e3, w1) \<Rightarrow> (Inl e, e3, w1)
      | (Inr persisted, e3, w1) \<Rightarrow>
          (Inr (), e3,
           if \<not> persisted then w1
           else if error = None then emit_exec (ExecCancelled executionId (terminal_duration e3) ''user'' None) w1
           else emit_exec (ExecFailed executionId (terminal_duration e3) (er_error e3)) w1))"

end
