(* ===== verification/ExecutionGuards.thy ===== *)
theory ExecutionGuards
  imports ExecutionRows
begin

text \<open>
  What the guards of the writers achieve together. A run is a list of writers, each performed by any
  process with any stale entity. One lemma per writer says how it moves the rows (\<open>rows_evolve\<close>) and
  that it keeps the announced events true (\<open>consistent\<close>); the locale \<open>interference\<close> lifts them to
  runs.
\<close>

section \<open>Writers\<close>

datatype writer =
    Create string string int
  | Transition nat int exec_row execution_status "ne_row option" bool
  | TryLock string "ne_row option" bool
  | Complete nat int "jsval option" exec_row
  | EndCancelled nat int exec_row
  | EndFailed nat int exec_error exec_row
  | CancelParked nat string int
  | WebChatIdle nat string int
  | ClaimResume nat int string string
  | CancelResume string string int
  | FailNode string string int
  | QueueTimeout string int
  | Admit "string option" nat int exec_row
  | Reclaim nat int int
  | StalledExhausted nat string int
  | Interrupt "string list" "string list" int
  | Stop "exec_row option" bool string int
  | CompleteRetry nat int "exec_row option" exec_row
  | FailRetry nat int "exec_row option" "string option" exec_row

fun perform :: "texts \<Rightarrow> writer \<Rightarrow> world \<Rightarrow> world" where
  "perform tx (Create k wid now) w = createExecution k wid now w"
| "perform tx (Transition p now e s n opts) w = snd (snd (updateExecutionStatus p now e s n opts w))"
| "perform tx (TryLock k n opts) w = snd (tryLockActiveExecutionAndSaveNodeExec k n opts w)"
| "perform tx (Complete p now v e) w = snd (snd (completeExecution p now v e w))"
| "perform tx (EndCancelled p now e) w = snd (snd (finalizeCancelledExecution p now e w))"
| "perform tx (EndFailed p now err e) w = snd (snd (finalizeFailedExecution p now err e w))"
| "perform tx (CancelParked p k now) w = cancelParkedExecution p k now w"
| "perform tx (WebChatIdle p k now) w = snd (markWebChatIdleTimeout p k now w)"
| "perform tx (ClaimResume p now k n) w = snd (claimResumeEntry p now k n w)"
| "perform tx (CancelResume k c now) w = markExecutionCancelled tx k c now w"
| "perform tx (FailNode n c now) w = markNodeExecutionFailed tx n c now w"
| "perform tx (QueueTimeout k now) w = markQueueWaitTimeout k now w"
| "perform tx (Admit env p now e) w = snd (snd (admitExecutionOrDefer env p now e w))"
| "perform tx (Reclaim p now t) w = snd (reclaimStuckRunningExecution p now t w)"
| "perform tx (StalledExhausted p k now) w = finalizeStalledExhausted tx p k now w"
| "perform tx (Interrupt ns ks now) w = markRemainingAsInterrupted ns ks now w"
| "perform tx (Stop e q k now) w = snd (stopInternal e q k now w)"
| "perform tx (CompleteRetry p now l e) w = snd (snd (completeRetryExecution p now l e (er_id e) w))"
| "perform tx (FailRetry p now l err e) w = snd (snd (failRetryExecution p now l err e (er_id e) w))"

text \<open>The one writer that may leave \<open>failed\<close>.\<close>

fun reenters :: "writer \<Rightarrow> bool" where
  "reenters (Transition _ _ _ _ _ opts) = opts"
| "reenters _ = False"

section \<open>Rows under a writer\<close>

text \<open>A row keeps its key; a status that the guards do not let go stays, and with it the time of a
  cancellation; and nothing returns to \<open>pending\<close>.\<close>

definition evolves :: "bool \<Rightarrow> exec_row \<Rightarrow> exec_row \<Rightarrow> bool" where
  "evolves re r r' \<longleftrightarrow> er_id r' = er_id r
     \<and> (er_status r \<notin> set (nonTerminalStatuses re) \<longrightarrow> er_status r' = er_status r)
     \<and> (er_status r = Cancelled \<and> er_finishedAt r \<noteq> None \<longrightarrow> er_finishedAt r' = er_finishedAt r)
     \<and> (er_status r' = Pending \<longrightarrow> er_status r = Pending)"

definition rows_evolve :: "bool \<Rightarrow> world \<Rightarrow> world \<Rightarrow> bool" where
  "rows_evolve re w w' \<longleftrightarrow>
     (\<forall>k. row_of w k \<noteq> None \<longrightarrow> row_of w' k \<noteq> None \<and> evolves re (the (row_of w k)) (the (row_of w' k)))"

lemma rows_evolveD:
  assumes "rows_evolve re w w'" and "row_of w k = Some r"
  obtains r' where "row_of w' k = Some r'" and "evolves re r r'"
  using assms unfolding rows_evolve_def by (metis option.collapse option.sel option.distinct(1))

named_theorems evolve_intros \<open>steps under which the rows evolve\<close>

lemma evolves_refl [simp]: "evolves re r r"
  by (simp add: evolves_def)

lemma evolves_trans: "evolves re r s \<Longrightarrow> evolves re s t \<Longrightarrow> evolves re r t"
  unfolding evolves_def nonTerminal_cases by metis

lemma rows_evolve_refl [simp]: "rows_evolve re w w"
  by (simp add: rows_evolve_def)

lemma rows_evolve_trans [trans]: "rows_evolve re w w1 \<Longrightarrow> rows_evolve re w1 w2 \<Longrightarrow> rows_evolve re w w2"
  unfolding rows_evolve_def by (blast intro: evolves_trans)

lemma row_of_cong: "executions w' = executions w \<Longrightarrow> row_of w' k = row_of w k"
  by (simp add: row_of_def)

lemma rows_evolve_cong: "executions w2 = executions w1 \<Longrightarrow> rows_evolve re w w2 = rows_evolve re w w1"
  by (simp add: rows_evolve_def row_of_def)

lemma find_map: "(\<And>x. P (f x) = P x) \<Longrightarrow> find P (map f xs) = map_option f (find P xs)"
  by (induction xs) auto

lemma row_of_id: "row_of w k = Some r \<Longrightarrow> er_id r = k \<and> r \<in> set (executions w)"
  unfolding row_of_def find_Some_iff by (metis nth_mem)

lemma row_of_map:
  "executions w' = map f (executions w) \<Longrightarrow> (\<And>r. er_id (f r) = er_id r) \<Longrightarrow>
     row_of w' k = map_option f (row_of w k)"
  by (simp add: row_of_def find_map)

lemma row_of_update:
  assumes "\<And>r. p r \<Longrightarrow> er_id (f r) = er_id r"
  shows "row_of (snd (update_executions p f w)) k = map_option (\<lambda>r. if p r then f r else r) (row_of w k)"
  by (rule row_of_map) (auto simp: update_executions_def assms)

lemma rows_evolve_update [evolve_intros]:
  assumes step: "\<And>r. p r \<Longrightarrow> evolves re r (f r)"
  shows "rows_evolve re w (snd (update_executions p f w))"
proof -
  have "row_of (snd (update_executions p f w)) k = map_option (\<lambda>r. if p r then f r else r) (row_of w k)" for k
    using step by (intro row_of_update) (simp add: evolves_def)
  then show ?thesis
    using step by (auto simp: rows_evolve_def)
qed

lemma evolves_terminal [evolve_intros]:
  "er_status r \<in> set (nonTerminalStatuses False) \<Longrightarrow> s \<noteq> Pending \<Longrightarrow> evolves re r (terminal_row s now r)"
  "er_status r \<in> set (nonTerminalStatuses False) \<Longrightarrow> s \<noteq> Pending \<Longrightarrow>
     evolves re r (terminal_row s now r\<lparr>er_error := e\<rparr>)"
  by (auto simp: evolves_def terminal_row_def nonTerminal_cases)

lemma evolves_status [evolve_intros]:
  "er_status r \<in> set (nonTerminalStatuses False) \<Longrightarrow> er_status r' \<noteq> Pending \<Longrightarrow> er_id r' = er_id r \<Longrightarrow>
     evolves re r r'"
  by (auto simp: evolves_def nonTerminal_cases)

text \<open>Which part of the world a step leaves alone.\<close>

lemma executions_update_nodes [simp]:
  "executions (snd (update_node_executions p f w)) = executions w"
  "execEvents (snd (update_node_executions p f w)) = execEvents w"
  by (simp_all add: update_node_executions_def)

lemma executions_simps [simp]:
  "executions (emit_exec e w) = executions w"
  "executions (recordRunningSegmentStart p now k w) = executions w"
  "executions (forget_segment p k w) = executions w"
  "executions (save_node_execution n w) = executions w"
  "executions (finalizeRehydrationCleanup p k w) = executions w"
  "executions (cancel_waiting_nodes k now w) = executions w"
  "executions (emitTerminalExecutionMetrics x s b w) = executions w"
  "executions (finishStatusTransition p now x s b b' w) = executions w"
  by (simp_all add: emit_exec_def recordRunningSegmentStart_def forget_segment_def save_node_execution_def
      finalizeRehydrationCleanup_def cancel_waiting_nodes_def emitTerminalExecutionMetrics_def
      finishStatusTransition_def Let_def)

lemma events_simps [simp]:
  "execEvents (emit_exec e w) = execEvents w @ [e]"
  "execEvents (recordRunningSegmentStart p now k w) = execEvents w"
  "execEvents (forget_segment p k w) = execEvents w"
  "execEvents (save_node_execution n w) = execEvents w"
  "execEvents (save_execution x w) = execEvents w"
  "execEvents (finalizeRehydrationCleanup p k w) = execEvents w"
  "execEvents (cancel_waiting_nodes k now w) = execEvents w"
  "execEvents (emitTerminalExecutionMetrics x s b w) = execEvents w"
  "execEvents (finishStatusTransition p now x s b b' w) = execEvents w"
  "execEvents (snd (update_executions q f w)) = execEvents w"
  by (simp_all add: emit_exec_def recordRunningSegmentStart_def forget_segment_def save_node_execution_def
      save_execution_def finalizeRehydrationCleanup_def cancel_waiting_nodes_def emitTerminalExecutionMetrics_def
      finishStatusTransition_def update_executions_def Let_def)

lemma fold_record_segments [simp]:
  "executions (fold (recordRunningSegmentStart p now) ks w) = executions w"
  "execEvents (fold (recordRunningSegmentStart p now) ks w) = execEvents w"
  by (induction ks arbitrary: w) simp_all

lemma close_segment_simps [simp]:
  "executions (snd (close_segment p now e s w)) = executions w"
  "execEvents (snd (close_segment p now e s w)) = execEvents w"
  "er_id (fst (close_segment p now e s w)) = er_id e"
  "er_status (fst (close_segment p now e s w)) = er_status e"
  "er_finishedAt (fst (close_segment p now e s w)) = er_finishedAt e"
  by (auto simp: close_segment_def split: option.splits)

text \<open>Two worlds that differ in neither rows nor events are the same to the facts below.\<close>

definition distinct_ids :: "world \<Rightarrow> bool" where
  "distinct_ids w = distinct (map er_id (executions w))"

lemma distinct_ids_update:
  "(\<And>r. p r \<Longrightarrow> er_id (f r) = er_id r) \<Longrightarrow> distinct_ids (snd (update_executions p f w)) = distinct_ids w"
  by (simp add: distinct_ids_def update_executions_def comp_def if_distrib cong: if_cong)

lemma find_distinct: "distinct (map f xs) \<Longrightarrow> x \<in> set xs \<Longrightarrow> find (\<lambda>y. f y = f x) xs = Some x"
  by (induction xs) force+

lemma row_of_distinct: "distinct_ids w \<Longrightarrow> r \<in> set (executions w) \<Longrightarrow> row_of w (er_id r) = Some r"
  unfolding distinct_ids_def row_of_def by (rule find_distinct)

lemma update_returned:
  assumes "fst (update_executions p f w) \<noteq> []" and "distinct_ids w"
  obtains r where "p r" and "row_of w (er_id r) = Some r"
proof -
  from assms(1) have "filter p (executions w) \<noteq> []"
    by (simp add: update_executions_def)
  then obtain r where "r \<in> set (executions w)" and "p r"
    by (auto simp: filter_empty_conv)
  then show thesis
    using that row_of_distinct[OF assms(2)] by blast
qed

section \<open>Announced events\<close>

fun announces :: "exec_event \<Rightarrow> (string \<times> execution_status) option" where
  "announces (ExecStarted k) = None"
| "announces (ExecCompleted k _) = Some (k, Completed)"
| "announces (ExecFailed k _ _) = Some (k, Failed)"
| "announces (ExecCancelled k _ _ _) = Some (k, Cancelled)"

definition status_of :: "world \<Rightarrow> string \<Rightarrow> execution_status option" where
  "status_of w k = map_option er_status (row_of w k)"

text \<open>An event that announces a status which no writer may leave agrees with the row.\<close>

definition wire_agrees :: "bool \<Rightarrow> world \<Rightarrow> bool" where
  "wire_agrees re w \<longleftrightarrow>
     (\<forall>ev \<in> set (execEvents w). \<forall>k s. announces ev = Some (k, s) \<longrightarrow> s \<notin> set (nonTerminalStatuses re) \<longrightarrow>
        status_of w k = Some s)"

text \<open>What is shown of every writer on a table whose keys are distinct: the rows evolve, the keys stay
  distinct, and the events stay true.\<close>

definition step_ok :: "bool \<Rightarrow> world \<Rightarrow> world \<Rightarrow> bool" where
  "step_ok re w w' \<longleftrightarrow>
     (distinct_ids w \<longrightarrow> rows_evolve re w w' \<and> distinct_ids w' \<and> (wire_agrees re w \<longrightarrow> wire_agrees re w'))"

lemma status_of_cong: "executions w' = executions w \<Longrightarrow> status_of w' k = status_of w k"
  by (simp add: status_of_def row_of_def)

lemma distinct_ids_cong: "executions w' = executions w \<Longrightarrow> distinct_ids w' = distinct_ids w"
  by (simp add: distinct_ids_def)

lemma wire_step:
  assumes "wire_agrees re w" and "rows_evolve re w w'" and "execEvents w' = execEvents w"
  shows "wire_agrees re w'"
  unfolding wire_agrees_def
proof (intro ballI allI impI)
  fix ev k s
  assume "ev \<in> set (execEvents w')" and "announces ev = Some (k, s)" and s: "s \<notin> set (nonTerminalStatuses re)"
  then have "status_of w k = Some s"
    using assms(1,3) by (simp add: wire_agrees_def)
  then obtain r where r: "row_of w k = Some r" "er_status r = s"
    by (auto simp: status_of_def)
  obtain r' where "row_of w' k = Some r'" "evolves re r r'"
    using rows_evolveD[OF assms(2) r(1)] .
  then show "status_of w' k = Some s"
    using r s by (simp add: status_of_def evolves_def)
qed

lemma step_ok_refl [simp]: "step_ok re w w"
  by (simp add: step_ok_def)

lemma step_ok_trans [trans]: "step_ok re w w1 \<Longrightarrow> step_ok re w1 w2 \<Longrightarrow> step_ok re w w2"
  unfolding step_ok_def using rows_evolve_trans by blast

lemma step_ok_same:
  "executions w' = executions w1 \<Longrightarrow> execEvents w' = execEvents w1 \<Longrightarrow> step_ok re w w1 \<Longrightarrow> step_ok re w w'"
  by (simp add: step_ok_def rows_evolve_def row_of_def distinct_ids_def wire_agrees_def status_of_def)

lemma step_ok_rows:
  "(distinct_ids w \<Longrightarrow> rows_evolve re w w') \<Longrightarrow> (distinct_ids w \<Longrightarrow> distinct_ids w') \<Longrightarrow>
     execEvents w' = execEvents w \<Longrightarrow> step_ok re w w'"
  unfolding step_ok_def using wire_step by blast

lemma step_ok_update:
  assumes "\<And>r. p r \<Longrightarrow> evolves re r (f r)"
  shows "step_ok re w (snd (update_executions p f w))"
proof (rule step_ok_rows)
  show "rows_evolve re w (snd (update_executions p f w))"
    using assms by (rule rows_evolve_update)
  show "distinct_ids w \<Longrightarrow> distinct_ids (snd (update_executions p f w))"
    using assms by (subst distinct_ids_update) (auto simp: evolves_def)
qed simp

lemma step_ok_emit:
  assumes "step_ok re w w1"
    and "\<And>k s. distinct_ids w \<Longrightarrow> announces ev = Some (k, s) \<Longrightarrow> status_of w1 k = Some s"
  shows "step_ok re w (emit_exec ev w1)"
  using assms by (auto simp: step_ok_def rows_evolve_def row_of_def distinct_ids_def wire_agrees_def status_of_def)

lemma update_status:
  assumes "fst (update_executions p f w) \<noteq> []" and "distinct_ids w"
    and "\<And>r. p r \<Longrightarrow> er_id r = k \<and> er_id (f r) = k \<and> er_status (f r) = s"
  shows "status_of (snd (update_executions p f w)) k = Some s"
proof -
  obtain r where r: "p r" "row_of w (er_id r) = Some r"
    using update_returned[OF assms(1,2)] .
  have "row_of (snd (update_executions p f w)) k = map_option (\<lambda>r. if p r then f r else r) (row_of w k)"
    using assms(3) by (intro row_of_update) force
  then show ?thesis
    using r assms(3)[OF r(1)] by (simp add: status_of_def)
qed

text \<open>The shape of most writers: a guarded update and, if it hit a row, an event that announces the new status.\<close>

lemma step_ok_announce:
  assumes u: "update_executions p f w = (result, w1)"
    and "\<And>r. p r \<Longrightarrow> evolves re r (f r)" and "\<And>r. p r \<Longrightarrow> er_id r = k \<and> er_id (f r) = k \<and> er_status (f r) = s"
    and "executions w2 = executions w1" and "execEvents w2 = execEvents w1" and "result \<noteq> []"
    and "\<And>k' s'. announces ev = Some (k', s') \<Longrightarrow> k' = k \<and> s' = s"
  shows "step_ok re w (emit_exec ev w2)"
proof (rule step_ok_emit)
  have w1: "w1 = snd (update_executions p f w)" "result = fst (update_executions p f w)"
    using u by simp_all
  show "step_ok re w w2"
    by (rule step_ok_same[OF assms(4,5)]) (unfold w1, rule step_ok_update, rule assms(2))
  show "status_of w2 k' = Some s'" if "distinct_ids w" "announces ev = Some (k', s')" for k' s'
    using update_status[of p f w k s] that assms(3,6) assms(7)[OF that(2)] w1
    by (simp add: status_of_cong[OF assms(4)])
qed

section \<open>One lemma per writer\<close>

lemma terminal_row_simps [simp]:
  "er_id (terminal_row s now r) = er_id r" "er_status (terminal_row s now r) = s"
  "er_finishedAt (terminal_row s now r) = Some now"
  by (simp_all add: terminal_row_def)

lemma not_refused [simp]: "set (nonTerminalStatuses False) = {Pending, Running, WaitingForInput}"
  by (simp add: nonTerminalStatuses_default)

lemma step_ok_fst_update:
  "update_executions p f w = (result, w1) \<Longrightarrow> (\<And>r. p r \<Longrightarrow> evolves re r (f r)) \<Longrightarrow> step_ok re w w1"
  using step_ok_update[of p re f w] by simp

lemma step_ok_guarded:
  assumes "update_executions p f w = (result, w1)"
    and "\<And>r. p r \<Longrightarrow> er_id r = k \<and> er_status r \<in> {Pending, Running, WaitingForInput}"
    and "\<And>r. er_id (f r) = er_id r \<and> er_status (f r) = s" and "s \<noteq> Pending"
    and "executions w2 = executions w1" and "execEvents w2 = execEvents w1"
    and "\<And>k' s'. announces ev = Some (k', s') \<Longrightarrow> k' = k \<and> s' = s"
  shows "step_ok re w (if result = [] then w1 else emit_exec ev w2)"
proof -
  have evolve: "evolves re r (f r)" if "p r" for r
    using assms(2)[OF that] assms(3)[of r] assms(4) by (intro evolves_status) simp_all
  have "step_ok re w w1"
    by (rule step_ok_fst_update[OF assms(1) evolve])
  moreover have "step_ok re w (emit_exec ev w2)" if "result \<noteq> []"
    by (rule step_ok_announce[where k = k and s = s, OF assms(1) evolve _ assms(5,6) that assms(7)])
      (use assms(2,3) in auto)
  ultimately show ?thesis by simp
qed

lemma step_ok_cancelParked: "step_ok re w (cancelParkedExecution p k now w)"
  unfolding cancelParkedExecution_def Let_def
  by (split prod.split, intro allI impI, rule step_ok_guarded[where k = k and s = Cancelled], assumption) auto

lemma step_ok_webChatIdle: "step_ok re w (snd (markWebChatIdleTimeout p k now w))"
  unfolding markWebChatIdleTimeout_def Let_def if_distrib[of snd] snd_conv prod.case_distrib[of snd]
  by (split prod.split, intro allI impI, rule step_ok_guarded[where k = k and s = Cancelled], assumption) auto

lemma step_ok_cancelResume: "step_ok re w (markExecutionCancelled tx k c now w)"
  unfolding markExecutionCancelled_def Let_def
  by (split prod.split, intro allI impI, rule step_ok_guarded[where k = k and s = Cancelled], assumption) auto

lemma step_ok_queueTimeout: "step_ok re w (markQueueWaitTimeout k now w)"
  unfolding markQueueWaitTimeout_def Let_def
  by (split prod.split, intro allI impI, rule step_ok_guarded[where k = k and s = Cancelled], assumption) auto

lemma step_ok_stalled: "step_ok re w (finalizeStalledExhausted tx p k now w)"
  unfolding finalizeStalledExhausted_def Let_def
  by (split prod.split, intro allI impI, rule step_ok_guarded[where k = k and s = Failed], assumption) auto

lemma step_ok_nodes: "update_node_executions q g w = (ns, w1) \<Longrightarrow> step_ok re w w1"
  by (rule step_ok_same[OF _ _ step_ok_refl]) (use executions_update_nodes[of q g w] in auto)

lemma step_ok_memory:
  "step_ok re w w1 \<Longrightarrow> step_ok re w (recordRunningSegmentStart p now k w1)"
  "step_ok re w w1 \<Longrightarrow> step_ok re w (w1\<lparr>runQueue := q\<rparr>)"
  "step_ok re w w1 \<Longrightarrow> step_ok re w (fold (recordRunningSegmentStart p now) ks w1)"
  by (erule step_ok_same[rotated 2]; simp)+

lemma step_ok_leave:
  assumes "update_executions p f w = (result, w1)"
    and "\<And>r. p r \<Longrightarrow> er_status r \<in> {Pending, Running, WaitingForInput}"
    and "\<And>r. p r \<Longrightarrow> er_id (f r) = er_id r \<and> er_status (f r) \<noteq> Pending"
  shows "step_ok re w w1"
  by (rule step_ok_fst_update[OF assms(1)], rule evolves_status) (use assms(2,3) in auto)

lemma find_snoc: "\<not> P y \<or> (\<exists>x \<in> set xs. P x) \<Longrightarrow> find P (xs @ [y]) = find P xs"
  by (induction xs) auto

lemma row_of_create: "row_of w j \<noteq> None \<Longrightarrow> row_of (createExecution k wid now w) j = row_of w j"
  unfolding row_of_def createExecution_def find_None_iff by (auto intro!: find_snoc)

lemma step_ok_create: "step_ok re w (createExecution k wid now w)"
proof (rule step_ok_rows)
  show "rows_evolve re w (createExecution k wid now w)"
    by (simp add: rows_evolve_def row_of_create)
  show "distinct_ids (createExecution k wid now w)" if "distinct_ids w"
    using that by (auto simp: distinct_ids_def createExecution_def)
qed (simp add: createExecution_def)

lemma step_ok_tryLock: "step_ok re w (snd (tryLockActiveExecutionAndSaveNodeExec k n opts w))"
  by (rule step_ok_same[OF _ _ step_ok_refl])
    (auto simp: tryLockActiveExecutionAndSaveNodeExec_def split: option.split)

lemma step_ok_failNode: "step_ok re w (markNodeExecutionFailed tx n c now w)"
  by (rule step_ok_same[OF _ _ step_ok_refl]) (simp_all add: markNodeExecutionFailed_def)

lemma step_ok_claim: "step_ok re w (snd (claimResumeEntry p now k n w))"
proof (cases "update_node_executions (\<lambda>m. ne_id m = n \<and> ne_status m = NodeWaiting) (\<lambda>m. m\<lparr>ne_status := NodeRunning\<rparr>) w")
  case (Pair ns w1)
  have "step_ok re w w1"
    by (rule step_ok_nodes[OF Pair])
  show ?thesis
  proof (cases "update_executions (\<lambda>r. er_id r = k \<and> er_status r \<in> {WaitingForInput, Running})
      (\<lambda>r. r\<lparr>er_status := Running\<rparr>) w1")
    case rows: (Pair rs w2)
    have "step_ok re w1 w2"
      by (rule step_ok_leave[OF rows]) auto
    then have "step_ok re w (recordRunningSegmentStart p now k w2)"
      using \<open>step_ok re w w1\<close> by (intro step_ok_memory) (rule step_ok_trans)
    then show ?thesis
      using \<open>step_ok re w w1\<close> Pair rows by (simp add: claimResumeEntry_def Let_def)
  qed
qed

lemma step_ok_reclaim: "step_ok re w (snd (reclaimStuckRunningExecution p now t w))"
  unfolding reclaimStuckRunningExecution_def Let_def prod.case_distrib[of snd] snd_conv
  by (split prod.split, intro allI impI, rule step_ok_memory, erule step_ok_leave) auto

lemma step_ok_interrupt: "step_ok re w (markRemainingAsInterrupted ns ks now w)"
  unfolding markRemainingAsInterrupted_def Let_def
  by (rule step_ok_trans[OF step_ok_same[OF executions_update_nodes step_ok_refl] step_ok_update])
    (auto intro: evolves_status)

lemma step_ok_admit: "step_ok re w (snd (snd (admitExecutionOrDefer env p now e w)))"
proof (cases "case er_queuedAt e of None \<Rightarrow> False
    | Some q \<Rightarrow> num_less (resolveQueueWaitTimeoutMs env) (num_of_int (now - q))")
  case True
  then show ?thesis
    by (simp add: admitExecutionOrDefer_def step_ok_queueTimeout)
next
  case False
  have admitted: "step_ok re w (emit_exec (ExecStarted k) (recordRunningSegmentStart p now k' w1))"
      and deferred: "step_ok re w (w1\<lparr>runQueue := q\<rparr>)"
    if "update_executions (\<lambda>r. er_id r = i \<and> er_status r = Pending \<and> P \<and> Q)
          (\<lambda>r. r\<lparr>er_status := Running, er_startedAt := now\<rparr>) w = (rows, w1)" for i P Q rows w1 k k' q
    using that by (auto intro!: step_ok_emit step_ok_memory elim!: step_ok_leave)
  show ?thesis
    using False by (auto simp: admitExecutionOrDefer_def Let_def split: prod.split intro: admitted deferred)
qed

lemma step_ok_stop: "step_ok re w (snd (stopInternal e q k now w))"
proof (cases e)
  case (Some r)
  have "step_ok re w w1"
    if "update_executions (\<lambda>r. er_id r = k \<and> er_status r \<in> {Running, Pending})
          (\<lambda>r. r\<lparr>er_status := Cancelled, er_finishedAt := Some now, er_durationMs := d\<rparr>) w = (rows, w1)" for d rows w1
    by (rule step_ok_leave[OF that]) auto
  then show ?thesis
    using Some by (auto simp: stopInternal_def Let_def split: prod.split)
qed (simp add: stopInternal_def)

subsection \<open>The transitions of the engine\<close>

lemma row_of_save:
  assumes "\<exists>r \<in> set (executions w). er_id r = er_id e"
  shows "row_of (save_execution e w) k = (if k = er_id e then Some e else row_of w k)"
proof -
  have "row_of (save_execution e w) k = map_option (\<lambda>r. if er_id r = er_id e then e else r) (row_of w k)"
    using assms by (intro row_of_map) (auto simp: save_execution_def)
  moreover have "row_of w (er_id e) \<noteq> None"
    using assms by (auto simp: row_of_def find_None_iff)
  moreover have "er_id r = k" if "row_of w k = Some r" for r
    using row_of_id[OF that] by simp
  ultimately show ?thesis by (cases "row_of w k") auto
qed

lemma locked_row:
  assumes "lockNonTerminalExecutionRow k opts w" and "distinct_ids w"
  obtains r where "row_of w k = Some r" and "er_status r \<in> set (nonTerminalStatuses opts)"
    and "\<exists>r \<in> set (executions w). er_id r = k"
proof -
  obtain r where r: "r \<in> set (executions w)" "er_id r = k" "er_status r \<in> set (nonTerminalStatuses opts)"
    using assms(1) by (auto simp: lockNonTerminalExecutionRow_def filter_empty_conv)
  then show thesis
    using that row_of_distinct[OF assms(2) r(1)] by blast
qed

lemma distinct_ids_save:
  "\<exists>r \<in> set (executions w). er_id r = er_id e \<Longrightarrow> distinct_ids (save_execution e w) = distinct_ids w"
  by (auto simp: distinct_ids_def save_execution_def comp_def if_distrib cong: if_cong
      intro!: arg_cong[of _ _ distinct])

lemma lock_exists: "lockNonTerminalExecutionRow k opts w \<Longrightarrow> \<exists>r \<in> set (executions w). er_id r = k"
  by (auto simp: lockNonTerminalExecutionRow_def filter_empty_conv)

lemma nonTerminal_mono: "(opts \<longrightarrow> re) \<Longrightarrow> s \<in> set (nonTerminalStatuses opts) \<Longrightarrow> s \<in> set (nonTerminalStatuses re)"
  by (auto simp: nonTerminal_cases)

lemma evolves_guarded:
  "er_id r' = er_id r \<Longrightarrow> er_status r \<in> set (nonTerminalStatuses re) \<Longrightarrow> er_status r' \<noteq> Pending \<Longrightarrow> evolves re r r'"
  by (auto simp: evolves_def nonTerminal_cases)

lemma step_ok_save:
  assumes lock: "lockNonTerminalExecutionRow (er_id e) opts w" and "opts \<longrightarrow> re" and "er_status e \<noteq> Pending"
  shows "step_ok re w (save_execution e w)"
proof (rule step_ok_rows)
  show "rows_evolve re w (save_execution e w)" if d: "distinct_ids w"
  proof -
    obtain r where r: "row_of w (er_id e) = Some r" "er_status r \<in> set (nonTerminalStatuses opts)"
      using locked_row[OF lock d] by blast
    have "evolves re r e"
      using r row_of_id[OF r(1)] nonTerminal_mono assms(2,3) by (intro evolves_guarded) auto
    then show ?thesis
      using r(1) by (simp add: rows_evolve_def row_of_save[OF lock_exists[OF lock]])
  qed
  show "distinct_ids (save_execution e w)" if "distinct_ids w"
    using that distinct_ids_save[OF lock_exists[OF lock]] by simp
qed simp

lemma transition_target: "assertTransition (status_string s) (status_string t) opts = Inr u \<Longrightarrow> t \<noteq> Pending"
  by (auto simp: assertTransition_def canTransition_cases split: if_splits execution_status.splits)

lemma quiet_steps [simp]:
  "status_of (finishStatusTransition p now x s b b' w1) k = status_of w1 k"
  "status_of (save_node_execution n w1) k = status_of w1 k"
  "step_ok re w (finishStatusTransition p now x s b b' w1) = step_ok re w w1"
  "step_ok re w (save_node_execution n w1) = step_ok re w w1"
  by (simp_all add: status_of_def row_of_def step_ok_def rows_evolve_def distinct_ids_def wire_agrees_def)

text \<open>What a caller of \<open>updateExecutionStatus\<close> learns.\<close>

definition transition_ok :: "bool \<Rightarrow> exec_row \<Rightarrow> execution_status \<Rightarrow> world \<Rightarrow> (string + bool) \<times> exec_row \<times> world \<Rightarrow> bool" where
  "transition_ok re e s w r \<longleftrightarrow> (case r of (res, e', w') \<Rightarrow>
     step_ok re w w' \<and> execEvents w' = execEvents w \<and> er_id e' = er_id e
     \<and> (res = Inr True \<longrightarrow> distinct_ids w \<longrightarrow> status_of w' (er_id e) = Some s))"

lemma transition_ok_update:
  assumes "opts \<longrightarrow> re"
  shows "transition_ok re e s w (updateExecutionStatus p now e s n opts w)"
proof (cases "assertTransition (status_string (er_status e)) (status_string s) opts")
  case (Inl m)
  then show ?thesis
    by (simp add: updateExecutionStatus_def transition_ok_def)
next
  case (Inr u)
  note target = transition_target[OF Inr]
  obtain e1 w1 where seg: "close_segment p now e s w = (e1, w1)"
    by (cases "close_segment p now e s w")
  have e1: "er_id e1 = er_id e" and w1: "executions w1 = executions w" "execEvents w1 = execEvents w"
    using close_segment_simps[of p now e s w] seg by simp_all
  have start: "step_ok re w w1"
    by (rule step_ok_same[OF w1 step_ok_refl])
  have distinct: "distinct_ids w1 = distinct_ids w"
    by (rule distinct_ids_cong[OF w1(1)])
  show ?thesis
  proof (cases n)
    case None
    let ?p = "\<lambda>r. er_id r = er_id e \<and> er_status r \<in> set (nonTerminalStatuses opts)"
    let ?f = "lifecycle_columns (e1\<lparr>er_status := s\<rparr>)"
    obtain updated w2 where u: "update_executions ?p ?f w1 = (updated, w2)"
      by (cases "update_executions ?p ?f w1")
    have w2: "w2 = snd (update_executions ?p ?f w1)" "updated = fst (update_executions ?p ?f w1)"
      by (simp_all add: u)
    have "step_ok re w1 w2"
      using nonTerminal_mono[OF assms] target
      by (intro step_ok_fst_update[OF u] evolves_guarded) (auto simp: lifecycle_columns_def)
    then have "step_ok re w w2"
      by (rule step_ok_trans[OF start])
    moreover have "status_of w2 (er_id e) = Some s" if "updated \<noteq> []" "distinct_ids w"
      unfolding w2(1) using that w2(2) distinct by (intro update_status) (auto simp: lifecycle_columns_def)
    moreover have "execEvents w2 = execEvents w"
      using w1(2) by (simp add: w2)
    ultimately show ?thesis
      using None Inr seg u e1
      by (simp add: updateExecutionStatus_def transition_ok_def Let_def)
  next
    case (Some m)
    let ?e2 = "e1\<lparr>er_status := s\<rparr>"
    show ?thesis
    proof (cases "lockNonTerminalExecutionRow (er_id e1) opts w1")
      case True
      then have lock: "lockNonTerminalExecutionRow (er_id ?e2) opts w1" by simp
      have "step_ok re w (save_execution ?e2 w1)"
        using step_ok_save[OF lock assms] target by (intro step_ok_trans[OF start]) simp
      moreover have "status_of (save_execution ?e2 w1) (er_id e) = Some s"
        using row_of_save[OF lock_exists[OF lock]] e1 by (simp add: status_of_def)
      ultimately show ?thesis
        using Some Inr seg e1 True w1(2)
        by (simp add: updateExecutionStatus_def transition_ok_def Let_def)
    next
      case False
      then show ?thesis
        using Some Inr seg e1 w1(2) start by (simp add: updateExecutionStatus_def transition_ok_def Let_def)
    qed
  qed
qed

lemma transition_okD:
  assumes "updateExecutionStatus p now e s n opts w = (res, e', w')" and "opts \<longrightarrow> re"
  shows "step_ok re w w'" and "execEvents w' = execEvents w" and "er_id e' = er_id e"
    and "res = Inr True \<Longrightarrow> distinct_ids w \<Longrightarrow> status_of w' (er_id e) = Some s"
  using transition_ok_update[OF assms(2), of e s w p now n] by (simp_all add: assms(1) transition_ok_def)

lemma with_duration_simps [simp]:
  "er_id (with_duration e) = er_id e" "er_status (with_duration e) = er_status e"
  "er_finishedAt (with_duration e) = er_finishedAt e"
  by (simp_all add: with_duration_def split: option.split)

lemma step_ok_complete: "step_ok re w (snd (snd (completeExecution p now v e w)))"
proof -
  let ?e = "with_duration ((case v of Some v \<Rightarrow> e\<lparr>er_outputData := Some v\<rparr> | None \<Rightarrow> e)\<lparr>er_finishedAt := Some now\<rparr>)"
  obtain res e' w' where u: "updateExecutionStatus p now ?e Completed None False w = (res, e', w')"
    by (metis prod_cases3)
  note facts = transition_okD[OF u, of re, simplified]
  show ?thesis
    using facts by (auto simp: completeExecution_def Let_def u split: sum.split option.splits intro!: step_ok_emit)
qed

lemma step_ok_endFailed: "step_ok re w (snd (snd (finalizeFailedExecution p now err e w)))"
proof -
  let ?e = "with_duration (e\<lparr>er_error := Some err, er_finishedAt := Some now\<rparr>)"
  obtain res e' w' where u: "updateExecutionStatus p now ?e Failed None False w = (res, e', w')"
    by (metis prod_cases3)
  note facts = transition_okD[OF u, of re, simplified]
  show ?thesis
    using facts by (auto simp: finalizeFailedExecution_def Let_def u split: sum.split intro!: step_ok_emit)
qed

lemma step_ok_endCancelled: "step_ok re w (snd (snd (finalizeCancelledExecution p now e w)))"
proof -
  let ?e = "with_duration (e\<lparr>er_finishedAt := (case er_finishedAt e of Some t \<Rightarrow> Some t | None \<Rightarrow> Some now)\<rparr>)"
  obtain res e' w' where u: "updateExecutionStatus p now ?e Cancelled None False w = (res, e', w')"
    by (metis prod_cases3)
  note facts = transition_okD[OF u, of re, simplified]
  show ?thesis
    using facts by (auto simp: finalizeCancelledExecution_def Let_def u status_of_def
        split: sum.split bool.split option.split intro!: step_ok_emit)
qed

lemma guarded_okD:
  assumes "finalizeGuarded p now live e k s w = (res, e', w')" and "s \<noteq> Pending" and "er_id e = k"
  shows "step_ok re w w'" and "res = Inr True \<Longrightarrow> distinct_ids w \<Longrightarrow> status_of w' k = Some s"
proof -
  have "step_ok re w w' \<and> (res = Inr True \<longrightarrow> distinct_ids w \<longrightarrow> status_of w' k = Some s)"
  proof (cases live)
    case None
    then show ?thesis
      using assms(1) by (auto simp: finalizeGuarded_def)
  next
    case (Some l)
    let ?p = "\<lambda>r. er_id r = k \<and> er_status r = s"
    let ?c = "coalesce_times (e\<lparr>er_status := er_status l\<rparr>)"
    let ?f = "\<lambda>r. r\<lparr>er_error := er_error e, er_finishedAt := er_finishedAt e, er_durationMs := er_durationMs e\<rparr>"
    have *: "step_ok re w w1 \<and> (rs \<noteq> [] \<longrightarrow> distinct_ids w \<longrightarrow> status_of w1 k = Some s)"
      if "update_executions ?p g w = (rs, w1)" and "\<And>r. ?p r \<Longrightarrow> evolves re r (g r)"
        and "\<And>r. er_id (g r) = er_id r \<and> er_status (g r) = er_status r" for g rs w1
      using that step_ok_fst_update[OF that(1,2)] update_status[of ?p g w k s] by auto
    consider (same) "er_status l = s" "s = Cancelled" | (other) "er_status l = s" "s \<noteq> Cancelled"
      | (moved) "er_status l \<noteq> s"
      by blast
    then show ?thesis
    proof cases
      case same
      obtain rs w1 where u: "update_executions ?p ?c w = (rs, w1)"
        by (cases "update_executions ?p ?c w")
      have "w' = w1" "res = Inr (rs \<noteq> [])"
        using assms(1) Some same u by (auto simp: finalizeGuarded_def Let_def)
      then show ?thesis
        using *[OF u] by (auto simp: evolves_def coalesce_times_def split: option.splits)
    next
      case other
      obtain rs w1 where u: "update_executions ?p ?f w = (rs, w1)"
        by (cases "update_executions ?p ?f w")
      have "w' = w1" "res = Inr (rs \<noteq> [])"
        using assms(1) Some other u by (auto simp: finalizeGuarded_def Let_def)
      then show ?thesis
        using *[OF u] other by (auto simp: evolves_def)
    next
      case moved
      then show ?thesis
        using assms(1) Some transition_okD(1,4)[of p now "e\<lparr>er_status := er_status l\<rparr>" s None False w res e' w' re] assms(3)
        by (auto simp: finalizeGuarded_def Let_def split: if_splits)
    qed
  qed
  then show "step_ok re w w'" and "res = Inr True \<Longrightarrow> distinct_ids w \<Longrightarrow> status_of w' k = Some s"
    by blast+
qed

lemma step_ok_completeRetry: "step_ok re w (snd (snd (completeRetryExecution p now l e (er_id e) w)))"
proof -
  obtain res e' w' where u: "finalizeGuarded p now l (prepareSuccessTermination now e) (er_id e) Completed w = (res, e', w')"
    by (metis prod_cases3)
  have "er_id (prepareSuccessTermination now e) = er_id e"
    by (simp add: prepareSuccessTermination_def)
  note facts = guarded_okD(1)[OF u _ this, of re, simplified] guarded_okD(2)[OF u _ this, simplified]
  show ?thesis
    using facts by (auto simp: completeRetryExecution_def u split: sum.split intro!: step_ok_emit)
qed

lemma step_ok_failRetry: "step_ok re w (snd (snd (failRetryExecution p now l err e (er_id e) w)))"
proof -
  let ?e = "with_duration ((case err of None \<Rightarrow> e | Some m \<Rightarrow> e\<lparr>er_error := Some (m, None)\<rparr>)\<lparr>er_finishedAt := Some now\<rparr>)"
  let ?s = "if err = None then Cancelled else Failed"
  obtain res e' w' where u: "finalizeGuarded p now l ?e (er_id e) ?s w = (res, e', w')"
    by (metis prod_cases3)
  have "er_id ?e = er_id e" "?s \<noteq> Pending"
    by (simp_all split: option.split)
  note facts = guarded_okD(1)[OF u this(2,1), of re] guarded_okD(2)[OF u this(2,1)]
  show ?thesis
    using facts by (auto simp: failRetryExecution_def Let_def u split: sum.split intro!: step_ok_emit)
qed

theorem step_ok_perform: "(reenters op \<longrightarrow> re) \<Longrightarrow> step_ok re w (perform tx op w)"
proof (cases op)
  case (Transition p now e s n opts)
  assume "reenters op \<longrightarrow> re"
  then show ?thesis
    using Transition transition_ok_update[of opts re e s w p now n]
    by (auto simp: transition_ok_def split: prod.splits)
qed (simp_all add: step_ok_create step_ok_tryLock step_ok_complete step_ok_endCancelled step_ok_endFailed
    step_ok_cancelParked step_ok_webChatIdle step_ok_claim step_ok_cancelResume step_ok_failNode
    step_ok_queueTimeout step_ok_admit step_ok_reclaim step_ok_stalled step_ok_interrupt step_ok_stop
    step_ok_completeRetry step_ok_failRetry)

section \<open>Runs of many writers\<close>

text \<open>
  A client that works on shared state between the actions of others knows an invariant that every
  action keeps and a preorder that every action follows; both then hold of every run.
\<close>

locale interference =
  fixes act :: "'op \<Rightarrow> 'w \<Rightarrow> 'w"
    and allowed :: "'op \<Rightarrow> bool"
    and inv :: "'w \<Rightarrow> bool"
    and later :: "'w \<Rightarrow> 'w \<Rightarrow> bool"
  assumes inv_act: "allowed op \<Longrightarrow> inv w \<Longrightarrow> inv (act op w)"
    and later_act: "allowed op \<Longrightarrow> inv w \<Longrightarrow> later w (act op w)"
    and later_refl: "later w w"
    and later_trans: "later w w1 \<Longrightarrow> later w1 w2 \<Longrightarrow> later w w2"
begin

lemma run_inv: "list_all allowed ops \<Longrightarrow> inv w \<Longrightarrow> inv (fold act ops w)"
  by (induction ops arbitrary: w) (auto intro: inv_act)

lemma run_later: "list_all allowed ops \<Longrightarrow> inv w \<Longrightarrow> later w (fold act ops w)"
proof (induction ops arbitrary: w)
  case (Cons op ops)
  then have "later w (act op w)" "later (act op w) (fold act ops (act op w))"
    by (auto intro: later_act inv_act)
  then show ?case
    by (simp add: later_trans)
qed (simp add: later_refl)

end

interpretation rows: interference "perform tx" "\<lambda>op. reenters op \<longrightarrow> re" distinct_ids "rows_evolve re" for tx re
  by unfold_locales
    (use step_ok_perform in \<open>auto simp: step_ok_def intro: rows_evolve_trans\<close>)

interpretation wire: interference "perform tx" "\<lambda>op. reenters op \<longrightarrow> re" "\<lambda>w. distinct_ids w \<and> wire_agrees re w" "\<lambda>_ _. True"
  for tx re
  by unfold_locales (use step_ok_perform in \<open>auto simp: step_ok_def\<close>)

section \<open>What the guards guarantee\<close>

lemma run_row:
  assumes "list_all (\<lambda>op. reenters op \<longrightarrow> re) ops" and "distinct_ids w" and "row_of w k = Some r"
  obtains r' where "row_of (fold (perform tx) ops w) k = Some r'" and "evolves re r r'"
  using rows_evolveD[OF rows.run_later[OF assms(1,2)] assms(3)] .

text \<open>C1. Finished executions stay finished: whatever the writers do, in any order and with any stale entity,
  a completed or cancelled execution keeps its status, and a failed one keeps it too unless a retried
  turn is let through.\<close>

theorem finished_rows_final:
  assumes "list_all (\<lambda>op. reenters op \<longrightarrow> re) ops" and "distinct_ids w"
    and "row_of w k = Some r" and "er_status r \<notin> set (nonTerminalStatuses re)"
  shows "status_of (fold (perform tx) ops w) k = Some (er_status r)"
proof -
  obtain r' where "row_of (fold (perform tx) ops w) k = Some r'" "evolves re r r'"
    using run_row[OF assms(1-3)] .
  then show ?thesis
    using assms(4) by (simp add: status_of_def evolves_def)
qed

definition sample_row :: "execution_status \<Rightarrow> exec_row" where
  "sample_row s = \<lparr>er_id = ''e'', er_workflowId = ''w'', er_status = s, er_queuedAt = Some 0, er_startedAt = 5,
     er_finishedAt = None, er_durationMs = None, er_activeRunningMs = 7, er_outputData = None, er_error = None,
     er_conversationThread = None, er_userVariables = None, er_resumeCallStack = None\<rparr>"

definition sample_node :: "node_status \<Rightarrow> ne_row" where
  "sample_node s = \<lparr>ne_id = ''n'', ne_executionId = ''e'', ne_status = s, ne_error = None, ne_finishedAt = None\<rparr>"

definition sample_world :: "execution_status \<Rightarrow> node_status \<Rightarrow> world" where
  "sample_world s t = \<lparr>executions = [sample_row s], nodeExecutions = [sample_node t], workflows = [], runQueue = [],
     segmentStartMs = [], cancelCheckedAtMs = [], execEvents = [], terminalMetrics = [], errorMetrics = []\<rparr>"

lemma sample_facts [simp]:
  "row_of (sample_world s t) ''e'' = Some (sample_row s)" "distinct_ids (sample_world s t)"
  "execEvents (sample_world s t) = []" "er_status (sample_row s) = s" "er_id (sample_row s) = ''e''"
  "nodeExecutions (sample_world s t) = [sample_node t]" "executions (sample_world s t) = [sample_row s]"
  by (simp_all add: row_of_def distinct_ids_def sample_world_def sample_row_def)

definition any_texts :: texts where
  "any_texts = \<lparr>resumeErrorMessage = (\<lambda>_. []), stalledMessage = [], stalledNodeMessage = []\<rparr>"

theorem finished_rows_final_witness:
  "status_of (fold (perform any_texts)
     [Stop (Some (sample_row Running)) True ''e'' 9, Complete 0 9 None (sample_row Running)]
     (sample_world Completed NodeCompleted)) ''e'' = Some Completed"
  by (subst finished_rows_final[where re = False and r = "sample_row Completed"]) simp_all

lemma stop_rows:
  assumes "er_status e \<in> {Running, Pending}" and "row_of w k = Some r"
  shows "row_of (snd (stopInternal (Some e) q k now w)) k =
    Some (if er_status r \<in> {Running, Pending}
      then r\<lparr>er_status := Cancelled, er_finishedAt := Some now,
             er_durationMs := Some (case resolveTerminalDurationMs None (Some (er_startedAt e)) (Some now) of
               Some d \<Rightarrow> d | None \<Rightarrow> 0)\<rparr>
      else r)"
proof -
  let ?p = "\<lambda>r. er_id r = k \<and> er_status r \<in> {Running, Pending}"
  let ?f = "\<lambda>r. r\<lparr>er_status := Cancelled, er_finishedAt := Some now,
      er_durationMs := Some (case resolveTerminalDurationMs None (Some (er_startedAt e)) (Some now) of
        Some d \<Rightarrow> d | None \<Rightarrow> 0)\<rparr>"
  have "snd (stopInternal (Some e) q k now w) = snd (update_executions ?p ?f w)"
    using assms(1) by (auto simp: stopInternal_def Let_def split: prod.split)
  moreover have "row_of (snd (update_executions ?p ?f w)) k = map_option (\<lambda>r. if ?p r then ?f r else r) (row_of w k)"
    by (rule row_of_update) simp
  ultimately show ?thesis
    using assms(2) row_of_id[OF assms(2)] by simp
qed

text \<open>C2. A Stop that took effect is never lost: whatever the writers do afterwards, retried turns
  included, the execution stays cancelled, with the time of the Stop.\<close>

theorem stop_is_final:
  assumes "distinct_ids w" and "row_of w k = Some r"
    and "er_status e \<in> {Running, Pending}" and "er_status r \<in> {Running, Pending}"
  shows "map_option (\<lambda>r. (er_status r, er_finishedAt r))
     (row_of (fold (perform tx) ops (snd (stopInternal (Some e) q k now w))) k) = Some (Cancelled, Some now)"
proof -
  let ?w = "snd (stopInternal (Some e) q k now w)"
  have "distinct_ids ?w"
    using step_ok_stop[of True w "Some e" q k now] assms(1) by (simp add: step_ok_def)
  moreover have "list_all (\<lambda>op. reenters op \<longrightarrow> True) ops"
    by (simp add: list_all_iff)
  ultimately obtain r' where "row_of (fold (perform tx) ops ?w) k = Some r'"
    and "evolves True (the (row_of ?w k)) r'"
    using run_row[of True ops ?w k _ tx] stop_rows[OF assms(3,2), of q now] by (metis option.sel)
  then show ?thesis
    using stop_rows[OF assms(3,2), of q now] assms(4) by (simp add: evolves_def nonTerminal_cases)
qed

theorem stop_is_final_witness:
  "map_option (\<lambda>r. (er_status r, er_finishedAt r))
     (row_of (fold (perform any_texts)
        [Complete 0 10 None (sample_row Running), Transition 0 11 (sample_row Failed) Running None True]
        (snd (stopInternal (Some (sample_row Pending)) True ''e'' 9 (sample_world Running NodeRunning)))) ''e'')
   = Some (Cancelled, Some 9)"
  by (rule stop_is_final[where r = "sample_row Running"]) simp_all

text \<open>C3. The wire tells the truth: starting without events, an event that announces the completion or the
  cancellation of an execution agrees with its row at any later time, and an event that announces its failure
  as long as no retried turn re-enters a failed execution.\<close>

theorem events_agree_with_rows:
  assumes "list_all (\<lambda>op. reenters op \<longrightarrow> re) ops" and "distinct_ids w" and "execEvents w = []"
    and "ev \<in> set (execEvents (fold (perform tx) ops w))" and "announces ev = Some (k, s)"
    and "s \<notin> set (nonTerminalStatuses re)"
  shows "status_of (fold (perform tx) ops w) k = Some s"
proof -
  have "wire_agrees re w"
    using assms(3) by (simp add: wire_agrees_def)
  then have "wire_agrees re (fold (perform tx) ops w)"
    using wire.run_inv[OF assms(1)] assms(2) by blast
  then show ?thesis
    using assms(4-6) unfolding wire_agrees_def by blast
qed

theorem events_agree_with_rows_witness:
  "status_of (fold (perform any_texts) [CancelParked 0 ''e'' 9] (sample_world WaitingForInput NodeWaiting)) ''e''
   = Some Cancelled"
proof (rule events_agree_with_rows[where re = False and ev = "ExecCancelled ''e'' (Some 4) ''user'' None"])
  show "ExecCancelled ''e'' (Some 4) ''user'' None
      \<in> set (execEvents (fold (perform any_texts) [CancelParked 0 ''e'' 9] (sample_world WaitingForInput NodeWaiting)))"
    by (simp add: cancelParkedExecution_def update_executions_def returned_duration_def terminal_row_def
        terminal_duration_ms_sql_def PG_INT4_MAX_def sample_row_def)
qed simp_all

lemma update_none: "(\<And>r. r \<in> set (executions w) \<Longrightarrow> \<not> p r) \<Longrightarrow> update_executions p f w = ([], w)"
  by (simp add: update_executions_def filter_empty_conv map_idI)

lemma other_rows: "distinct_ids w \<Longrightarrow> row_of w k = Some r \<Longrightarrow> x \<in> set (executions w) \<Longrightarrow> er_id x = k \<Longrightarrow> x = r"
  using row_of_distinct[of w x] by simp

text \<open>C35. Stop is decided on the status it read first. If the execution parks between that reading and the
  update, or is resumed before the queued message is handled, the caller gets the row as for a
  success and nothing is cancelled.\<close>

theorem stop_lost_in_race:
  assumes "distinct_ids w" and "row_of w k = Some r"
  shows "(er_status e \<in> {Running, Pending} \<and> er_status r = WaitingForInput \<longrightarrow>
      stopInternal (Some e) q k now w = (Inr r, w))
    \<and> (er_status e = WaitingForInput \<and> er_status r = Running \<longrightarrow>
      stopInternal (Some e) True k now w = (Inr r, w) \<and> cancelParkedExecution p k now w = w)"
proof (intro conjI impI)
  note only = other_rows[OF assms]
  have none: "update_executions (\<lambda>r. er_id r = k \<and> er_status r \<in> S) f w = ([], w)" if "er_status r \<notin> S" for S f
    by (rule update_none) (use that only in force)
  show "stopInternal (Some e) q k now w = (Inr r, w)"
    if "er_status e \<in> {Running, Pending} \<and> er_status r = WaitingForInput"
    using that assms(2) none[of "{Running, Pending}"] by (auto simp: stopInternal_def Let_def)
  assume *: "er_status e = WaitingForInput \<and> er_status r = Running"
  then show "stopInternal (Some e) True k now w = (Inr r, w)"
    using assms(2) by (simp add: stopInternal_def)
  show "cancelParkedExecution p k now w = w"
    using * none[of "{WaitingForInput}"] by (simp add: cancelParkedExecution_def Let_def)
qed

theorem stop_lost_in_race_witness:
  "stopInternal (Some (sample_row Running)) True ''e'' 9 (sample_world WaitingForInput NodeWaiting)
   = (Inr (sample_row WaitingForInput), sample_world WaitingForInput NodeWaiting)"
  using stop_lost_in_race[of "sample_world WaitingForInput NodeWaiting" "''e''" "sample_row WaitingForInput"
      "sample_row Running" True 9] by simp

lemma refused_transition:
  assumes "distinct_ids w" and "row_of w (er_id e) = Some r" and "er_status r \<in> set TERMINAL_STATUSES"
    and "canTransition (status_string (er_status e)) (status_string s) False"
  obtains e' w' where "updateExecutionStatus p now e s None False w = (Inr False, e', w')"
    and "executions w' = executions w" and "execEvents w' = execEvents w"
proof -
  obtain e1 w1 where seg: "close_segment p now e s w = (e1, w1)"
    by (cases "close_segment p now e s w")
  have e1: "er_id e1 = er_id e" and w1: "executions w1 = executions w" "execEvents w1 = execEvents w"
    using close_segment_simps[of p now e s w] seg by simp_all
  have none: "update_executions (\<lambda>x. er_id x = er_id e \<and> er_status x \<in> {Pending, Running, WaitingForInput}) f w1 = ([], w1)" for f
    by (rule update_none) (use w1 other_rows[OF assms(1,2)] assms(3) in \<open>force simp: TERMINAL_STATUSES_def\<close>)
  have "updateExecutionStatus p now e s None False w
      = (Inr False, e1\<lparr>er_status := s\<rparr>, finishStatusTransition p now (e1\<lparr>er_status := s\<rparr>) s (s = Running \<and> er_status e \<noteq> s) False w1)"
    using assms(4) by (simp add: updateExecutionStatus_def assertTransition_def seg e1 none[simplified] Let_def)
  then show thesis
    using that w1 by simp
qed

text \<open>A Stop of a running execution is announced only by the engine, when it meets the cancellation
  between two nodes. If the walk ends first, by itself or with a failure, the row stays cancelled and no
  event is ever emitted for it.\<close>

theorem stop_unannounced:
  assumes "distinct_ids w" and "row_of w (er_id e) = Some r" and "er_status r = Running" and "er_status e = Running"
  shows "let w' = snd (stopInternal (Some r) q (er_id e) t w) in
     status_of w' (er_id e) = Some Cancelled
     \<and> execEvents (snd (snd (completeExecution p now v e w'))) = execEvents w
     \<and> execEvents (snd (snd (finalizeFailedExecution p now err e w'))) = execEvents w"
proof -
  let ?w = "snd (stopInternal (Some r) q (er_id e) t w)"
  have distinct: "distinct_ids ?w"
    using step_ok_stop[of True w "Some r" q "er_id e" t] assms(1) by (simp add: step_ok_def)
  obtain r' where r': "row_of ?w (er_id e) = Some r'" "er_status r' = Cancelled"
    using stop_rows[of r w "er_id e" r q t] assms(2,3) by simp
  have events: "execEvents ?w = execEvents w"
    using assms(3) by (simp add: stopInternal_def Let_def update_executions_def)
  have refused: "\<exists>e' w'. updateExecutionStatus p now x s None False ?w = (Inr False, e', w') \<and> execEvents w' = execEvents w"
    if x: "er_id x = er_id e" "er_status x = Running" "s \<in> {Completed, Failed}" for x s
  proof -
    have "canTransition (status_string (er_status x)) (status_string s) False"
      unfolding canTransition_cases using x by auto
    moreover have "row_of ?w (er_id x) = Some r'" "er_status r' \<in> set TERMINAL_STATUSES"
      using r' x(1) by (simp_all add: TERMINAL_STATUSES_def)
    ultimately obtain e' w' where "updateExecutionStatus p now x s None False ?w = (Inr False, e', w')"
        "execEvents w' = execEvents ?w"
      using refused_transition[OF distinct] by blast
    then show ?thesis
      using events by simp
  qed
  let ?c = "with_duration ((case v of Some v \<Rightarrow> e\<lparr>er_outputData := Some v\<rparr> | None \<Rightarrow> e)\<lparr>er_finishedAt := Some now\<rparr>)"
  let ?f = "with_duration (e\<lparr>er_error := Some err, er_finishedAt := Some now\<rparr>)"
  have "er_id ?c = er_id e" "er_status ?c = Running"
    using assms(4) by (simp_all split: option.split)
  then obtain e1 w1 where "updateExecutionStatus p now ?c Completed None False ?w = (Inr False, e1, w1)"
      "execEvents w1 = execEvents w"
    using refused[of ?c Completed] by blast
  moreover obtain e2 w2 where "updateExecutionStatus p now ?f Failed None False ?w = (Inr False, e2, w2)"
      "execEvents w2 = execEvents w"
    using refused[of ?f Failed] assms(4) by auto
  ultimately show ?thesis
    using r' by (simp add: Let_def completeExecution_def finalizeFailedExecution_def status_of_def)
qed

theorem stop_unannounced_witness:
  "execEvents (snd (snd (completeExecution 0 12 None (sample_row Running)
     (snd (stopInternal (Some (sample_row Running)) True ''e'' 9 (sample_world Running NodeRunning)))))) = []"
  using stop_unannounced[of "sample_world Running NodeRunning" "sample_row Running" "sample_row Running" True 9 0 12 None]
  by (simp add: Let_def)

lemma filter_updated: "(\<And>m. q m \<Longrightarrow> \<not> q (g m)) \<Longrightarrow> filter q (map (\<lambda>m. if q m then g m else m) xs) = []"
  by (induction xs) auto

text \<open>C10. The claim of a parked execution is exclusive and takes both rows or none: a second claim of the
  same node execution fails, a successful claim leaves the execution running, and a refused one
  changes no row.\<close>

theorem resume_claimed_once:
  assumes "claimResumeEntry p now k n w = (claimed, w')" and "n \<noteq> []" and "n \<noteq> ''__no_node_exec__''"
  shows "if claimed
    then \<not> fst (claimResumeEntry p' now' k' n w') \<and> (distinct_ids w \<longrightarrow> status_of w' k = Some Running)
    else executions w' = executions w \<and> nodeExecutions w' = nodeExecutions w"
proof -
  let ?q = "\<lambda>m. ne_id m = n \<and> ne_status m = NodeWaiting"
  let ?g = "\<lambda>m. m\<lparr>ne_status := NodeRunning\<rparr>"
  let ?p = "\<lambda>r. er_id r = k \<and> er_status r \<in> {WaitingForInput, Running}"
  let ?f = "\<lambda>r. r\<lparr>er_status := Running\<rparr>"
  obtain ns w1 where nodes: "update_node_executions ?q ?g w = (ns, w1)"
    by (cases "update_node_executions ?q ?g w")
  obtain rs w2 where rows: "update_executions ?p ?f w1 = (rs, w2)"
    by (cases "update_executions ?p ?f w1")
  have w1: "executions w1 = executions w" "nodeExecutions w1 = map (\<lambda>m. if ?q m then ?g m else m) (nodeExecutions w)"
      "ns = map ?g (filter ?q (nodeExecutions w))"
    using nodes by (auto simp: update_node_executions_def)
  have w2: "nodeExecutions w2 = nodeExecutions w1" "w2 = snd (update_executions ?p ?f w1)" "rs = fst (update_executions ?p ?f w1)"
    using rows by (auto simp: update_executions_def)
  have "claimResumeEntry p now k n w = (if ns = [] then (False, w1) else if rs = [] then (False, w)
      else (True, recordRunningSegmentStart p now k w2))"
    by (simp add: claimResumeEntry_def Let_def assms(2,3) nodes rows[simplified])
  then have res: "(claimed, w') = (if ns = [] then (False, w1) else if rs = [] then (False, w)
      else (True, recordRunningSegmentStart p now k w2))"
    using assms(1) by simp
  show ?thesis
  proof (cases claimed)
    case True
    then have w': "w' = recordRunningSegmentStart p now k w2" and "rs \<noteq> []"
      using res by (auto split: if_splits)
    have "nodeExecutions w' = map (\<lambda>m. if ?q m then ?g m else m) (nodeExecutions w)"
      by (simp add: w' recordRunningSegmentStart_def w2(1) w1(2))
    then have "filter ?q (nodeExecutions w') = []"
      using filter_updated[of ?q ?g "nodeExecutions w"] by simp
    then have "\<not> fst (claimResumeEntry p' now' k' n w')"
      using assms(2,3) by (simp add: claimResumeEntry_def update_node_executions_def Let_def)
    moreover have "status_of w' k = Some Running" if "distinct_ids w"
    proof -
      have "status_of w2 k = Some Running"
        unfolding w2(2) using \<open>rs \<noteq> []\<close> that w2(3) distinct_ids_cong[OF w1(1)] by (intro update_status) auto
      then show ?thesis
        by (simp add: w' status_of_def row_of_def)
    qed
    ultimately show ?thesis
      using True by simp
  next
    case False
    then have "w' = w \<or> w' = w1 \<and> ns = []"
      using res by (auto split: if_splits)
    moreover have "nodeExecutions w1 = nodeExecutions w" if "ns = []"
      using that w1(2,3) by (auto simp: filter_empty_conv intro!: map_idI)
    ultimately show ?thesis
      using False w1(1) by auto
  qed
qed

theorem resume_claimed_once_witness:
  "\<not> fst (claimResumeEntry 1 6 ''e'' ''n'' (snd (claimResumeEntry 0 5 ''e'' ''n'' (sample_world WaitingForInput NodeWaiting))))"
proof -
  let ?w = "sample_world WaitingForInput NodeWaiting"
  have "fst (claimResumeEntry 0 5 ''e'' ''n'' ?w)"
    by (simp add: claimResumeEntry_def update_node_executions_def update_executions_def sample_node_def Let_def)
  then show ?thesis
    using resume_claimed_once[of 0 5 "''e''" "''n''" ?w True "snd (claimResumeEntry 0 5 ''e'' ''n'' ?w)" 1 6 "''e''"]
    by (cases "claimResumeEntry 0 5 ''e'' ''n'' ?w") simp
qed

lemma filter_key: "distinct (map f xs) \<Longrightarrow> length (filter (\<lambda>x. f x = k \<and> P x) xs) \<le> 1"
proof (induction xs)
  case (Cons x xs)
  moreover have "filter (\<lambda>y. f y = f x \<and> P y) xs = []" if "f x \<notin> f ` set xs"
    using that by (induction xs) auto
  ultimately show ?case by auto
qed simp

text \<open>C12. Admission keeps the concurrency caps: an execution is admitted only from \<open>pending\<close> and only
  while fewer executions than the cap run in its workflow and in its workspace; a deferred one changes no
  row; and one that waited too long is no longer pending.\<close>

theorem admission_guarded:
  assumes "distinct_ids w" and "admitExecutionOrDefer env p now e w = (verdict, e', w')"
  shows "case verdict of
      Admitted \<Rightarrow> status_of w (er_id e) = Some Pending \<and> status_of w' (er_id e) = Some Running
        \<and> num_less (num_of_nat (running_in_workflow (er_workflowId e) w))
            (resolveConcurrencyCap (Option.bind (map_of (workflows w) (er_workflowId e)) wf_settings)
               DEFAULT_WORKFLOW_MAX_CONCURRENT_EXECUTIONS)
        \<and> (\<forall>wrow. map_of (workflows w) (er_workflowId e) = Some wrow \<longrightarrow>
             num_less (num_of_nat (running_in_workspace (wf_workspaceId wrow) w))
               (resolveConcurrencyCap (wf_workspaceSettings wrow) DEFAULT_WORKSPACE_MAX_CONCURRENT_EXECUTIONS))
    | Deferred \<Rightarrow> executions w' = executions w
    | WaitCancelled \<Rightarrow> status_of w' (er_id e) \<noteq> Some Pending"
proof (cases "case er_queuedAt e of None \<Rightarrow> False
    | Some q \<Rightarrow> num_less (resolveQueueWaitTimeoutMs env) (num_of_int (now - q))")
  case True
  define g where "g = (\<lambda>r. terminal_row Cancelled now r\<lparr>er_error := Some (''Execution cancelled: queue wait time exceeded'',
    Some ''EXECUTION_QUEUE_WAIT_TIMEOUT'')\<rparr>)"
  let ?p = "\<lambda>r. er_id r = er_id e \<and> er_status r = Pending"
  have row_of: "row_of (snd (update_executions ?p g w)) (er_id e)
      = map_option (\<lambda>r. if ?p r then g r else r) (row_of w (er_id e))"
    by (rule row_of_update) (simp add: g_def)
  then have "status_of (snd (update_executions ?p g w)) (er_id e) \<noteq> Some Pending"
  proof (cases "row_of w (er_id e)")
    case (Some r)
    then show ?thesis
      using row_of row_of_id[OF Some] by (simp add: status_of_def g_def)
  qed (simp add: status_of_def)
  moreover have "executions (markQueueWaitTimeout (er_id e) now w) = executions (snd (update_executions ?p g w))"
    by (simp add: markQueueWaitTimeout_def Let_def g_def split: prod.split)
  ultimately have "status_of (markQueueWaitTimeout (er_id e) now w) (er_id e) \<noteq> Some Pending"
    by (simp add: status_of_def row_of_def)
  then show ?thesis
    using True assms(2) by (auto simp: admitExecutionOrDefer_def)
next
  case False
  let ?caps = "num_less (num_of_nat (case map_of (workflows w) (er_workflowId e) of None \<Rightarrow> 0
        | Some wrow \<Rightarrow> running_in_workspace (wf_workspaceId wrow) w))
      (resolveConcurrencyCap (Option.bind (map_of (workflows w) (er_workflowId e)) wf_workspaceSettings)
         DEFAULT_WORKSPACE_MAX_CONCURRENT_EXECUTIONS)
    \<and> num_less (num_of_nat (running_in_workflow (er_workflowId e) w))
      (resolveConcurrencyCap (Option.bind (map_of (workflows w) (er_workflowId e)) wf_settings)
         DEFAULT_WORKFLOW_MAX_CONCURRENT_EXECUTIONS)"
  let ?p = "\<lambda>r. er_id r = er_id e \<and> er_status r = Pending \<and> ?caps"
  let ?f = "\<lambda>r. r\<lparr>er_status := Running, er_startedAt := now\<rparr>"
  obtain rows w1 where u: "update_executions ?p ?f w = (rows, w1)"
    by (cases "update_executions ?p ?f w")
  have w1: "rows = fst (update_executions ?p ?f w)" "w1 = snd (update_executions ?p ?f w)"
    by (simp_all add: u)
  have "length rows \<le> 1"
    using filter_key[of er_id "executions w" "er_id e" "\<lambda>r. er_status r = Pending \<and> ?caps"] assms(1)
    by (simp add: w1 update_executions_def distinct_ids_def)
  have result: "(verdict, e', w') = (if length rows = 1
      then (Admitted, e\<lparr>er_status := Running\<rparr>,
        emit_exec (ExecStarted (er_id e)) (recordRunningSegmentStart p now (er_id e) w1))
      else (Deferred, e, w1\<lparr>runQueue := runQueue w1 @ [er_id e]\<rparr>))"
    using assms(2) False u by (simp add: admitExecutionOrDefer_def Let_def)
  show ?thesis
  proof (cases "length rows = 1")
    case True
    then have some: "fst (update_executions ?p ?f w) \<noteq> []"
      by (auto simp: w1)
    obtain r where "er_id r = er_id e" "er_status r = Pending" "?caps" "row_of w (er_id r) = Some r"
      using update_returned[OF some assms(1)] by blast
    moreover have "status_of w1 (er_id e) = Some Running"
      unfolding w1(2) using some assms(1) by (intro update_status) simp_all
    ultimately show ?thesis
      using result True by (auto simp: status_of_def row_of_def)
  next
    case none: False
    then have "filter ?p (executions w) = []"
      using \<open>length rows \<le> 1\<close> by (cases rows) (auto simp: w1 update_executions_def)
    then have no_row: "\<not> ?p r" if "r \<in> set (executions w)" for r
      using that unfolding filter_empty_conv by blast
    have "update_executions ?p ?f w = ([], w)"
      by (rule update_none, rule no_row)
    then have "w1 = w"
      using u by (metis prod.inject)
    then show ?thesis
      using result none by simp
  qed
qed

theorem admission_guarded_witness:
  "status_of (snd (snd (admitExecutionOrDefer None 0 5 (sample_row Pending) (sample_world Pending NodePending)))) ''e''
   = Some Running"
proof -
  let ?r = "admitExecutionOrDefer None 0 5 (sample_row Pending) (sample_world Pending NodePending)"
  have "fst ?r = Admitted"
    by code_simp
  then show ?thesis
    using admission_guarded[of "sample_world Pending NodePending" None 0 5 "sample_row Pending" Admitted "fst (snd ?r)" "snd (snd ?r)"]
    by (cases ?r) simp
qed

section \<open>Active time\<close>

text \<open>One segment of a parked execution: it is claimed at \<open>t\<close>, its row is loaded, and it parks again
  at \<open>u\<close> with the node execution \<open>n\<close>.\<close>

definition run_segment :: "nat \<Rightarrow> string \<Rightarrow> ne_row \<Rightarrow> int \<times> int \<Rightarrow> world \<Rightarrow> world" where
  "run_segment p k n seg w = (case seg of (t, u) \<Rightarrow>
     let w1 = snd (claimResumeEntry p t k (ne_id n) w) in
     case row_of w1 k of
       None \<Rightarrow> w1
     | Some e \<Rightarrow> snd (snd (updateExecutionStatus p u e WaitingForInput (Some n) False w1)))"

definition parked :: "string \<Rightarrow> ne_row \<Rightarrow> int \<Rightarrow> world \<Rightarrow> bool" where
  "parked k n a w \<longleftrightarrow> distinct_ids w
     \<and> map_option (\<lambda>r. (er_status r, er_activeRunningMs r)) (row_of w k) = Some (WaitingForInput, a)
     \<and> filter (\<lambda>m. ne_id m = ne_id n \<and> ne_status m = NodeWaiting) (nodeExecutions w) \<noteq> []"

lemma claim_parked:
  assumes "parked k n a w" and "ne_id n \<noteq> []" and "ne_id n \<noteq> ''__no_node_exec__''"
  obtains w1 r where "snd (claimResumeEntry p t k (ne_id n) w) = w1" and "distinct_ids w1" and "row_of w1 k = Some r"
    and "er_id r = k" and "er_status r = Running" and "er_activeRunningMs r = a"
    and "map_of (segmentStartMs w1) (p, k) = Some t"
proof -
  let ?q = "\<lambda>m. ne_id m = ne_id n \<and> ne_status m = NodeWaiting"
  let ?g = "\<lambda>m. m\<lparr>ne_status := NodeRunning\<rparr>"
  let ?p = "\<lambda>r. er_id r = k \<and> er_status r \<in> {WaitingForInput, Running}"
  let ?f = "\<lambda>r. r\<lparr>er_status := Running\<rparr>"
  obtain ns v where nodes: "update_node_executions ?q ?g w = (ns, v)"
    by (cases "update_node_executions ?q ?g w")
  obtain rs u where rows: "update_executions ?p ?f v = (rs, u)"
    by (cases "update_executions ?p ?f v")
  have v: "executions v = executions w" and "ns \<noteq> []"
    using nodes assms(1) by (auto simp: update_node_executions_def parked_def)
  have u: "u = snd (update_executions ?p ?f v)" "rs = fst (update_executions ?p ?f v)"
    using rows by (simp_all only: fst_conv snd_conv)
  obtain r0 where r0: "row_of w k = Some r0" "er_status r0 = WaitingForInput" "er_activeRunningMs r0 = a"
    using assms(1) by (auto simp: parked_def)
  have r0v: "row_of v k = Some r0"
    using r0(1) v by (simp add: row_of_def)
  have "filter ?p (executions v) \<noteq> []"
    using row_of_id[OF r0v] r0(2) by (auto simp: filter_empty_conv)
  then have "rs \<noteq> []"
    by (simp add: u update_executions_def)
  have "row_of u k = map_option (\<lambda>r. if ?p r then ?f r else r) (row_of v k)"
    unfolding u(1) by (rule row_of_update) simp
  then have row: "row_of u k = Some (?f r0)"
    using r0v row_of_id[OF r0v] r0(2) by simp
  have distinct: "distinct_ids u"
    unfolding u(1) using assms(1) v by (subst distinct_ids_update) (simp_all add: parked_def distinct_ids_def)
  show thesis
  proof (rule that[of "recordRunningSegmentStart p t k u" "?f r0"])
    show "snd (claimResumeEntry p t k (ne_id n) w) = recordRunningSegmentStart p t k u"
      using assms(2,3) nodes rows[simplified] \<open>ns \<noteq> []\<close> \<open>rs \<noteq> []\<close> by (simp add: claimResumeEntry_def Let_def)
    show "distinct_ids (recordRunningSegmentStart p t k u)"
      using distinct by (simp add: distinct_ids_def)
    show "row_of (recordRunningSegmentStart p t k u) k = Some (?f r0)"
      using row by (simp add: row_of_def)
  qed (use r0 row_of_id[OF r0(1)] in \<open>simp_all add: recordRunningSegmentStart_def\<close>)
qed

lemma run_segment_parked:
  assumes "parked k n a w" and "ne_id n \<noteq> []" and "ne_id n \<noteq> ''__no_node_exec__''" and "ne_status n = NodeWaiting"
  shows "parked k n (a + (u - t)) (run_segment p k n (t, u) w)"
proof -
  obtain w1 r where w1: "snd (claimResumeEntry p t k (ne_id n) w) = w1" "distinct_ids w1" "row_of w1 k = Some r"
      "er_id r = k" "er_status r = Running" "er_activeRunningMs r = a" "map_of (segmentStartMs w1) (p, k) = Some t"
    using claim_parked[OF assms(1-3)] by blast
  let ?w = "forget_segment p k w1"
  let ?e = "r\<lparr>er_activeRunningMs := a + (u - t), er_status := WaitingForInput\<rparr>"
  have exists: "\<exists>x \<in> set (executions ?w). er_id x = er_id ?e"
    using row_of_id[OF w1(3)] by auto
  have lock: "lockNonTerminalExecutionRow k False ?w"
    using row_of_id[OF w1(3)] w1(5) by (auto simp: lockNonTerminalExecutionRow_def filter_empty_conv)
  have "canTransition (status_string (er_status r)) (status_string WaitingForInput) False"
    unfolding canTransition_cases using w1(5) by simp
  then have result: "run_segment p k n (t, u) w
      = finishStatusTransition p u ?e WaitingForInput False True (save_node_execution n (save_execution ?e ?w))"
    using w1 lock by (simp add: run_segment_def updateExecutionStatus_def assertTransition_def close_segment_def Let_def)
  have "distinct_ids (save_execution ?e ?w)"
    using distinct_ids_save[OF exists] w1(2) by (simp add: distinct_ids_def)
  moreover have "row_of (save_execution ?e ?w) k = Some ?e"
    using row_of_save[OF exists, of k] w1(4) by simp
  moreover have "filter (\<lambda>m. ne_id m = ne_id n \<and> ne_status m = NodeWaiting) (nodeExecutions (save_node_execution n v)) \<noteq> []" for v
    using assms(4) by (auto simp: save_node_execution_def filter_empty_conv)
  ultimately show ?thesis
    unfolding parked_def result
    by (simp add: distinct_ids_def row_of_def finishStatusTransition_def emitTerminalExecutionMetrics_def TERMINAL_STATUSES_def)
qed

text \<open>C11. The time an execution is parked does not count: however often it is claimed and parks again at the same
  node, in the same process and without another writer in between, its active time grows by exactly the
  lengths of the segments from each claim to the next park. A segment that a Stop, a stall, a cancellation or
  a second claim ends is not covered: these add nothing or restart the segment.\<close>

theorem active_time_counts_segments:
  assumes "parked k n a w" and "ne_id n \<noteq> []" and "ne_id n \<noteq> ''__no_node_exec__''" and "ne_status n = NodeWaiting"
  shows "parked k n (a + (\<Sum>(t, u) \<leftarrow> segs. u - t)) (fold (run_segment p k n) segs w)"
  using assms(1)
proof (induction segs arbitrary: a w)
  case (Cons seg segs)
  obtain t u where "seg = (t, u)"
    by (cases seg)
  then show ?case
    using Cons.IH[OF run_segment_parked[OF Cons.prems assms(2-4), of u t p]] by (simp add: add.assoc)
qed simp

theorem active_time_counts_segments_witness:
  "parked ''e'' (sample_node NodeWaiting) 15
     (fold (run_segment 0 ''e'' (sample_node NodeWaiting)) [(10, 13), (100, 105)] (sample_world WaitingForInput NodeWaiting))"
  using active_time_counts_segments[of "''e''" "sample_node NodeWaiting" 7 "sample_world WaitingForInput NodeWaiting"
      "[(10, 13), (100, 105)]" 0]
  by (simp add: parked_def sample_node_def) (simp add: sample_row_def)

end
