(* ===== verification/ContainerPlan.thy ===== *)
theory ContainerPlan
  imports Dispatch
begin

text \<open>
  The body of a container node (ForEach, Map, Loop): \<open>planContainerBody\<close> and what it calls in
  \<open>execution-engine.service.ts\<close>. A plan is made once per run of the container and shared by its
  iterations; everything that is wrong with the wiring is reported here.
\<close>

section \<open>The plan\<close>

record body_plan =
  bp_childIds :: "string list"
  bp_bodyEntryNodeIds :: "string list"
  bp_emitSourceNodeId :: string
  bp_internalEdges :: "graph_edge list"
  bp_sortedNodeIds :: "string list"
  bp_outgoingEdgeMap :: "(string, graph_edge list) jmap"
  bp_nodeMap :: "(string, node) jmap"
  bp_allNodes :: "node list"
  bp_allEdges :: "graph_edge list"

definition pickContainerInternalEdges :: "string list \<Rightarrow> graph_edge list \<Rightarrow> graph_edge list" where
  "pickContainerInternalEdges childIds allEdges =
     filter (\<lambda>e. sourceNodeId e \<in> set childIds \<and> targetNodeId e \<in> set childIds) allEdges"

text \<open>The walk from a child up through its containers. An empty \<open>containerId\<close> ends it, as a missing one does.\<close>

definition container_cycle_error :: "node \<Rightarrow> node \<Rightarrow> string" where
  "container_cycle_error containerNode cursor =
     ''CONTAINER_CYCLE: Container '' @ dquoted (node_label containerNode)
     @ '' is part of a containerId cycle involving node '' @ dquoted (node_label cursor) @ ''.''"

function climb_containers :: "node \<Rightarrow> (string, node) jmap \<Rightarrow> string list \<Rightarrow> node \<Rightarrow> string + unit" where
  "climb_containers containerNode byId visited cursor =
     (case node_containerId cursor of
        None \<Rightarrow> Inr ()
      | Some parent \<Rightarrow>
          if parent = [] then Inr ()
          else if node_id cursor \<in> set visited then Inl (container_cycle_error containerNode cursor)
          else case map_of byId parent of
            None \<Rightarrow> Inr ()
          | Some next_node \<Rightarrow> climb_containers containerNode byId (jadd (node_id cursor) visited) next_node)"
  by pat_completeness auto

termination
proof (relation "measure (\<lambda>(_, byId, visited, cursor).
    card (insert (node_id cursor) (node_id ` snd ` set byId) - set visited))")
  show "((containerNode, byId, jadd (node_id cursor) visited, next_node), containerNode, byId, visited, cursor)
      \<in> measure (\<lambda>(_, byId, visited, cursor). card (insert (node_id cursor) (node_id ` snd ` set byId) - set visited))"
    if "node_id cursor \<notin> set visited" "map_of byId parent = Some next_node"
    for containerNode cursor next_node :: node and byId :: "(string, node) jmap" and visited :: "string list" and parent
  proof -
    have "node_id next_node \<in> node_id ` snd ` set byId"
      using that(2) by (force dest: map_of_SomeD)
    then have "insert (node_id next_node) (node_id ` snd ` set byId) - set (jadd (node_id cursor) visited)
        \<subset> insert (node_id cursor) (node_id ` snd ` set byId) - set visited"
      using that(1) by auto
    then show ?thesis
      by (auto intro: psubset_card_mono)
  qed
qed simp

fun first_error :: "('a \<Rightarrow> 'e + unit) \<Rightarrow> 'a list \<Rightarrow> 'e + unit" where
  "first_error f [] = Inr ()"
| "first_error f (x # xs) = bindE (f x) (\<lambda>_. first_error f xs)"

definition assertNoContainerCycle :: "node \<Rightarrow> node list \<Rightarrow> (string, node) jmap \<Rightarrow> string + unit" where
  "assertNoContainerCycle containerNode children byId = first_error (climb_containers containerNode byId []) children"

definition orphan_emit_error :: "node \<Rightarrow> string list \<Rightarrow> string" where
  "orphan_emit_error containerNode labels =
     ''CONTAINER_MISSING_EMIT: Container '' @ dquoted (node_label containerNode) @ '' has an '' @ dquoted ''emit''
     @ '' wire from '' @ dquoted (js_join '', '' labels)
     @ '' but that node isn't a body child of this container. Open its settings panel and set its ''
     @ dquoted ''Container'' @ '' to '' @ dquoted (node_label containerNode) @ ''.''"

definition no_emit_error :: "node \<Rightarrow> string" where
  "no_emit_error containerNode =
     ''CONTAINER_MISSING_EMIT: Container '' @ dquoted (node_label containerNode)
     @ '' has no body node wired to its '' @ dquoted ''emit''
     @ '' port. Connect the node whose output should be collected.''"

definition multiple_emit_error :: "node \<Rightarrow> nat \<Rightarrow> string" where
  "multiple_emit_error containerNode n =
     ''CONTAINER_MULTIPLE_EMIT: Container '' @ dquoted (node_label containerNode) @ '' has '' @ show_nat n
     @ '' nodes wired to its '' @ dquoted ''emit'' @ '' port. Only one emit source is allowed.''"

definition trigger_child_error :: "node \<Rightarrow> node \<Rightarrow> string" where
  "trigger_child_error containerNode child =
     ''CONTAINER_INVALID_CHILD: Trigger node '' @ dquoted (node_label child)
     @ '' cannot be placed inside container '' @ dquoted (node_label containerNode) @ ''.''"

definition body_back_edge_error :: "node \<Rightarrow> string" where
  "body_back_edge_error containerNode =
     ''Container '' @ dquoted (node_label containerNode)
     @ '' body contains back-edges, which are not yet supported inside containers.''"

text \<open>The edges into the emit port: from children, and from any node.\<close>

definition emit_wires :: "node \<Rightarrow> graph_edge list \<Rightarrow> graph_edge list" where
  "emit_wires containerNode allEdges =
     filter (\<lambda>e. targetNodeId e = node_id containerNode \<and> targetPort e = ''emit'') allEdges"

definition emit_edges :: "node \<Rightarrow> string list \<Rightarrow> graph_edge list \<Rightarrow> graph_edge list" where
  "emit_edges containerNode childIds allEdges =
     filter (\<lambda>e. sourceNodeId e \<in> set childIds) (emit_wires containerNode allEdges)"

definition planContainerBody :: "node \<Rightarrow> node list \<Rightarrow> graph_edge list \<Rightarrow> string + body_plan" where
  "planContainerBody containerNode allNodes allEdges =
     (let nodeMap = node_map allNodes;
          children = filter (\<lambda>n. node_containerId n = Some (node_id containerNode)) allNodes
      in bindE (assertNoContainerCycle containerNode children nodeMap) (\<lambda>_.
         let childIds = jset_of (map node_id children) in
         case find (\<lambda>n. node_category n = TRIGGER) children of
           Some child \<Rightarrow> Inl (trigger_child_error containerNode child)
         | None \<Rightarrow>
             let bodyEntryNodeIds = jset_of (map targetNodeId
                   (filter (\<lambda>e. sourceNodeId e = node_id containerNode \<and> sourcePort e = ''body'') allEdges));
                 emitEdges = emit_edges containerNode childIds allEdges
             in case emitEdges of
               [] \<Rightarrow>
                 (let orphans = emit_wires containerNode allEdges
                  in Inl (if orphans \<noteq> []
                      then orphan_emit_error containerNode (map (\<lambda>e. case map_of nodeMap (sourceNodeId e) of
                             Some n \<Rightarrow> node_label n | None \<Rightarrow> sourceNodeId e) orphans)
                      else no_emit_error containerNode))
             | e # rest \<Rightarrow>
                 if rest \<noteq> [] then Inl (multiple_emit_error containerNode (length emitEdges))
                 else
                   let internalEdges = pickContainerInternalEdges childIds allEdges;
                       graphNodes = map (\<lambda>c. \<lparr>gn_id = node_id c\<rparr>) children;
                       split = identifyBackEdges graphNodes internalEdges
                   in if backEdges split \<noteq> [] then Inl (body_back_edge_error containerNode)
                      else bindE (topologicalSort graphNodes (forwardEdges split)) (\<lambda>sortedNodeIds.
                        Inr \<lparr>bp_childIds = childIds, bp_bodyEntryNodeIds = bodyEntryNodeIds,
                             bp_emitSourceNodeId = sourceNodeId e, bp_internalEdges = internalEdges,
                             bp_sortedNodeIds = sortedNodeIds,
                             bp_outgoingEdgeMap = fold (\<lambda>e. append_to (sourceNodeId e) e) internalEdges [],
                             bp_nodeMap = nodeMap, bp_allNodes = allNodes, bp_allEdges = allEdges\<rparr>)))"

section \<open>Container chains\<close>

text \<open>From a node to the container that it names, when both are known.\<close>

definition up_rel :: "(string, node) jmap \<Rightarrow> (node \<times> node) set" where
  "up_rel byId = {(n, m). \<exists>p. node_containerId n = Some p \<and> p \<noteq> [] \<and> map_of byId p = Some m}"

definition on_cycle :: "(string, node) jmap \<Rightarrow> node \<Rightarrow> bool" where
  "on_cycle byId n = (\<exists>m. (n, m) \<in> (up_rel byId)\<^sup>* \<and> (m, m) \<in> (up_rel byId)\<^sup>+)"

lemma on_cycle_leaves:
  assumes "(m, m) \<in> R\<^sup>+" and "(m, t) \<in> R\<^sup>*" and "single_valued R"
  shows "\<exists>t'. (t, t') \<in> R"
proof -
  have "(t, m) \<in> R\<^sup>*" using assms(2)
  proof (induction rule: rtrancl_induct)
    case (step y z)
    show ?case
    proof (cases "y = m")
      case True
      obtain z' where "(m, z') \<in> R" "(z', m) \<in> R\<^sup>*" using assms(1) tranclD by metis
      then show ?thesis using step.hyps(2) True assms(3) by (metis single_valuedD)
    next
      case False
      then obtain z' where "(y, z') \<in> R" "(z', m) \<in> R\<^sup>*" using step.IH by (metis converse_rtranclE)
      then show ?thesis using step.hyps(2) assms(3) by (metis single_valuedD)
    qed
  qed simp
  then show ?thesis using assms(1) by (metis converse_rtranclE tranclD)
qed

lemma climb_finds_cycle:
  assumes "climb_containers c byId visited cursor = Inl e"
    and "\<And>v. v \<in> set visited \<Longrightarrow> \<exists>n \<in> N. node_id n = v \<and> (n, cursor) \<in> (up_rel byId)\<^sup>+"
    and "cursor \<in> N" and "snd ` set byId \<subseteq> N" and "inj_on node_id N"
  shows "on_cycle byId cursor"
  using assms
proof (induction c byId visited cursor rule: climb_containers.induct)
  case (1 c byId visited cursor)
  from 1(2) obtain p where p: "node_containerId cursor = Some p" "p \<noteq> []"
    by (cases "node_containerId cursor") (auto split: if_splits)
  show ?case
  proof (cases "node_id cursor \<in> set visited")
    case True
    then obtain n where "n \<in> N" "node_id n = node_id cursor" "(n, cursor) \<in> (up_rel byId)\<^sup>+"
      using 1(3) by blast
    then have "(cursor, cursor) \<in> (up_rel byId)\<^sup>+" using 1(4,6) by (metis inj_onD)
    then show ?thesis unfolding on_cycle_def by blast
  next
    case False
    then obtain m where m: "map_of byId p = Some m" and
      e: "climb_containers c byId (jadd (node_id cursor) visited) m = Inl e"
      using 1(2) p by (auto split: option.splits)
    have step: "(cursor, m) \<in> up_rel byId" using p m by (auto simp: up_rel_def)
    have "on_cycle byId m"
    proof (rule 1(1) [OF p(1) p(2) False m e _ _ 1(5,6)])
      show "m \<in> N" using m 1(5) by (force dest: map_of_SomeD)
      fix v assume "v \<in> set (jadd (node_id cursor) visited)"
      then show "\<exists>n \<in> N. node_id n = v \<and> (n, m) \<in> (up_rel byId)\<^sup>+"
        using 1(3) 1(4) step by (metis insert_iff set_jadd trancl.intros)
    qed
    then show ?thesis using step unfolding on_cycle_def by (meson converse_rtrancl_into_rtrancl)
  qed
qed

lemma climb_ends:
  assumes "climb_containers c byId visited cursor = Inr ()"
  shows "\<exists>t. (cursor, t) \<in> (up_rel byId)\<^sup>* \<and> (\<nexists>t'. (t, t') \<in> up_rel byId)"
  using assms
proof (induction c byId visited cursor rule: climb_containers.induct)
  case (1 c byId visited cursor)
  show ?case
  proof (cases "\<exists>m. (cursor, m) \<in> up_rel byId")
    case True
    then obtain p m where p: "node_containerId cursor = Some p" "p \<noteq> []" "map_of byId p = Some m"
      by (auto simp: up_rel_def)
    then have "node_id cursor \<notin> set visited" using 1(2) by (auto split: if_splits)
    then obtain t where "(m, t) \<in> (up_rel byId)\<^sup>*" "\<nexists>t'. (t, t') \<in> up_rel byId"
      using 1(1) [OF p(1,2) _ p(3)] 1(2) p by auto
    then show ?thesis using True p by (auto simp: up_rel_def intro: converse_rtrancl_into_rtrancl)
  qed blast
qed

lemma climb_iff:
  assumes "cursor \<in> N" and "snd ` set byId \<subseteq> N" and "inj_on node_id N"
  shows "climb_containers c byId [] cursor = Inr () \<longleftrightarrow> \<not> on_cycle byId cursor"
proof
  assume "climb_containers c byId [] cursor = Inr ()"
  then obtain t where t: "(cursor, t) \<in> (up_rel byId)\<^sup>*" "\<nexists>t'. (t, t') \<in> up_rel byId"
    using climb_ends by blast
  have sv: "single_valued (up_rel byId)" by (auto simp: single_valued_def up_rel_def)
  show "\<not> on_cycle byId cursor"
  proof
    assume "on_cycle byId cursor"
    then obtain m where m: "(cursor, m) \<in> (up_rel byId)\<^sup>*" "(m, m) \<in> (up_rel byId)\<^sup>+"
      unfolding on_cycle_def by blast
    have "(t, m) \<in> (up_rel byId)\<^sup>* \<or> (m, t) \<in> (up_rel byId)\<^sup>*"
      using single_valued_confluent [OF sv t(1) m(1)] by blast
    moreover have "(t, m) \<in> (up_rel byId)\<^sup>* \<Longrightarrow> t = m" using t(2) by (metis converse_rtranclE)
    ultimately show False using on_cycle_leaves [OF m(2) _ sv] t(2) by blast
  qed
next
  assume "\<not> on_cycle byId cursor"
  then show "climb_containers c byId [] cursor = Inr ()"
    using climb_finds_cycle [of c byId "[]" cursor _ N] assms by (cases "climb_containers c byId [] cursor") auto
qed

lemma first_error_Inr: "first_error f xs = Inr () \<longleftrightarrow> (\<forall>x \<in> set xs. f x = Inr ())"
  by (induction xs) (auto simp: bindE_Inr_iff)

lemma jput_range: "snd ` set (jput k v m) \<subseteq> insert v (snd ` set m)"
  by (induction k v m rule: jput.induct) auto

lemma node_map_range: "snd ` set (node_map nodes) \<subseteq> set nodes"
proof -
  have "snd ` set (fold (\<lambda>n. jput (node_id n) n) ns m) \<subseteq> set ns \<union> snd ` set m" for ns m
  proof (induction ns arbitrary: m)
    case (Cons n ns)
    show ?case using Cons.IH [of "jput (node_id n) n m"] jput_range [of "node_id n" n m] by (simp, blast)
  qed simp
  from this [of nodes "[]"] show ?thesis by (simp add: node_map_def)
qed

section \<open>What is planned\<close>

definition body_children :: "node \<Rightarrow> node list \<Rightarrow> node list" where
  "body_children containerNode allNodes = filter (\<lambda>n. node_containerId n = Some (node_id containerNode)) allNodes"

definition body_ids :: "node \<Rightarrow> node list \<Rightarrow> string list" where
  "body_ids containerNode allNodes = map node_id (body_children containerNode allNodes)"

text \<open>The wiring between the children, as a relation on their ids.\<close>

definition body_rel :: "node \<Rightarrow> node list \<Rightarrow> graph_edge list \<Rightarrow> (string \<times> string) set" where
  "body_rel containerNode allNodes allEdges =
     (let ids = body_ids containerNode allNodes
      in edge_rel ids sourceNodeId targetNodeId (pickContainerInternalEdges ids allEdges))"

lemma no_back_edges_iff:
  "backEdges (identifyBackEdges nodes edges) = [] \<longleftrightarrow> acyclic (graph_rel nodes edges)"
proof
  assume "backEdges (identifyBackEdges nodes edges) = []"
  then have "mset (forwardEdges (identifyBackEdges nodes edges)) = mset edges"
    using back_edge_partition [of nodes edges] by simp
  then have "set edges \<subseteq> set (forwardEdges (identifyBackEdges nodes edges))"
    using mset_eq_setD by blast
  then show "acyclic (graph_rel nodes edges)"
    using forwardEdges_acyclic [of nodes edges] edge_rel_mono acyclic_subset by metis
next
  assume acyclic: "acyclic (graph_rel nodes edges)"
  have forward: "set (forwardEdges (identifyBackEdges nodes edges)) \<subseteq> set edges"
    using back_edge_partition [of nodes edges] by (metis mset_subset_eq_add_left set_mset_mono set_mset_mset)
  show "backEdges (identifyBackEdges nodes edges) = []"
  proof (rule ccontr)
    assume "backEdges (identifyBackEdges nodes edges) \<noteq> []"
    then obtain e where "e \<in> set (backEdges (identifyBackEdges nodes edges))"
      by (cases "backEdges (identifyBackEdges nodes edges)") auto
    from backEdges_close_cycles [OF this] edge_rel_mono [OF forward] have
      "(sourceNodeId e, targetNodeId e) \<in> graph_rel nodes edges"
      "(targetNodeId e, sourceNodeId e) \<in> (graph_rel nodes edges)\<^sup>*"
      using rtrancl_mono [OF edge_rel_mono [OF forward]] by blast+
    then show False using acyclic by (meson acyclic_def rtrancl_into_trancl2)
  qed
qed

lemma body_graph_rel:
  "edge_rel (jset_of (map gn_id (map (\<lambda>c. \<lparr>gn_id = node_id c\<rparr>) (body_children c nodes)))) sourceNodeId targetNodeId
      (pickContainerInternalEdges (jset_of (map node_id (body_children c nodes))) edges) = body_rel c nodes edges"
  by (simp add: body_rel_def body_ids_def Let_def comp_def pickContainerInternalEdges_def)

lemma planContainerBody_cases:
  "planContainerBody c nodes edges =
     (let ids = jset_of (body_ids c nodes)
      in bindE (assertNoContainerCycle c (body_children c nodes) (node_map nodes)) (\<lambda>_.
         case find (\<lambda>n. node_category n = TRIGGER) (body_children c nodes) of
           Some child \<Rightarrow> Inl (trigger_child_error c child)
         | None \<Rightarrow>
             (case emit_edges c ids edges of
               [] \<Rightarrow> (let orphans = emit_wires c edges
                  in Inl (if orphans \<noteq> []
                      then orphan_emit_error c (map (\<lambda>e. case map_of (node_map nodes) (sourceNodeId e) of
                             Some n \<Rightarrow> node_label n | None \<Rightarrow> sourceNodeId e) orphans)
                      else no_emit_error c))
             | [e] \<Rightarrow>
                 let graphNodes = map (\<lambda>c. \<lparr>gn_id = node_id c\<rparr>) (body_children c nodes);
                     split = identifyBackEdges graphNodes (pickContainerInternalEdges ids edges)
                 in if \<not> acyclic (body_rel c nodes edges) then Inl (body_back_edge_error c)
                    else bindE (topologicalSort graphNodes (forwardEdges split)) (\<lambda>order. 
                        Inr \<lparr>bp_childIds = ids,
                             bp_bodyEntryNodeIds = jset_of (map targetNodeId
                               (filter (\<lambda>e. sourceNodeId e = node_id c \<and> sourcePort e = ''body'') edges)),
                             bp_emitSourceNodeId = sourceNodeId e, bp_internalEdges = pickContainerInternalEdges ids edges,
                             bp_sortedNodeIds = order,
                             bp_outgoingEdgeMap = fold (\<lambda>e. append_to (sourceNodeId e) e)
                               (pickContainerInternalEdges ids edges) [],
                             bp_nodeMap = node_map nodes, bp_allNodes = nodes, bp_allEdges = edges\<rparr>)
             | es \<Rightarrow> Inl (multiple_emit_error c (length es)))))"
proof -
  have none: "backEdges (identifyBackEdges (map (\<lambda>c. \<lparr>gn_id = node_id c\<rparr>) (body_children c nodes))
        (pickContainerInternalEdges (jset_of (body_ids c nodes)) edges)) \<noteq> []
      \<longleftrightarrow> \<not> acyclic (body_rel c nodes edges)"
    using body_graph_rel [of c nodes edges] by (simp add: no_back_edges_iff body_ids_def)
  consider "emit_edges c (jset_of (body_ids c nodes)) edges = []"
    | e where "emit_edges c (jset_of (body_ids c nodes)) edges = [e]"
    | e e' es where "emit_edges c (jset_of (body_ids c nodes)) edges = e # e' # es"
    by (metis list.exhaust)
  then show ?thesis
    unfolding planContainerBody_def Let_def body_children_def [symmetric] body_ids_def [symmetric]
    by cases (simp_all add: none cong: if_cong option.case_cong)
qed

lemma body_sort:
  assumes "acyclic (body_rel c nodes edges)"
  defines "split \<equiv> identifyBackEdges (map (\<lambda>c. \<lparr>gn_id = node_id c\<rparr>) (body_children c nodes))
      (pickContainerInternalEdges (jset_of (body_ids c nodes)) edges)"
  obtains order where "topologicalSort (map (\<lambda>c. \<lparr>gn_id = node_id c\<rparr>) (body_children c nodes)) (forwardEdges split)
      = Inr order"
    and "distinct order" and "set order = set (body_ids c nodes)" and "in_order (body_rel c nodes edges) order"
proof -
  let ?gn = "map (\<lambda>c. \<lparr>gn_id = node_id c\<rparr>) (body_children c nodes)"
  let ?es = "pickContainerInternalEdges (jset_of (body_ids c nodes)) edges"
  have rel: "graph_rel ?gn ?es = body_rel c nodes edges"
    using body_graph_rel [of c nodes edges] by (simp add: body_ids_def)
  then have "backEdges split = []" using assms(1) no_back_edges_iff unfolding split_def by metis
  then have "mset (forwardEdges split) = mset ?es"
    using back_edge_partition [of ?gn ?es] by (simp add: split_def)
  then have "graph_rel ?gn (forwardEdges split) = graph_rel ?gn ?es"
    using mset_eq_setD edge_rel_mono by (metis subset_antisym subset_refl)
  then show ?thesis
    using topologicalSort_facts [of ?gn "forwardEdges split"] that assms(1)
    unfolding rel by (auto simp: body_ids_def image_image split: sum.splits)
qed

definition well_wired :: "node \<Rightarrow> node list \<Rightarrow> graph_edge list \<Rightarrow> bool" where
  "well_wired c nodes edges \<longleftrightarrow>
     (\<forall>n \<in> set (body_children c nodes). \<not> on_cycle (node_map nodes) n \<and> node_category n \<noteq> TRIGGER)
     \<and> length (emit_edges c (body_ids c nodes) edges) = 1 \<and> acyclic (body_rel c nodes edges)"

definition describes_body :: "node \<Rightarrow> node list \<Rightarrow> graph_edge list \<Rightarrow> body_plan \<Rightarrow> bool" where
  "describes_body c nodes edges plan \<longleftrightarrow>
     set (bp_childIds plan) = set (body_ids c nodes)
     \<and> distinct (bp_sortedNodeIds plan) \<and> set (bp_sortedNodeIds plan) = set (body_ids c nodes)
     \<and> in_order (body_rel c nodes edges) (bp_sortedNodeIds plan)
     \<and> bp_internalEdges plan = pickContainerInternalEdges (body_ids c nodes) edges
     \<and> map sourceNodeId (emit_edges c (body_ids c nodes) edges) = [bp_emitSourceNodeId plan]
     \<and> bp_emitSourceNodeId plan \<in> set (bp_sortedNodeIds plan)
     \<and> set (bp_bodyEntryNodeIds plan)
        = {targetNodeId e | e. e \<in> set edges \<and> sourceNodeId e = node_id c \<and> sourcePort e = ''body''}
     \<and> (\<forall>v. jget_or [] (bp_outgoingEdgeMap plan) v = filter (\<lambda>e. sourceNodeId e = v) (bp_internalEdges plan))
     \<and> bp_nodeMap plan = node_map nodes"

lemma emit_edges_jset: "emit_edges c (jset_of ids) edges = emit_edges c ids edges"
  by (simp add: emit_edges_def)

lemma internal_edges_jset: "pickContainerInternalEdges (jset_of ids) edges = pickContainerInternalEdges ids edges"
  by (simp add: pickContainerInternalEdges_def)

lemma outgoing_list:
  "jget_or [] (fold (\<lambda>e. append_to (sourceNodeId e) e) es []) v = filter (\<lambda>e. sourceNodeId e = v) es"
proof -
  have "jget_or [] (fold (\<lambda>e. append_to (sourceNodeId e) e) es m) v
      = jget_or [] m v @ filter (\<lambda>e. sourceNodeId e = v) es" for m
    by (induction es arbitrary: m) auto
  from this [of "[]"] show ?thesis by simp
qed

lemma chains_checked:
  assumes "distinct (map node_id nodes)"
  shows "assertNoContainerCycle c (body_children c nodes) (node_map nodes) = Inr ()
    \<longleftrightarrow> (\<forall>n \<in> set (body_children c nodes). \<not> on_cycle (node_map nodes) n)"
proof -
  have inj: "inj_on node_id (set nodes)" using assms by (simp add: distinct_map)
  have "climb_containers c (node_map nodes) [] n = Inr () \<longleftrightarrow> \<not> on_cycle (node_map nodes) n"
    if "n \<in> set (body_children c nodes)" for n
    by (rule climb_iff [OF _ node_map_range inj]) (use that in \<open>simp add: body_children_def\<close>)
  then show ?thesis by (simp add: assertNoContainerCycle_def first_error_Inr)
qed


definition child_of :: "string option \<Rightarrow> string \<Rightarrow> string \<Rightarrow> node" where
  "child_of container ty v = \<lparr>node_id = v, node_type = ty, node_category = LOGIC, node_label = v,
     node_config = [], node_isDisabled = False, node_containerId = container, node_toolOwnerId = None\<rparr>"

definition wire :: "string \<Rightarrow> string \<Rightarrow> string \<Rightarrow> string \<Rightarrow> graph_edge" where
  "wire a p b q = \<lparr>sourceNodeId = a, sourcePort = p, targetNodeId = b, targetPort = q\<rparr>"

definition sample_body :: "node list \<times> graph_edge list" where
  "sample_body =
     ([child_of None ''foreach'' ''c'', child_of (Some ''c'') ''code'' ''b'', child_of (Some ''c'') ''code'' ''a''],
      [wire ''c'' ''body'' ''a'' ''in'', wire ''a'' ''out'' ''b'' ''in'', wire ''b'' ''out'' ''c'' ''emit''])"


end
