(* ===== verification/ParallelPlan.thy ===== *)
theory ParallelPlan
  imports ContainerPlan Traversal
begin

text \<open>
  What the engine checks and plans before the branches of a Parallel node start: \<open>planParallelBody\<close> and
  the three checks that call one another (branches, nested Parallels, bodies of containers) in
  \<open>execution-engine.service.ts\<close>. The kind of a node type comes from the handler registry. The
  recursion through the containers shares a set of visited nodes; its pending loops are a list here,
  the innermost first.
\<close>

section \<open>The graph that is checked\<close>

definition PARALLEL_BRANCH_COUNT_MAX :: nat where "PARALLEL_BRANCH_COUNT_MAX = 16"
definition PARALLEL_MAX_NESTED_DEPTH :: nat where "PARALLEL_MAX_NESTED_DEPTH = 2"

record check_graph =
  cg_nodeMap :: "(string, node) jmap"
  cg_childrenByContainer :: "(string, node list) jmap"
  cg_allEdges :: "graph_edge list"

text \<open>Kept per node list and edge list; a node without a container, or with an empty one, is no child.\<close>

definition buildParallelCheckGraph :: "node list \<Rightarrow> graph_edge list \<Rightarrow> check_graph" where
  "buildParallelCheckGraph allNodes allEdges =
     \<lparr>cg_nodeMap = node_map allNodes,
      cg_childrenByContainer = fold (\<lambda>n m. case node_containerId n of
          None \<Rightarrow> m
        | Some c \<Rightarrow> (if c = [] then m else append_to c n m)) allNodes [],
      cg_allEdges = allEdges\<rparr>"

definition children_of :: "check_graph \<Rightarrow> node \<Rightarrow> node list" where
  "children_of g c = jget_or [] (cg_childrenByContainer g) (node_id c)"

text \<open>The edges between the children of a container.\<close>

definition body_edges :: "check_graph \<Rightarrow> node \<Rightarrow> graph_edge list" where
  "body_edges g c = pickContainerInternalEdges (jset_of (map node_id (children_of g c))) (cg_allEdges g)"

section \<open>The checks\<close>

definition nested_depth_error :: "node \<Rightarrow> node \<Rightarrow> string" where
  "nested_depth_error parallelNode n =
     ''PARALLEL_NESTED_DEPTH_EXCEEDED: Nested Parallel node '' @ dquoted (node_label parallelNode)
     @ '' body contains another Parallel node '' @ dquoted (node_label n)
     @ ''. Parallel nesting depth > '' @ show_nat PARALLEL_MAX_NESTED_DEPTH @ '' is not supported.''"

definition container_depth_error :: "node \<Rightarrow> node \<Rightarrow> nat \<Rightarrow> string" where
  "container_depth_error containerNode child parallelDepth =
     ''PARALLEL_NESTED_DEPTH_EXCEEDED: Parallel node '' @ dquoted (node_label child)
     @ '' in the body of container '' @ dquoted (node_label containerNode)
     @ '' would run at nesting depth '' @ show_nat parallelDepth
     @ ''. Parallel nesting depth > '' @ show_nat PARALLEL_MAX_NESTED_DEPTH @ '' is not supported.''"

definition invalid_child_error :: "node \<Rightarrow> node \<Rightarrow> string" where
  "invalid_child_error parallelNode n =
     ''PARALLEL_INVALID_CHILD: Blocking node '' @ dquoted (node_label n) @ '' inside Parallel node ''
     @ dquoted (node_label parallelNode) @ '' is not supported.''"

text \<open>The nodes that a walk can still meet, and have not been visited.\<close>

definition unvisited :: "check_graph \<Rightarrow> (node \<times> node list) list \<Rightarrow> string list \<Rightarrow> string set" where
  "unvisited g frames visited =
     node_id ` (\<Union> (set ` snd ` set frames) \<union> \<Union> (set ` snd ` set (cg_childrenByContainer g))) - set visited"

lemma finite_unvisited [simp]: "finite (unvisited g frames visited)"
  by (simp add: unvisited_def)

lemma children_listed: "set (children_of g c) \<subseteq> \<Union> (set ` snd ` set (cg_childrenByContainer g))"
proof (cases "map_of (cg_childrenByContainer g) (node_id c)")
  case (Some ns)
  then have "(node_id c, ns) \<in> set (cg_childrenByContainer g)" by (rule map_of_SomeD)
  then show ?thesis using Some by (force simp: children_of_def jget_or_def)
qed (simp add: children_of_def jget_or_def)

lemma unvisited_push:
  assumes "node_id child \<notin> set visited"
  shows "card (unvisited g ((child, children_of g child) # (c, rest) # frames) (jadd (node_id child) visited))
    < card (unvisited g ((c, child # rest) # frames) visited)"
proof (rule psubset_card_mono)
  have "unvisited g ((child, children_of g child) # (c, rest) # frames) (jadd (node_id child) visited)
      \<subseteq> unvisited g ((c, child # rest) # frames) visited - {node_id child}"
    using children_listed [of g child] by (auto simp: unvisited_def)
  moreover have "node_id child \<in> unvisited g ((c, child # rest) # frames) visited"
    using assms by (simp add: unvisited_def)
  ultimately show "unvisited g ((child, children_of g child) # (c, rest) # frames) (jadd (node_id child) visited)
      \<subset> unvisited g ((c, child # rest) # frames) visited" by blast
qed simp

lemma unvisited_pop:
  "card (unvisited g ((c, rest) # frames) visited) \<le> card (unvisited g ((c, child # rest) # frames) visited)"
  "unvisited g ((c, []) # frames) visited = unvisited g frames visited"
  by (auto intro!: card_mono simp: unvisited_def)

text \<open>
  The loops over children that are under way, each with its container and the children it has left.
  \<open>check\<close> is what happens to a Parallel.
\<close>

function walk_containers :: "(string \<Rightarrow> dispatch_kind) \<Rightarrow> check_graph \<Rightarrow> (node \<Rightarrow> node \<Rightarrow> string + unit)
    \<Rightarrow> (node \<times> node list) list \<Rightarrow> string list \<Rightarrow> string + unit" where
  "walk_containers kind g check [] visited = Inr ()"
| "walk_containers kind g check ((c, []) # frames) visited = walk_containers kind g check frames visited"
| "walk_containers kind g check ((c, child # rest) # frames) visited =
     bindE (if kind (node_type child) = KParallel then check c child else Inr ()) (\<lambda>_.
       if kind (node_type child) = KContainer \<and> node_id child \<notin> set visited
       then walk_containers kind g check ((child, children_of g child) # (c, rest) # frames) (jadd (node_id child) visited)
       else walk_containers kind g check ((c, rest) # frames) visited)"
  by pat_completeness auto

termination
proof (relation "measures [\<lambda>(_, g, _, frames, visited). card (unvisited g frames visited),
    \<lambda>(_, g, _, frames, visited). sum_list (map (\<lambda>f. Suc (length (snd f))) frames)]")
  show "((kind, g, check, (c, rest) # frames, visited), kind, g, check, (c, child # rest) # frames, visited)
      \<in> measures [\<lambda>(_, g, _, frames, visited). card (unvisited g frames visited),
        \<lambda>(_, g, _, frames, visited). sum_list (map (\<lambda>f. Suc (length (snd f))) frames)]"
    for kind g check c child rest frames visited
    using unvisited_pop(1) [of g c rest frames visited child] by (auto simp: le_less)
qed (simp_all add: unvisited_pop(2) unvisited_push)

definition levels_left :: "nat \<Rightarrow> nat" where
  "levels_left d = Suc PARALLEL_MAX_NESTED_DEPTH - d"

text \<open>
  The check of a container's body. Each check of a Parallel in a branch starts a walk with an empty set
  of visited nodes. \<open>depth\<close> is the depth at which a Parallel of the body would run.
\<close>

function assertParallelBranchChildrenAllowed :: "(string \<Rightarrow> dispatch_kind) \<Rightarrow> check_graph \<Rightarrow> node \<Rightarrow> string list
      \<Rightarrow> graph_edge list \<Rightarrow> nat \<Rightarrow> string + unit"
and assertNestedParallelBodyAllowed :: "(string \<Rightarrow> dispatch_kind) \<Rightarrow> check_graph \<Rightarrow> node
      \<Rightarrow> graph_edge list \<Rightarrow> nat \<Rightarrow> string + unit"
and assertContainerBodyParallelsAllowed :: "(string \<Rightarrow> dispatch_kind) \<Rightarrow> check_graph \<Rightarrow> node
      \<Rightarrow> nat \<Rightarrow> string + unit" where
  "assertParallelBranchChildrenAllowed kind g parallelNode bodyNodeIds internalEdges currentDepth =
     first_error (\<lambda>v. case map_of (cg_nodeMap g) v of
         None \<Rightarrow> Inr ()
       | Some n \<Rightarrow>
           bindE (if kind (node_type n) = KParallel
                  then (if PARALLEL_MAX_NESTED_DEPTH \<le> currentDepth then Inl (nested_depth_error parallelNode n)
                        else assertNestedParallelBodyAllowed kind g n internalEdges (Suc currentDepth))
                  else Inr ()) (\<lambda>_.
           bindE (if kind (node_type n) = KContainer
                  then assertContainerBodyParallelsAllowed kind g n (Suc currentDepth) else Inr ()) (\<lambda>_.
             if kind (node_type n) = KBlocking then Inl (invalid_child_error parallelNode n) else Inr ())))
       bodyNodeIds"
| "assertNestedParallelBodyAllowed kind g parallelNode edges depth =
     first_error (\<lambda>bodyNodeIds. if bodyNodeIds = [] then Inr ()
         else assertParallelBranchChildrenAllowed kind g parallelNode bodyNodeIds
           (pickContainerInternalEdges bodyNodeIds edges) depth)
       (bodyNodeIdsPerBranch (collectParallelBranchMembership (node_id parallelNode) edges PARALLEL_BRANCH_COUNT_MAX))"
| "assertContainerBodyParallelsAllowed kind g containerNode parallelDepth =
     walk_containers kind g (\<lambda>c child.
         if PARALLEL_MAX_NESTED_DEPTH < parallelDepth then Inl (container_depth_error c child parallelDepth)
         else assertNestedParallelBodyAllowed kind g child (body_edges g c) parallelDepth)
       [(containerNode, children_of g containerNode)] [node_id containerNode]"
  by pat_completeness auto

termination
  by (relation "measure (\<lambda>call. case call of
      Inl (_, _, _, _, _, d) \<Rightarrow> 3 * levels_left d + 1
    | Inr (Inl (_, _, _, _, d)) \<Rightarrow> 3 * levels_left d + 2
    | Inr (Inr (_, _, _, d)) \<Rightarrow> if PARALLEL_MAX_NESTED_DEPTH < d then 0 else 3 * levels_left d + 3)")
    (auto simp: levels_left_def PARALLEL_MAX_NESTED_DEPTH_def)

declare assertParallelBranchChildrenAllowed.simps [simp del] assertNestedParallelBodyAllowed.simps [simp del]
  assertContainerBodyParallelsAllowed.simps [simp del]

section \<open>What the checks decide\<close>

text \<open>
  A Parallel would run too deep, or a blocking node in a branch: \<open>d\<close> is the depth of the Parallel
  whose branch holds the node, or at which a Parallel of the container's body would run.
\<close>

definition sub_container :: "(string \<Rightarrow> dispatch_kind) \<Rightarrow> check_graph \<Rightarrow> (node \<times> node) set" where
  "sub_container kind g = {(c, m). m \<in> set (children_of g c) \<and> kind (node_type m) = KContainer}"

definition branch_bodies :: "nat \<Rightarrow> graph_edge list \<Rightarrow> node \<Rightarrow> string list list" where
  "branch_bodies n edges p = bodyNodeIdsPerBranch (collectParallelBranchMembership (node_id p) edges n)"

inductive bad_child :: "(string \<Rightarrow> dispatch_kind) \<Rightarrow> check_graph \<Rightarrow> nat \<Rightarrow> graph_edge list \<Rightarrow> string \<Rightarrow> bool"
  and bad_parallel :: "(string \<Rightarrow> dispatch_kind) \<Rightarrow> check_graph \<Rightarrow> nat \<Rightarrow> graph_edge list \<Rightarrow> node \<Rightarrow> bool"
  and bad_container :: "(string \<Rightarrow> dispatch_kind) \<Rightarrow> check_graph \<Rightarrow> nat \<Rightarrow> node \<Rightarrow> bool" where
  too_deep: "map_of (cg_nodeMap g) v = Some n \<Longrightarrow> kind (node_type n) = KParallel \<Longrightarrow>
    PARALLEL_MAX_NESTED_DEPTH \<le> d \<Longrightarrow> bad_child kind g d edges v"
| below: "map_of (cg_nodeMap g) v = Some n \<Longrightarrow> kind (node_type n) = KParallel \<Longrightarrow>
    bad_parallel kind g (Suc d) edges n \<Longrightarrow> bad_child kind g d edges v"
| inside: "map_of (cg_nodeMap g) v = Some n \<Longrightarrow> kind (node_type n) = KContainer \<Longrightarrow>
    bad_container kind g (Suc d) n \<Longrightarrow> bad_child kind g d edges v"
| blocking: "map_of (cg_nodeMap g) v = Some n \<Longrightarrow> kind (node_type n) = KBlocking \<Longrightarrow> bad_child kind g d edges v"
| branch: "body \<in> set (branch_bodies PARALLEL_BRANCH_COUNT_MAX edges p) \<Longrightarrow> v \<in> set body \<Longrightarrow>
    bad_child kind g d (pickContainerInternalEdges body edges) v \<Longrightarrow> bad_parallel kind g d edges p"
| body_too_deep: "(c, m) \<in> (sub_container kind g)\<^sup>* \<Longrightarrow> p \<in> set (children_of g m) \<Longrightarrow>
    kind (node_type p) = KParallel \<Longrightarrow> PARALLEL_MAX_NESTED_DEPTH < d \<Longrightarrow> bad_container kind g d c"
| body: "(c, m) \<in> (sub_container kind g)\<^sup>* \<Longrightarrow> p \<in> set (children_of g m) \<Longrightarrow>
    kind (node_type p) = KParallel \<Longrightarrow> bad_parallel kind g d (body_edges g m) p \<Longrightarrow> bad_container kind g d c"

text \<open>What a walk looks at: the children left in its frames, and everything below their containers.\<close>

definition seen :: "(string \<Rightarrow> dispatch_kind) \<Rightarrow> check_graph \<Rightarrow> node \<Rightarrow> node \<Rightarrow> (node \<times> node) set" where
  "seen kind g c x = insert (c, x) (if kind (node_type x) = KContainer
     then {(m, y). (x, m) \<in> (sub_container kind g)\<^sup>* \<and> y \<in> set (children_of g m)} else {})"

definition walked :: "(string \<Rightarrow> dispatch_kind) \<Rightarrow> check_graph \<Rightarrow> (node \<times> node list) list \<Rightarrow> (node \<times> node) set" where
  "walked kind g frames = (\<Union>f \<in> set frames. \<Union>x \<in> set (snd f). seen kind g (fst f) x)"

definition ok_at :: "(string \<Rightarrow> dispatch_kind) \<Rightarrow> (node \<Rightarrow> node \<Rightarrow> string + unit) \<Rightarrow> node \<times> node \<Rightarrow> bool" where
  "ok_at kind check e = (kind (node_type (snd e)) = KParallel \<longrightarrow> check (fst e) (snd e) = Inr ())"

lemma walked_simps [simp]:
  "walked kind g [] = {}"
  "walked kind g ((c, []) # frames) = walked kind g frames"
  "walked kind g ((c, x # xs) # frames) = seen kind g c x \<union> walked kind g ((c, xs) # frames)"
  by (auto simp: walked_def)

lemma walked_push:
  assumes "kind (node_type child) = KContainer"
  shows "walked kind g ((child, children_of g child) # frames) \<subseteq> seen kind g c child \<union> walked kind g frames"
proof -
  have "seen kind g child x \<subseteq> seen kind g c child" if x: "x \<in> set (children_of g child)" for x
  proof -
    have "(child, x) \<in> sub_container kind g" if "kind (node_type x) = KContainer"
      using x that by (simp add: sub_container_def)
    then show ?thesis
      using x assms by (auto simp: seen_def dest: converse_rtrancl_into_rtrancl)
  qed
  then show ?thesis by (auto simp: walked_def)
qed

lemma first_check:
  "(if kind (node_type child) = KParallel then check c child else Inr ()) = Inr () \<longleftrightarrow> ok_at kind check (c, child)"
  by (simp add: ok_at_def)

lemma walk_step:
  "walk_containers kind g check ((c, child # rest) # frames) visited =
     (if ok_at kind check (c, child) then
        if kind (node_type child) = KContainer \<and> node_id child \<notin> set visited
        then walk_containers kind g check ((child, children_of g child) # (c, rest) # frames) (jadd (node_id child) visited)
        else walk_containers kind g check ((c, rest) # frames) visited
      else check c child)"
  by (cases "check c child") (auto simp: ok_at_def)

lemma walk_fails:
  "walk_containers kind g check frames visited = Inl e \<Longrightarrow> \<exists>p \<in> walked kind g frames. \<not> ok_at kind check p"
proof (induction kind g check frames visited rule: walk_containers.induct)
  case (3 kind g check c child rest frames visited)
  show ?case
  proof (cases "ok_at kind check (c, child)")
    case True
    then have first: "(if kind (node_type child) = KParallel then check c child else Inr ()) = Inr ()"
      by (simp add: first_check)
    show ?thesis
    proof (cases "kind (node_type child) = KContainer \<and> node_id child \<notin> set visited")
      case push: True
      then have "walk_containers kind g check ((child, children_of g child) # (c, rest) # frames)
          (jadd (node_id child) visited) = Inl e"
        using "3.prems" True by (simp only: walk_step if_True simp_thms)
      from "3.IH"(1) [OF first push this] show ?thesis
        using walked_push [of kind child g "(c, rest) # frames" c] push by auto
    next
      case False
      then have "walk_containers kind g check ((c, rest) # frames) visited = Inl e"
        using "3.prems" True by (simp only: walk_step if_True if_False)
      from "3.IH"(2) [OF first False this] show ?thesis by auto
    qed
  next
    case False
    moreover have "(c, child) \<in> seen kind g c child" by (simp add: seen_def)
    ultimately show ?thesis by auto
  qed
qed simp_all

text \<open>Every child of a visited node is still to come, or was checked and, if a container, visited.\<close>

definition covered :: "(string \<Rightarrow> dispatch_kind) \<Rightarrow> check_graph \<Rightarrow> (node \<Rightarrow> node \<Rightarrow> string + unit)
    \<Rightarrow> (node \<times> node list) list \<Rightarrow> string set \<Rightarrow> bool" where
  "covered kind g check frames V \<longleftrightarrow>
     (\<forall>m. node_id m \<in> V \<longrightarrow> (\<forall>y \<in> set (children_of g m).
        (\<exists>f \<in> set frames. node_id (fst f) = node_id m \<and> y \<in> set (snd f))
        \<or> ok_at kind check (m, y) \<and> (kind (node_type y) = KContainer \<longrightarrow> node_id y \<in> V)))"

definition by_id :: "(string \<Rightarrow> dispatch_kind) \<Rightarrow> (node \<Rightarrow> node \<Rightarrow> string + unit) \<Rightarrow> bool" where
  "by_id kind check \<longleftrightarrow> (\<forall>c c' y. node_id c = node_id c' \<longrightarrow> ok_at kind check (c, y) = ok_at kind check (c', y))"

lemma by_idD: "by_id kind check \<Longrightarrow> node_id c = node_id c' \<Longrightarrow> ok_at kind check (c, y) = ok_at kind check (c', y)"
  unfolding by_id_def by blast

lemma children_by_id: "node_id c = node_id c' \<Longrightarrow> children_of g c = children_of g c'"
  by (simp add: children_of_def)

lemma covered_cases:
  assumes "covered kind g check ((c, child # rest) # frames) V" and "node_id m \<in> V" and "y \<in> set (children_of g m)"
  obtains (left) f where "f \<in> set ((c, rest) # frames)" and "node_id (fst f) = node_id m" and "y \<in> set (snd f)"
    | (this_one) "y = child" and "node_id c = node_id m"
    | (checked) "ok_at kind check (m, y)" and "kind (node_type y) = KContainer \<longrightarrow> node_id y \<in> V"
proof -
  from assms consider (frame) f where "f \<in> set ((c, child # rest) # frames)" "node_id (fst f) = node_id m" "y \<in> set (snd f)"
    | (fine) "ok_at kind check (m, y)" "kind (node_type y) = KContainer \<longrightarrow> node_id y \<in> V"
    unfolding covered_def by blast
  then show ?thesis
  proof cases
    case frame
    show ?thesis
    proof (cases "f = (c, child # rest) \<and> y = child")
      case True
      then show ?thesis using frame(2) this_one by simp
    next
      case False
      then show ?thesis using frame left [of f] left [of "(c, rest)"] by (cases "f = (c, child # rest)") auto
    qed
  qed (rule checked)
qed

lemma covered_push:
  assumes "covered kind g check ((c, child # rest) # frames) V" and "by_id kind check" and "ok_at kind check (c, child)"
  shows "covered kind g check ((child, children_of g child) # (c, rest) # frames) (insert (node_id child) V)"
  unfolding covered_def
proof (intro allI impI ballI)
  fix m y
  assume m: "node_id m \<in> insert (node_id child) V" and y: "y \<in> set (children_of g m)"
  show "(\<exists>f \<in> set ((child, children_of g child) # (c, rest) # frames). node_id (fst f) = node_id m \<and> y \<in> set (snd f))
    \<or> ok_at kind check (m, y) \<and> (kind (node_type y) = KContainer \<longrightarrow> node_id y \<in> insert (node_id child) V)"
  proof (cases "node_id m = node_id child")
    case True
    then show ?thesis using y children_by_id [OF True, of g] by simp
  next
    case False
    then have "node_id m \<in> V" using m by simp
    from assms(1) this y show ?thesis
    proof (cases rule: covered_cases)
      case this_one
      then show ?thesis using by_idD [OF assms(2), of c m child] assms(3) by simp
    qed auto
  qed
qed

lemma covered_drop:
  assumes "covered kind g check ((c, child # rest) # frames) V" and "by_id kind check" and "ok_at kind check (c, child)"
    and "kind (node_type child) = KContainer \<longrightarrow> node_id child \<in> V"
  shows "covered kind g check ((c, rest) # frames) V"
  unfolding covered_def
proof (intro allI impI ballI)
  fix m y
  assume "node_id m \<in> V" and "y \<in> set (children_of g m)"
  with assms(1) show "(\<exists>f \<in> set ((c, rest) # frames). node_id (fst f) = node_id m \<and> y \<in> set (snd f))
    \<or> ok_at kind check (m, y) \<and> (kind (node_type y) = KContainer \<longrightarrow> node_id y \<in> V)"
  proof (cases rule: covered_cases)
    case this_one
    then show ?thesis using by_idD [OF assms(2), of c m child] assms(3,4) by simp
  qed auto
qed

lemma walk_succeeds:
  assumes "by_id kind check"
  shows "walk_containers kind g check frames visited = Inr () \<Longrightarrow> covered kind g check frames (set visited)
    \<Longrightarrow> \<exists>V. set visited \<subseteq> V \<and> covered kind g check [] V"
  using assms
proof (induction kind g check frames visited rule: walk_containers.induct)
  case (2 kind g check c frames visited)
  then show ?case by (simp add: covered_def)
next
  case (3 kind g check c child rest frames visited)
  have ok: "ok_at kind check (c, child)"
  proof (rule ccontr)
    assume bad: "\<not> ok_at kind check (c, child)"
    then have "check c child = Inr ()" using "3.prems"(1) by (simp only: walk_step if_False)
    then show False using bad by (simp add: ok_at_def)
  qed
  then have first: "(if kind (node_type child) = KParallel then check c child else Inr ()) = Inr ()"
    by (simp add: first_check)
  show ?case
  proof (cases "kind (node_type child) = KContainer \<and> node_id child \<notin> set visited")
    case push: True
    then have "walk_containers kind g check ((child, children_of g child) # (c, rest) # frames)
        (jadd (node_id child) visited) = Inr ()"
      using "3.prems"(1) ok by (simp only: walk_step if_True simp_thms)
    from "3.IH"(1) [OF first push this _ "3.prems"(3)] covered_push [OF "3.prems"(2,3) ok]
    obtain V where "set (jadd (node_id child) visited) \<subseteq> V" "covered kind g check [] V" by auto
    then show ?thesis by (intro exI [of _ V]) simp
  next
    case False
    then have "walk_containers kind g check ((c, rest) # frames) visited = Inr ()"
      using "3.prems"(1) ok by (simp only: walk_step if_True if_False)
    moreover have "covered kind g check ((c, rest) # frames) (set visited)"
      using covered_drop [OF "3.prems"(2,3) ok] False by blast
    ultimately show ?thesis by (rule "3.IH"(2) [OF first False _ _ "3.prems"(3)])
  qed
qed auto

text \<open>A walk from a container succeeds exactly when every Parallel below it passes the check.\<close>

lemma walk_iff:
  assumes "by_id kind check"
  shows "walk_containers kind g check [(c, children_of g c)] [node_id c] = Inr ()
    \<longleftrightarrow> (\<forall>m y. (c, m) \<in> (sub_container kind g)\<^sup>* \<longrightarrow> y \<in> set (children_of g m) \<longrightarrow> ok_at kind check (m, y))"
    (is "?walk = Inr () \<longleftrightarrow> ?all")
proof
  assume walk: "?walk = Inr ()"
  have "covered kind g check [(c, children_of g c)] (set [node_id c])"
    unfolding covered_def by (simp add: children_of_def)
  from walk_succeeds [OF assms walk this] obtain V where "set [node_id c] \<subseteq> V" and closed: "covered kind g check [] V"
    by blast
  then have V: "node_id c \<in> V" by simp
  have step: "ok_at kind check (m, y)" "kind (node_type y) = KContainer \<Longrightarrow> node_id y \<in> V"
    if "node_id m \<in> V" "y \<in> set (children_of g m)" for m y
    using closed that by (simp_all add: covered_def)
  have "node_id m \<in> V" if "(c, m) \<in> (sub_container kind g)\<^sup>*" for m
    using that by (induction rule: rtrancl_induct) (use V step(2) in \<open>auto simp: sub_container_def\<close>)
  then show ?all using step(1) by blast
next
  assume all: ?all
  show "?walk = Inr ()"
  proof (rule ccontr)
    assume "?walk \<noteq> Inr ()"
    then obtain e where "?walk = Inl e" by (cases ?walk) auto
    from walk_fails [OF this] obtain m y where p: "(m, y) \<in> walked kind g [(c, children_of g c)]"
      "\<not> ok_at kind check (m, y)" by force
    have "(c, m) \<in> (sub_container kind g)\<^sup>* \<and> y \<in> set (children_of g m)"
    proof -
      obtain x where x: "x \<in> set (children_of g c)" "(m, y) \<in> seen kind g c x" using p(1) by (auto simp: walked_def)
      have "(c, x) \<in> sub_container kind g" if "kind (node_type x) = KContainer"
        using x(1) that by (simp add: sub_container_def)
      moreover have "(m, y) = (c, x) \<or> kind (node_type x) = KContainer \<and> (x, m) \<in> (sub_container kind g)\<^sup>*
          \<and> y \<in> set (children_of g m)"
        using x(2) by (auto simp: seen_def split: if_splits)
      ultimately show ?thesis
        using x(1) converse_rtrancl_into_rtrancl [of c x "sub_container kind g" m] by auto
    qed
    then show False using all p(2) by blast
  qed
qed

lemma bad_child_iff:
  "bad_child kind g d edges v \<longleftrightarrow> (\<exists>n. map_of (cg_nodeMap g) v = Some n \<and>
     (kind (node_type n) = KParallel \<and> (PARALLEL_MAX_NESTED_DEPTH \<le> d \<or> bad_parallel kind g (Suc d) edges n)
      \<or> kind (node_type n) = KContainer \<and> bad_container kind g (Suc d) n \<or> kind (node_type n) = KBlocking))"
    (is "_ \<longleftrightarrow> ?rhs")
proof
  assume "bad_child kind g d edges v"
  then show ?rhs by cases simp_all
next
  assume ?rhs
  then obtain n where n: "map_of (cg_nodeMap g) v = Some n" and
    "kind (node_type n) = KParallel \<and> (PARALLEL_MAX_NESTED_DEPTH \<le> d \<or> bad_parallel kind g (Suc d) edges n)
      \<or> kind (node_type n) = KContainer \<and> bad_container kind g (Suc d) n \<or> kind (node_type n) = KBlocking" by blast
  then show "bad_child kind g d edges v"
    by (elim disjE conjE) (rule too_deep below inside blocking, rule n, assumption+)+
qed

lemma bad_parallel_iff:
  "bad_parallel kind g d edges p \<longleftrightarrow> (\<exists>body \<in> set (branch_bodies PARALLEL_BRANCH_COUNT_MAX edges p). \<exists>v \<in> set body.
     bad_child kind g d (pickContainerInternalEdges body edges) v)"
  by (subst bad_parallel.simps) blast

lemma bad_container_iff:
  "bad_container kind g d c \<longleftrightarrow> (\<exists>m p. (c, m) \<in> (sub_container kind g)\<^sup>* \<and> p \<in> set (children_of g m)
     \<and> kind (node_type p) = KParallel \<and> (PARALLEL_MAX_NESTED_DEPTH < d \<or> bad_parallel kind g d (body_edges g m) p))"
    (is "_ \<longleftrightarrow> ?rhs")
proof
  assume "bad_container kind g d c"
  then show ?rhs by cases blast+
next
  assume ?rhs
  then obtain m p where "(c, m) \<in> (sub_container kind g)\<^sup>*" "p \<in> set (children_of g m)" "kind (node_type p) = KParallel"
    "PARALLEL_MAX_NESTED_DEPTH < d \<or> bad_parallel kind g d (body_edges g m) p" by blast
  then show "bad_container kind g d c" using body_too_deep body by metis
qed

lemma bad_children:
  assumes "\<And>n. map_of (cg_nodeMap g) v = Some n \<Longrightarrow> kind (node_type n) = KParallel \<Longrightarrow> \<not> PARALLEL_MAX_NESTED_DEPTH \<le> d \<Longrightarrow>
      assertNestedParallelBodyAllowed kind g n edges (Suc d) = Inr () \<longleftrightarrow> \<not> bad_parallel kind g (Suc d) edges n"
    and "\<And>n. map_of (cg_nodeMap g) v = Some n \<Longrightarrow> kind (node_type n) = KContainer \<Longrightarrow>
      assertContainerBodyParallelsAllowed kind g n (Suc d) = Inr () \<longleftrightarrow> \<not> bad_container kind g (Suc d) n"
  shows "(case map_of (cg_nodeMap g) v of
         None \<Rightarrow> Inr ()
       | Some n \<Rightarrow>
           bindE (if kind (node_type n) = KParallel
                  then (if PARALLEL_MAX_NESTED_DEPTH \<le> d then Inl (nested_depth_error p n)
                        else assertNestedParallelBodyAllowed kind g n edges (Suc d))
                  else Inr ()) (\<lambda>_.
           bindE (if kind (node_type n) = KContainer
                  then assertContainerBodyParallelsAllowed kind g n (Suc d) else Inr ()) (\<lambda>_.
             if kind (node_type n) = KBlocking then Inl (invalid_child_error p n) else Inr ())))
     = Inr () \<longleftrightarrow> \<not> bad_child kind g d edges v"
proof (cases "map_of (cg_nodeMap g) v")
  case (Some n)
  show ?thesis
    using assms [OF Some] Some
    by (cases "kind (node_type n)") (simp_all add: bad_child_iff bindE_Inr_iff)
qed (simp add: bad_child_iff)

lemma checks_iff:
  "assertParallelBranchChildrenAllowed kind g p ids edges d = Inr () \<longleftrightarrow> (\<forall>v \<in> set ids. \<not> bad_child kind g d edges v)"
  "assertNestedParallelBodyAllowed kind g p edges d = Inr () \<longleftrightarrow> \<not> bad_parallel kind g d edges p"
  "assertContainerBodyParallelsAllowed kind g c d = Inr () \<longleftrightarrow> \<not> bad_container kind g d c"
proof (induction kind g p ids edges d and kind g p edges d and kind g c d
    rule: assertParallelBranchChildrenAllowed_assertNestedParallelBodyAllowed_assertContainerBodyParallelsAllowed.induct)
  case (1 kind g p ids edges d)
  show ?case
    unfolding assertParallelBranchChildrenAllowed.simps first_error_Inr
    by (intro ball_cong refl bad_children; rule 1; simp)
next
  case (2 kind g p edges d)
  have "(if body = [] then Inr () else assertParallelBranchChildrenAllowed kind g p body
      (pickContainerInternalEdges body edges) d) = Inr ()
    \<longleftrightarrow> (\<forall>v \<in> set body. \<not> bad_child kind g d (pickContainerInternalEdges body edges) v)" for body
    using 2 [of body] by simp
  then show ?case
    unfolding assertNestedParallelBodyAllowed.simps first_error_Inr
    by (simp add: bad_parallel_iff branch_bodies_def)
next
  case (3 kind g c d)
  let ?check = "\<lambda>c child. if PARALLEL_MAX_NESTED_DEPTH < d then Inl (container_depth_error c child d)
         else assertNestedParallelBodyAllowed kind g child (body_edges g c) d"
  have ok: "ok_at kind ?check (m, y) \<longleftrightarrow> \<not> (kind (node_type y) = KParallel
      \<and> (PARALLEL_MAX_NESTED_DEPTH < d \<or> bad_parallel kind g d (body_edges g m) y))" for m y
    using 3 by (auto simp: ok_at_def)
  have "by_id kind ?check" by (auto simp: by_id_def ok body_edges_def children_of_def)
  from walk_iff [OF this, of g c] show ?case
    unfolding assertContainerBodyParallelsAllowed.simps ok bad_container_iff by blast
qed

section \<open>The plan of a Parallel node\<close>

record branch_plan =
  pb_branchIndex :: nat
  pb_branchPort :: string
  pb_bodyNodeIds :: "string list"
  pb_sortedNodeIds :: "string list"
  pb_entryNodeIds :: "string list"
  pb_exitNodeIds :: "string list"
  pb_internalEdges :: "graph_edge list"
  pb_outgoingEdgeMap :: "(string, graph_edge list) jmap"

record parallel_plan =
  pp_branches :: "branch_plan list"
  pp_joinNodeIds :: "string list"
  pp_allBodyNodeIds :: "string list"

definition parallel_back_edge_error :: "node \<Rightarrow> string" where
  "parallel_back_edge_error parallelNode =
     ''PARALLEL_BACK_EDGE: Parallel node '' @ dquoted (node_label parallelNode)
     @ '' body contains back-edges, which are not supported.''"

definition exit_nodes :: "(string, graph_edge list) jmap \<Rightarrow> string list \<Rightarrow> string list" where
  "exit_nodes adj bodyNodeIds =
     filter (\<lambda>v. \<exists>e \<in> set (jget_or [] adj v). targetNodeId e \<notin> set bodyNodeIds) bodyNodeIds"

definition plan_branch :: "(string \<Rightarrow> dispatch_kind) \<Rightarrow> node \<Rightarrow> check_graph \<Rightarrow> graph_edge list \<Rightarrow> nat
    \<Rightarrow> membership \<Rightarrow> nat \<Rightarrow> string + branch_plan" where
  "plan_branch kind parallelNode g edges currentDepth m i =
     (let bodyNodeIds = bodyNodeIdsPerBranch m ! i;
          internalEdges = pickContainerInternalEdges bodyNodeIds edges
      in bindE (assertParallelBranchChildrenAllowed kind g parallelNode bodyNodeIds internalEdges currentDepth) (\<lambda>_.
         bindE (topologicalSort (map (\<lambda>v. \<lparr>gn_id = v\<rparr>) bodyNodeIds) internalEdges) (\<lambda>sortedNodeIds.
           Inr \<lparr>pb_branchIndex = i, pb_branchPort = ''branch_'' @ show_nat i, pb_bodyNodeIds = bodyNodeIds,
                pb_sortedNodeIds = sortedNodeIds, pb_entryNodeIds = branchEntries m ! i,
                pb_exitNodeIds = exit_nodes (forwardAdj m) bodyNodeIds, pb_internalEdges = internalEdges,
                pb_outgoingEdgeMap = fold (\<lambda>e. append_to (sourceNodeId e) e) internalEdges []\<rparr>)))"

fun map_E :: "('a \<Rightarrow> 'e + 'b) \<Rightarrow> 'a list \<Rightarrow> 'e + 'b list" where
  "map_E f [] = Inr []"
| "map_E f (x # xs) = bindE (f x) (\<lambda>y. bindE (map_E f xs) (\<lambda>ys. Inr (y # ys)))"

definition planParallelBody :: "(string \<Rightarrow> dispatch_kind) \<Rightarrow> node \<Rightarrow> check_graph \<Rightarrow> graph_edge list
    \<Rightarrow> graph_edge list \<Rightarrow> nat \<Rightarrow> nat \<Rightarrow> string + parallel_plan" where
  "planParallelBody kind parallelNode g edges backs branchCount currentDepth =
     (let m = collectParallelBranchMembership (node_id parallelNode) edges branchCount
      in if \<exists>e \<in> set backs. sourceNodeId e \<in> set (allBodyNodeIds m) \<or> targetNodeId e \<in> set (allBodyNodeIds m)
         then Inl (parallel_back_edge_error parallelNode)
         else bindE (map_E (plan_branch kind parallelNode g edges currentDepth m) [0..<branchCount]) (\<lambda>branches.
           Inr \<lparr>pp_branches = branches, pp_joinNodeIds = joinNodeIds m, pp_allBodyNodeIds = allBodyNodeIds m\<rparr>))"

section \<open>What is planned for a Parallel\<close>

lemma map_E_Inr: "map_E f xs = Inr ys \<longleftrightarrow> list_all2 (\<lambda>x y. f x = Inr y) xs ys"
  by (induction xs arbitrary: ys) (auto simp: bindE_Inr_iff list_all2_Cons1)

lemma map_E_Inl: "map_E f xs = Inl e \<Longrightarrow> \<exists>x \<in> set xs. f x = Inl e"
  by (induction xs) (auto simp: bindE_Inl_iff)

text \<open>A body node of branch \<open>i\<close>: forward of the port \<open>branch_i\<close>, and of no other branch port.\<close>

definition in_branch :: "string \<Rightarrow> graph_edge list \<Rightarrow> nat \<Rightarrow> nat \<Rightarrow> string \<Rightarrow> bool" where
  "in_branch p edges n i v \<longleftrightarrow> v \<in> branch_reach p edges i \<and> (\<forall>j < n. j \<noteq> i \<longrightarrow> v \<notin> branch_reach p edges j)"

definition branch_rel :: "string \<Rightarrow> graph_edge list \<Rightarrow> nat \<Rightarrow> nat \<Rightarrow> (string \<times> string) set" where
  "branch_rel p edges n i = {(sourceNodeId e, targetNodeId e) | e. e \<in> set edges
     \<and> in_branch p edges n i (sourceNodeId e) \<and> in_branch p edges n i (targetNodeId e)}"

definition describes_branch :: "string \<Rightarrow> graph_edge list \<Rightarrow> nat \<Rightarrow> nat \<Rightarrow> branch_plan \<Rightarrow> bool" where
  "describes_branch p edges n i b \<longleftrightarrow>
     pb_branchIndex b = i \<and> distinct (pb_sortedNodeIds b)
     \<and> set (pb_sortedNodeIds b) = {v. in_branch p edges n i v} \<and> in_order (branch_rel p edges n i) (pb_sortedNodeIds b)
     \<and> set (pb_entryNodeIds b) = {targetNodeId e | e. e \<in> set edges \<and> sourceNodeId e = p \<and> branch_number (sourcePort e) = Some i}
     \<and> set (pb_exitNodeIds b) = {sourceNodeId e | e. e \<in> set edges \<and> in_branch p edges n i (sourceNodeId e)
          \<and> \<not> in_branch p edges n i (targetNodeId e)}
     \<and> (\<forall>v. jget_or [] (pb_outgoingEdgeMap b) v = filter (\<lambda>e. sourceNodeId e = v) (pb_internalEdges b))
     \<and> set (pb_internalEdges b) = {e \<in> set edges. in_branch p edges n i (sourceNodeId e) \<and> in_branch p edges n i (targetNodeId e)}"

lemma body_in_branch:
  assumes "i < n"
  shows "v \<in> set (bodyNodeIdsPerBranch (collectParallelBranchMembership p edges n) ! i) \<longleftrightarrow> in_branch p edges n i v"
  using membership_facts(2) [OF assms, of p edges] by (simp add: in_branch_def)

lemma membership_entries:
  assumes "i < n"
  shows "set (branchEntries (collectParallelBranchMembership p edges n) ! i)
    = {targetNodeId e | e. e \<in> set edges \<and> sourceNodeId e = p \<and> branch_number (sourcePort e) = Some i}"
  using assms by (auto simp: collectParallelBranchMembership_def Let_def set_branch_entries)

lemma membership_forward:
  "jget_or [] (forwardAdj (collectParallelBranchMembership p edges n)) v = filter (\<lambda>e. sourceNodeId e = v) edges"
  by (simp add: collectParallelBranchMembership_def Let_def)

definition inner_edges :: "string \<Rightarrow> graph_edge list \<Rightarrow> nat \<Rightarrow> nat \<Rightarrow> graph_edge list" where
  "inner_edges p edges n i = filter (\<lambda>e. in_branch p edges n i (sourceNodeId e) \<and> in_branch p edges n i (targetNodeId e)) edges"

lemma picked_inner:
  assumes "i < n"
  shows "pickContainerInternalEdges (bodyNodeIdsPerBranch (collectParallelBranchMembership p edges n) ! i) edges
    = inner_edges p edges n i"
  by (simp add: pickContainerInternalEdges_def inner_edges_def body_in_branch [OF assms])

lemma branch_sort:
  assumes "acyclic (forward_rel edges)" and "set body = {v. in_branch p edges n i v}"
  obtains order where "topologicalSort (map (\<lambda>v. \<lparr>gn_id = v\<rparr>) body) (inner_edges p edges n i) = Inr order"
    and "distinct order" and "set order = {v. in_branch p edges n i v}" and "in_order (branch_rel p edges n i) order"
proof -
  let ?gn = "map (\<lambda>v. \<lparr>gn_id = v\<rparr>) body"
  have rel: "graph_rel ?gn (inner_edges p edges n i) = branch_rel p edges n i"
    by (auto simp: edge_rel_def inner_edges_def branch_rel_def comp_def assms(2))
  have "branch_rel p edges n i \<subseteq> forward_rel edges" by (auto simp: branch_rel_def forward_rel_def)
  then have "acyclic (branch_rel p edges n i)" by (rule acyclic_subset [OF assms(1)])
  then show ?thesis
    using topologicalSort_facts [of ?gn "inner_edges p edges n i"] that assms(2)
    unfolding rel by (auto simp: image_image split: sum.splits)
qed

lemma plan_branch_cases:
  fixes p :: node
  defines "v \<equiv> node_id p"
  assumes "i < n" and "acyclic (forward_rel edges)"
  shows "case plan_branch kind p g edges d (collectParallelBranchMembership v edges n) i of
      Inl e \<Rightarrow> \<exists>u. in_branch v edges n i u \<and> bad_child kind g d (inner_edges v edges n i) u
    | Inr b \<Rightarrow> (\<forall>u. in_branch v edges n i u \<longrightarrow> \<not> bad_child kind g d (inner_edges v edges n i) u)
        \<and> describes_branch v edges n i b"
proof -
  define body where "body = bodyNodeIdsPerBranch (collectParallelBranchMembership v edges n) ! i"
  have body: "set body = {u. in_branch v edges n i u}" using body_in_branch [OF assms(2), of _ v edges] by (auto simp: body_def)
  have picked: "pickContainerInternalEdges body edges = inner_edges v edges n i"
    unfolding body_def by (rule picked_inner [OF assms(2)])
  obtain order where order: "topologicalSort (map (\<lambda>v. \<lparr>gn_id = v\<rparr>) body) (inner_edges v edges n i) = Inr order"
    and sorted: "distinct order" "set order = {u. in_branch v edges n i u}" "in_order (branch_rel v edges n i) order"
    using branch_sort [OF assms(3) body] .
  have exits: "set (exit_nodes (forwardAdj (collectParallelBranchMembership v edges n)) body)
      = {sourceNodeId e | e. e \<in> set edges \<and> in_branch v edges n i (sourceNodeId e) \<and> \<not> in_branch v edges n i (targetNodeId e)}"
    by (auto simp: exit_nodes_def membership_forward body)
  show ?thesis
  proof (cases "\<exists>u. in_branch v edges n i u \<and> bad_child kind g d (inner_edges v edges n i) u")
    case True
    then have "assertParallelBranchChildrenAllowed kind g p body (inner_edges v edges n i) d \<noteq> Inr ()"
      using body by (simp add: checks_iff)
    then show ?thesis
      using True picked by (cases "assertParallelBranchChildrenAllowed kind g p body (inner_edges v edges n i) d")
        (simp_all add: plan_branch_def Let_def flip: body_def)
  next
    case False
    then have "assertParallelBranchChildrenAllowed kind g p body (inner_edges v edges n i) d = Inr ()"
      using body by (simp add: checks_iff)
    then show ?thesis
      using False sorted exits membership_entries [OF assms(2), of v edges] order picked
      by (simp add: plan_branch_def Let_def describes_branch_def outgoing_list flip: body_def)
        (auto simp: inner_edges_def)
  qed
qed

definition back_edge_inside :: "string \<Rightarrow> graph_edge list \<Rightarrow> graph_edge list \<Rightarrow> nat \<Rightarrow> bool" where
  "back_edge_inside p edges backs n \<longleftrightarrow>
     (\<exists>e \<in> set backs. \<exists>i < n. in_branch p edges n i (sourceNodeId e) \<or> in_branch p edges n i (targetNodeId e))"

definition bad_branch :: "(string \<Rightarrow> dispatch_kind) \<Rightarrow> check_graph \<Rightarrow> nat \<Rightarrow> string \<Rightarrow> graph_edge list \<Rightarrow> nat \<Rightarrow> bool" where
  "bad_branch kind g d p edges n \<longleftrightarrow>
     (\<exists>i < n. \<exists>u. in_branch p edges n i u \<and> bad_child kind g d (inner_edges p edges n i) u)"

text \<open>C17. A Parallel is planned exactly when no back edge touches a branch, no branch holds a node that blocks
  directly, and none holds, at any nesting through Parallels and containers, a Parallel that would run deeper
  than two levels; a nested Parallel is searched in all 16 branches that it could have, also in those that its
  settings never run. The plan then has every branch's own nodes once, in an order that
  respects the edges between them, its entries, its exits and the nodes where branches join.\<close>

theorem parallel_plan_exact:
  assumes "acyclic (forward_rel edges)"
  shows "case planParallelBody kind p g edges backs n d of
      Inl message \<Rightarrow> back_edge_inside (node_id p) edges backs n \<or> bad_branch kind g d (node_id p) edges n
    | Inr plan \<Rightarrow> \<not> back_edge_inside (node_id p) edges backs n \<and> \<not> bad_branch kind g d (node_id p) edges n
        \<and> length (pp_branches plan) = n \<and> (\<forall>i < n. describes_branch (node_id p) edges n i (pp_branches plan ! i))
        \<and> set (pp_joinNodeIds plan) = {v. \<exists>i j. i < j \<and> j < n
            \<and> v \<in> branch_reach (node_id p) edges i \<inter> branch_reach (node_id p) edges j}"
proof -
  let ?v = "node_id p"
  let ?m = "collectParallelBranchMembership ?v edges n"
  have inside: "(\<exists>e \<in> set backs. sourceNodeId e \<in> set (allBodyNodeIds ?m) \<or> targetNodeId e \<in> set (allBodyNodeIds ?m))
      \<longleftrightarrow> back_edge_inside ?v edges backs n"
  proof -
    have mem: "u \<in> set (allBodyNodeIds ?m) \<longleftrightarrow> (\<exists>i < n. in_branch ?v edges n i u)" for u
      by (auto simp: membership_facts(4) body_in_branch)
    show ?thesis unfolding back_edge_inside_def mem by (intro bex_cong refl) auto
  qed
  show ?thesis
  proof (cases "back_edge_inside ?v edges backs n")
    case True
    then show ?thesis using inside by (simp add: planParallelBody_def Let_def)
  next
    case False
    show ?thesis
    proof (cases "map_E (plan_branch kind p g edges d ?m) [0..<n]")
      case (Inl e)
      from map_E_Inl [OF this] obtain i where "i < n" "plan_branch kind p g edges d ?m i = Inl e"
        by (auto simp del: upt_Suc)
      then have "bad_branch kind g d ?v edges n"
        using plan_branch_cases [where i = i and n = n and kind = kind and p = p and g = g and d = d, OF _ assms]
        unfolding bad_branch_def by fastforce
      then show ?thesis using False Inl inside by (simp add: planParallelBody_def Let_def)
    next
      case (Inr bs)
      then have bs: "length bs = n" "\<And>i. i < n \<Longrightarrow> plan_branch kind p g edges d ?m i = Inr (bs ! i)"
        by (auto simp: map_E_Inr list_all2_conv_all_nth)
      then have each: "i < n \<Longrightarrow> (\<forall>u. in_branch ?v edges n i u \<longrightarrow> \<not> bad_child kind g d (inner_edges ?v edges n i) u)
          \<and> describes_branch ?v edges n i (bs ! i)" for i
        using plan_branch_cases [where i = i and n = n and kind = kind and p = p and g = g and d = d, OF _ assms] bs(2) [of i]
        by simp
      then have "\<not> bad_branch kind g d ?v edges n" unfolding bad_branch_def by blast
      moreover have "planParallelBody kind p g edges backs n d
          = Inr \<lparr>pp_branches = bs, pp_joinNodeIds = joinNodeIds ?m, pp_allBodyNodeIds = allBodyNodeIds ?m\<rparr>"
        using False Inr inside by (simp add: planParallelBody_def Let_def)
      ultimately show ?thesis using False bs(1) each by (simp add: membership_facts(3))
    qed
  qed
qed

definition two_branches :: "graph_edge list" where
  "two_branches = [wire ''p'' ''branch_0'' ''a'' ''in'', wire ''p'' ''branch_1'' ''b'' ''in'',
     wire ''a'' ''out'' ''m'' ''in'', wire ''b'' ''out'' ''m'' ''in'']"

definition by_type :: "string \<Rightarrow> dispatch_kind" where
  "by_type ty = (if ty = ''parallel'' then KParallel else if ty = ''foreach'' then KContainer
     else if ty = ''form'' then KBlocking else KStandard)"

definition branch_graph :: "string \<Rightarrow> check_graph" where
  "branch_graph ty = buildParallelCheckGraph [child_of None ''parallel'' ''p'', child_of None ''code'' ''a'',
     child_of None ty ''b'', child_of None ''merge'' ''m''] two_branches"

lemma two_branches_acyclic: "acyclic (forward_rel two_branches)"
proof -
  have "forward_rel two_branches \<subseteq> measure (\<lambda>v. if v = ''p'' then 0 else if v = ''m'' then 2 else 1)"
    by (auto simp: forward_rel_def two_branches_def wire_def)
  then show ?thesis by (meson wf_acyclic wf_measure acyclic_subset)
qed

theorem parallel_plan_exact_witness:
  "\<not> bad_branch by_type (branch_graph ''code'') 1 ''p'' two_branches 2
   \<and> bad_branch by_type (branch_graph ''form'') 1 ''p'' two_branches 2"
proof -
  let ?p = "child_of None ''parallel'' ''p''"
  have p: "node_id ?p = ''p''" by (simp add: child_of_def)
  have "isl (planParallelBody by_type ?p (branch_graph ''form'') two_branches [] 2 1)"
    "\<not> isl (planParallelBody by_type ?p (branch_graph ''code'') two_branches [] 2 1)"
    by code_simp+
  moreover have "isl (planParallelBody by_type ?p g two_branches [] 2 1) \<longleftrightarrow> bad_branch by_type g 1 ''p'' two_branches 2" for g
  proof -
    have none: "\<not> back_edge_inside ''p'' two_branches [] 2" by (simp add: back_edge_inside_def)
    show ?thesis
      using parallel_plan_exact [OF two_branches_acyclic, where kind = by_type and p = ?p and backs = "[]" and n = 2
          and d = 1 and g = g] none
      by (cases "planParallelBody by_type ?p g two_branches [] 2 1") (simp_all add: p)
  qed
  ultimately show ?thesis by blast
qed

end
