(* ===== verification/ContainerLoops.thy ===== *)
theory ContainerLoops
  imports NodeRun
begin

text \<open>
  What drives the iterations of a container: \<open>foreach-executor.ts\<close>, \<open>loop-executor.ts\<close>, the error
  codes of \<open>iteration-error-code.ts\<close> and the parameter checks of \<open>coerce-container-param.ts\<close>. The body of
  an iteration is a function on the state of the run; \<open>None\<close> stands for a body that never returns.
\<close>

section \<open>Error codes\<close>

definition ErrorCode_values :: "string list" where
  "ErrorCode_values = [''HTTP_TRANSPORT_FAILED'', ''HTTP_4XX'', ''HTTP_5XX'', ''HTTP_TIMEOUT'', ''HTTP_BLOCKED'',
     ''DB_QUERY_FAILED'', ''DB_CONNECTION_ERROR'', ''DB_CONSTRAINT_VIOLATION'',
     ''DB_PERMISSION_DENIED'', ''DB_HOST_BLOCKED'', ''EMAIL_SEND_FAILED'', ''EMAIL_HOST_BLOCKED'',
     ''EMAIL_NO_RECIPIENTS'', ''LLM_CALL_FAILED'', ''LLM_RATE_LIMIT'', ''LLM_RESPONSE_INVALID'',
     ''LLM_TIMEOUT'', ''MAX_COLLECTION_RETRIES_EXCEEDED'', ''CODE_EXECUTION_FAILED'',
     ''CODE_TIMEOUT'', ''CODE_MEMORY_LIMIT'', ''SUB_WORKFLOW_FAILED'', ''SUB_WORKFLOW_NOT_FOUND'',
     ''SUB_WORKFLOW_TIMEOUT'', ''SUB_WORKFLOW_QUEUE_FAILED'', ''WORKFLOW_FORBIDDEN_WORKSPACE'',
     ''EXECUTION_TIME_LIMIT_EXCEEDED'', ''EXECUTION_INTERNAL_ERROR'',
     ''EXECUTION_MESSAGE_TOO_LONG'', ''EXECUTION_ENQUEUE_FAILED'', ''USER_CANCELLED'',
     ''INTERACTION_TIMEOUT'', ''RETRY_STATE_NOT_FOUND'', ''NODE_NOT_RETRYABLE'',
     ''RETRY_TOO_EARLY'', ''VALIDATION_ERROR'', ''INVALID_FIELD'', ''UNKNOWN_ERROR'']"

definition EngineErrorCode_values :: "string list" where
  "EngineErrorCode_values = [''EXECUTION_QUEUE_WAIT_TIMEOUT'', ''WORKER_HEARTBEAT_TIMEOUT'', ''SERVER_INTERRUPTED'',
     ''WEBCHAT_IDLE_TIMEOUT'']"

definition MCP_ERROR_CODE_values :: "string list" where
  "MCP_ERROR_CODE_values = [''MCP_HTTPS_REQUIRED'', ''MCP_AUTH_FAILED'', ''MCP_CONNECT_FAILED'', ''MCP_LIST_FAILED'',
     ''MCP_CALL_FAILED'', ''MCP_TOOL_ERROR'', ''MCP_TIMEOUT'', ''MCP_RESPONSE_TOO_LARGE'',
     ''MCP_UNKNOWN_TOOL'', ''INVALID_TOOL_ARGUMENTS'']"

definition ERROR_CLASS_CODES :: "string list" where
  "ERROR_CLASS_CODES = [''CAFE24_RATE_LIMITED'', ''CAFE24_AUTH_FAILED'', ''CAFE24_TRANSPORT_FAILED'',
     ''MAKESHOP_RATE_LIMITED'', ''MAKESHOP_AUTH_FAILED'', ''MAKESHOP_TRANSPORT_FAILED'',
     ''INTEGRATION_INCOMPLETE'', ''INTEGRATION_TYPE_MISMATCH'', ''INTEGRATION_NOT_CONNECTED'',
     ''INTEGRATION_SERVICE_UNAVAILABLE'', ''INTEGRATION_CALL_FAILED'', ''CAFE24_INVALID_MALL_ID'',
     ''CAFE24_MISSING_FIELDS'', ''CAFE24_UNKNOWN_OPERATION'', ''MAKESHOP_INVALID_PAGINATION'',
     ''MAKESHOP_INVALID_SHOP_UID'', ''MAKESHOP_MISSING_FIELDS'', ''MAKESHOP_UNKNOWN_OPERATION'',
     ''INVALID_PARAMETERS'', ''TOOL_DEFINITION_PAYLOAD_EXCEEDED'', ''INVALID_EXECUTION_STATE'',
     ''ERROR_PORT_FALLBACK'', ''RESUME_CHECKPOINT_MISSING'', ''RESUME_FAILED'',
     ''RESUME_INCOMPATIBLE_STATE'']"

definition ITERATION_PASSTHROUGH_CODES :: "string list" where
  "ITERATION_PASSTHROUGH_CODES = ErrorCode_values @ EngineErrorCode_values @ MCP_ERROR_CODE_values @ ERROR_CLASS_CODES"

definition UNKNOWN_ERROR :: string where "UNKNOWN_ERROR = ''UNKNOWN_ERROR''"
definition ABORT_ERROR :: string where "ABORT_ERROR = ''AbortError''"

text \<open>\<open>code_of\<close> reads the property \<open>code\<close> of an error object.\<close>

definition resolveIterationErrorCode :: "(exn \<Rightarrow> jsval) \<Rightarrow> exn \<Rightarrow> string" where
  "resolveIterationErrorCode code_of err =
     (case err of
        ThrownValue _ \<Rightarrow> UNKNOWN_ERROR
      | _ \<Rightarrow>
          if exn_name err = ABORT_ERROR then ABORT_ERROR
          else (case code_of err of
             JStr c \<Rightarrow> (if c \<in> set ITERATION_PASSTHROUGH_CODES then c else UNKNOWN_ERROR)
           | _ \<Rightarrow> UNKNOWN_ERROR))"

section \<open>Parameters\<close>

text \<open>Braces around something, within one line.\<close>

fun has_unresolved :: "string \<Rightarrow> bool" where
  "has_unresolved [] = False"
| "has_unresolved (c # s) =
     ((starts_with ''{{'' (c # s) \<and> find_sub ''}}'' (takeWhile (\<lambda>c. c \<noteq> CHR 0x0A \<and> c \<noteq> CHR 0x0D) (tl s)) \<noteq> None)
      \<or> has_unresolved s)"

definition ERROR_VALUE_PREVIEW_LIMIT :: nat where "ERROR_VALUE_PREVIEW_LIMIT = 100"

text \<open>\<open>JSON.stringify\<close> gives no string for \<open>undefined\<close>, and the preview then reads \<open>slice\<close> of it.\<close>

definition previewValue :: "jsval \<Rightarrow> exn + string" where
  "previewValue v = (case json_stringify v of
     Some s \<Rightarrow> Inr (take ERROR_VALUE_PREVIEW_LIMIT s)
   | None \<Rightarrow> Inl (Raised ''TypeError'' (''Cannot read properties of undefined (reading '' @ [squote] @ ''slice'' @ [squote] @ '')'')))"

definition param_name :: "string \<Rightarrow> string \<Rightarrow> string" where
  "param_name nodeType fieldName = ''INVALID_CONTAINER_PARAM: '' @ nodeType @ ''.'' @ fieldName"

text \<open>Errors that show the value: the text before it and the text after it.\<close>

definition param_error :: "string \<Rightarrow> jsval \<Rightarrow> string \<Rightarrow> exn + 'a" where
  "param_error before v after =
     (case previewValue v of Inl e \<Rightarrow> Inl e | Inr p \<Rightarrow> Inl (Raised ''Error'' (before @ p @ after)))"

definition unresolvedExpressionError :: "string \<Rightarrow> string \<Rightarrow> jsval \<Rightarrow> string \<Rightarrow> exn + 'a" where
  "unresolvedExpressionError nodeType fieldName v dash =
     param_error (param_name nodeType fieldName @ '' carries an unresolved expression '') v
       (''. The engine expected an evaluated value but received the raw template '' @ dash
        @ '' engineResolvedConfigCache miss or expression-resolver bypass.'')"

definition em_dash :: "host \<Rightarrow> string" where "em_dash h = h_code_unit h 8212"

definition coerceContainerNumber :: "host \<Rightarrow> jsval \<Rightarrow> string \<Rightarrow> string \<Rightarrow> exn + jsnum" where
  "coerceContainerNumber h v fieldName nodeType =
     (let invalid = param_error (param_name nodeType fieldName @ '' = '') v '' is not a finite number.''
      in case v of
           JNum x \<Rightarrow> (if is_fin x then Inr x else invalid)
         | JStr s \<Rightarrow>
             (let trimmed = js_trim s; n = string_to_num trimmed
              in if has_unresolved trimmed then unresolvedExpressionError nodeType fieldName v (em_dash h)
                 else if trimmed = [] then Inl (Raised ''Error'' (param_name nodeType fieldName @ '' is an empty string.''))
                 else if is_fin n then Inr n else invalid)
         | _ \<Rightarrow> invalid)"

definition coerceContainerNumberOptional :: "host \<Rightarrow> jsval \<Rightarrow> string \<Rightarrow> string \<Rightarrow> exn + jsnum option" where
  "coerceContainerNumberOptional h v fieldName nodeType =
     (if is_nullish v then Inr None else map_sum id Some (coerceContainerNumber h v fieldName nodeType))"

datatype container_policy = PolicyStop | PolicySkip | PolicyContinue

definition policy_of :: "string \<Rightarrow> container_policy option" where
  "policy_of s = map_of [(''stop'', PolicyStop), (''skip'', PolicySkip), (''continue'', PolicyContinue)] s"

definition coerceErrorPolicy :: "host \<Rightarrow> jsval \<Rightarrow> string \<Rightarrow> string \<Rightarrow> container_policy \<Rightarrow> exn + container_policy" where
  "coerceErrorPolicy h v fieldName nodeType defaultValue =
     (let invalid = param_error (param_name nodeType fieldName @ '' = '') v
            '' is not a valid error policy (expected one of: stop, skip, continue).''
      in if is_nullish v then Inr defaultValue
         else case v of
           JStr s \<Rightarrow>
             (if has_unresolved (js_trim s) then unresolvedExpressionError nodeType fieldName v (em_dash h)
              else case policy_of (js_trim s) of Some p \<Rightarrow> Inr p | None \<Rightarrow> invalid)
         | _ \<Rightarrow> invalid)"

definition coerceContainerBoolean :: "host \<Rightarrow> jsval \<Rightarrow> string \<Rightarrow> string \<Rightarrow> bool \<Rightarrow> exn + bool" where
  "coerceContainerBoolean h v fieldName nodeType defaultValue =
     (let invalid = param_error (param_name nodeType fieldName @ '' = '') v '' is not a boolean.''
      in case v of
           JBool b \<Rightarrow> Inr b
         | JUndef \<Rightarrow> Inr defaultValue
         | JNull \<Rightarrow> Inr defaultValue
         | JStr s \<Rightarrow>
             (let trimmed = js_trim s
              in if has_unresolved trimmed then unresolvedExpressionError nodeType fieldName v (em_dash h)
                 else if trimmed = ''true'' then Inr True
                 else if trimmed = ''false'' then Inr False
                 else invalid)
         | _ \<Rightarrow> invalid)"

section \<open>ForEach\<close>

type_synonym 'w body = "jsval \<Rightarrow> 'w run \<Rightarrow> ((exn + jsval) \<times> 'w run) option"

record skipped_entry =
  sk_index :: nat
  sk_code :: string
  sk_message :: string

record foreach_result =
  fr_items :: "jsval list"
  fr_skipped :: "skipped_entry list"

definition collect_item :: "bool \<Rightarrow> jsval \<Rightarrow> foreach_result \<Rightarrow> foreach_result" where
  "collect_item collectResults v res = (if collectResults then res\<lparr>fr_items := fr_items res @ [v]\<rparr> else res)"

definition collect_skip :: "bool \<Rightarrow> skipped_entry \<Rightarrow> foreach_result \<Rightarrow> foreach_result" where
  "collect_skip collectResults e res =
     (if collectResults then res\<lparr>fr_items := fr_items res @ [JNull], fr_skipped := fr_skipped res @ [e]\<rparr> else res)"

text \<open>The items from index \<open>i\<close> on, of \<open>n\<close> items.\<close>

fun foreach_items :: "host \<Rightarrow> (exn \<Rightarrow> jsval) \<Rightarrow> container_policy \<Rightarrow> bool \<Rightarrow> 'w body \<Rightarrow> nat \<Rightarrow> nat \<Rightarrow> jsval list
    \<Rightarrow> foreach_result \<Rightarrow> 'w run \<Rightarrow> ((exn + foreach_result) \<times> 'w run) option" where
  "foreach_items h code_of policy collectResults body n i [] res st = Some (Inr res, st)"
| "foreach_items h code_of policy collectResults body n i (item # rest) res st =
     (case body item (st\<lparr>ru_item := Some \<lparr>ic_item = item, ic_index = i, ic_isFirst = (i = 0),
             ic_isLast = (Suc i = n)\<rparr>\<rparr>) of
        None \<Rightarrow> None
      | Some (Inr v, st1) \<Rightarrow>
          foreach_items h code_of policy collectResults body n (Suc i) rest (collect_item collectResults v res) st1
      | Some (Inl err, st1) \<Rightarrow>
          (case err of
             ExecutionCancelled _ \<Rightarrow> Some (Inl err, st1)
           | _ \<Rightarrow>
               if policy = PolicyStop then Some (Inl err, st1)
               else foreach_items h code_of policy collectResults body n (Suc i) rest
                 (collect_skip collectResults \<lparr>sk_index = i, sk_code = resolveIterationErrorCode code_of err,
                    sk_message = exn_message h err\<rparr> res) st1))"

definition foreach_execute :: "host \<Rightarrow> (exn \<Rightarrow> jsval) \<Rightarrow> jsval list \<Rightarrow> container_policy \<Rightarrow> bool \<Rightarrow> 'w body
    \<Rightarrow> 'w run \<Rightarrow> ((exn + foreach_result) \<times> 'w run) option" where
  "foreach_execute h code_of array policy collectResults body st =
     map_option (\<lambda>(r, st1). (r, st1\<lparr>ru_item := ru_item st\<rparr>))
       (foreach_items h code_of policy collectResults body (length array) 0 array
          \<lparr>fr_items = [], fr_skipped = []\<rparr> st)"

section \<open>Loop\<close>

datatype loop_exit = Completed | Broken | MaxIterations

definition DEFAULT_MAX_ITERATIONS :: jsnum where "DEFAULT_MAX_ITERATIONS = Fin 1000"

definition loop_count_error :: "jsnum \<Rightarrow> jsnum \<Rightarrow> exn" where
  "loop_count_error count maxIterations = Raised ''Error'' (''MAX_ITERATIONS_EXCEEDED: Loop count ''
     @ num_to_string count @ '' exceeds maximum '' @ num_to_string maxIterations)"

definition loop_iteration_error :: "jsnum \<Rightarrow> jsnum \<Rightarrow> exn" where
  "loop_iteration_error i maxIterations = Raised ''Error'' (''MAX_ITERATIONS_EXCEEDED: Loop iteration ''
     @ num_to_string i @ '' exceeds maximum '' @ num_to_string maxIterations)"

definition checks_break :: "('w run \<Rightarrow> bool \<times> 'w run) option \<Rightarrow> 'w run \<Rightarrow> bool \<times> 'w run" where
  "checks_break breakCondition st = (case breakCondition of None \<Rightarrow> (False, st) | Some stop \<Rightarrow> stop st)"

text \<open>The loop from iteration \<open>i\<close> on; the break condition, where there is one, follows the body.\<close>

partial_function (option) loop_iterations :: "'w body \<Rightarrow> ('w run \<Rightarrow> bool \<times> 'w run) option \<Rightarrow> jsnum \<Rightarrow> jsnum \<Rightarrow> jsnum
    \<Rightarrow> jsval \<Rightarrow> (jsnum \<times> jsval) list \<Rightarrow> 'w run \<Rightarrow> ((exn + (jsnum \<times> jsval) list \<times> loop_exit) \<times> 'w run) option" where
  "loop_iterations body breakCondition count maxIterations i previousOutput results st =
     (if \<not> num_less i count then Some (Inr (results, Completed), st)
      else if num_le maxIterations i then Some (Inl (loop_iteration_error i maxIterations), st)
      else case body previousOutput (st\<lparr>ru_loop := Some \<lparr>lc_index = i, lc_count = count, lc_isFirst = num_eq i (Fin 0),
             lc_isLast = num_eq i (num_sub count (Fin 1))\<rparr>\<rparr>) of
        None \<Rightarrow> None
      | Some (Inl err, st1) \<Rightarrow> Some (Inl err, st1)
      | Some (Inr out, st1) \<Rightarrow>
          (if fst (checks_break breakCondition st1)
           then Some (Inr (results @ [(i, out)], Broken), snd (checks_break breakCondition st1))
           else loop_iterations body breakCondition count maxIterations (num_add i (Fin 1)) out (results @ [(i, out)])
             (snd (checks_break breakCondition st1))))"

declare loop_iterations.simps [code]

definition loop_execute :: "jsnum \<Rightarrow> jsnum option \<Rightarrow> ('w run \<Rightarrow> bool \<times> 'w run) option \<Rightarrow> 'w body \<Rightarrow> 'w run
    \<Rightarrow> ((exn + (jsnum \<times> jsval) list \<times> loop_exit) \<times> 'w run) option" where
  "loop_execute count configMax breakCondition body st =
     (let maxIterations = opt_or DEFAULT_MAX_ITERATIONS configMax
      in if num_less maxIterations count then Some (Inl (loop_count_error count maxIterations), st)
         else map_option (\<lambda>(r, st1).
             (map_sum id (\<lambda>(results, exit).
                (results, if exit = Completed \<and> num_le maxIterations (num_of_nat (length results))
                          then MaxIterations else exit)) r,
              st1\<lparr>ru_loop := ru_loop st\<rparr>))
           (loop_iterations body breakCondition count maxIterations (Fin 0) JUndef [] st))"

section \<open>What ForEach computes\<close>

text \<open>
  The reference: the outcome of each body in order, up to and with the first fatal one; failures are
  fatal under the policy \<open>stop\<close>, cancellations always.
\<close>

definition fatal :: "container_policy \<Rightarrow> exn \<Rightarrow> bool" where
  "fatal policy e = (policy = PolicyStop \<or> (case e of ExecutionCancelled _ \<Rightarrow> True | _ \<Rightarrow> False))"

definition at_item :: "nat \<Rightarrow> nat \<Rightarrow> jsval \<Rightarrow> 'w run \<Rightarrow> 'w run" where
  "at_item n i item st = st\<lparr>ru_item := Some \<lparr>ic_item = item, ic_index = i, ic_isFirst = (i = 0), ic_isLast = (Suc i = n)\<rparr>\<rparr>"

fun outcomes :: "container_policy \<Rightarrow> 'w body \<Rightarrow> nat \<Rightarrow> nat \<Rightarrow> jsval list \<Rightarrow> 'w run \<Rightarrow> ((exn + jsval) list \<times> 'w run) option" where
  "outcomes policy body n i [] st = Some ([], st)"
| "outcomes policy body n i (item # rest) st =
     (case body item (at_item n i item st) of
        None \<Rightarrow> None
      | Some (r, st1) \<Rightarrow>
          if (case r of Inl e \<Rightarrow> fatal policy e | Inr v \<Rightarrow> False) then Some ([r], st1)
          else map_option (\<lambda>(rs, st2). (r # rs, st2)) (outcomes policy body n (Suc i) rest st1))"

fun first_fatal :: "container_policy \<Rightarrow> (exn + jsval) list \<Rightarrow> exn option" where
  "first_fatal policy [] = None"
| "first_fatal policy (Inl e # rs) = (if fatal policy e then Some e else first_fatal policy rs)"
| "first_fatal policy (Inr v # rs) = first_fatal policy rs"

fun skips :: "host \<Rightarrow> (exn \<Rightarrow> jsval) \<Rightarrow> nat \<Rightarrow> (exn + jsval) list \<Rightarrow> skipped_entry list" where
  "skips h code_of i [] = []"
| "skips h code_of i (Inl e # rs) =
     \<lparr>sk_index = i, sk_code = resolveIterationErrorCode code_of e, sk_message = exn_message h e\<rparr> # skips h code_of (Suc i) rs"
| "skips h code_of i (Inr v # rs) = skips h code_of (Suc i) rs"

definition slot :: "exn + jsval \<Rightarrow> jsval" where
  "slot r = (case r of Inl e \<Rightarrow> JNull | Inr v \<Rightarrow> v)"

lemma foreach_items_outcomes:
  "foreach_items h code_of policy True body n i items res st =
     map_option (\<lambda>(rs, st1). (case first_fatal policy rs of
         Some e \<Rightarrow> Inl e
       | None \<Rightarrow> Inr (res\<lparr>fr_items := fr_items res @ map slot rs, fr_skipped := fr_skipped res @ skips h code_of i rs\<rparr>), st1))
       (outcomes policy body n i items st)"
proof (induction items arbitrary: i res st)
  case (Cons item rest)
  show ?case
  proof (cases "body item (at_item n i item st)")
    case None
    then show ?thesis by (simp add: at_item_def)
  next
    case (Some p)
    obtain r st1 where p: "p = (r, st1)" by fastforce
    show ?thesis
      using Some Cons.IH
      by (cases r; cases "policy = PolicyStop"; cases "outcomes policy body n (Suc i) rest st1")
        (auto simp: p at_item_def fatal_def collect_item_def collect_skip_def slot_def option.map_comp comp_def
          split: exn.splits option.splits)
  qed
qed simp

lemma outcomes_length:
  "outcomes policy body n i items st = Some (rs, st1) \<Longrightarrow>
    length rs \<le> length items \<and> (first_fatal policy rs = None \<longrightarrow> length rs = length items)"
proof (induction items arbitrary: i st rs)
  case (Cons item rest)
  then show ?case
    by (auto split: option.splits prod.splits if_splits sum.splits)
qed simp

lemma first_fatal_None: "first_fatal policy rs = None \<longleftrightarrow> (\<forall>e. Inl e \<in> set rs \<longrightarrow> \<not> fatal policy e)"
  by (induction policy rs rule: first_fatal.induct) auto

lemma upt_Suc_shift: "[0..<Suc m] = 0 # map Suc [0..<m]"
  by (simp add: map_Suc_upt upt_conv_Cons del: upt_Suc)

lemma skips_indices:
  "map sk_index (skips h code_of i rs) = map (\<lambda>k. i + k) (filter (\<lambda>k. isl (rs ! k)) [0..<length rs])"
proof (induction h code_of i rs rule: skips.induct)
  case (2 h code_of i e rs)
  then show ?case by (simp add: upt_Suc_shift filter_map comp_def del: upt_Suc)
next
  case (3 h code_of i v rs)
  then show ?case by (simp add: upt_Suc_shift filter_map comp_def del: upt_Suc)
qed simp

lemma foreach_facts:
  assumes "foreach_execute h code_of array policy True body st = Some (x, st')"
  obtains rs st1 where "outcomes policy body (length array) 0 array st = Some (rs, st1)"
    and "st' = st1\<lparr>ru_item := ru_item st\<rparr>"
    and "case x of Inl e \<Rightarrow> first_fatal policy rs = Some e
      | Inr res \<Rightarrow> first_fatal policy rs = None \<and> length rs = length array \<and> fr_items res = map slot rs
          \<and> fr_skipped res = skips h code_of 0 rs"
  using assms outcomes_length [of policy body "length array" 0 array st]
  by (force simp: foreach_execute_def foreach_items_outcomes split: option.splits)

lemma unknown_listed: "UNKNOWN_ERROR \<in> set ITERATION_PASSTHROUGH_CODES"
  by (simp add: UNKNOWN_ERROR_def ITERATION_PASSTHROUGH_CODES_def ErrorCode_values_def)

lemma iteration_code_listed:
  "resolveIterationErrorCode code_of e = ABORT_ERROR \<or> resolveIterationErrorCode code_of e \<in> set ITERATION_PASSTHROUGH_CODES"
  using unknown_listed by (simp add: resolveIterationErrorCode_def split: exn.split jsval.split)

lemma skips_codes:
  "s \<in> set (skips h code_of i rs) \<Longrightarrow> sk_code s = ABORT_ERROR \<or> sk_code s \<in> set ITERATION_PASSTHROUGH_CODES"
proof (induction h code_of i rs rule: skips.induct)
  case (2 h code_of i e rs)
  then show ?case using iteration_code_listed [of code_of e] by auto
qed simp_all

lemma first_fatal_fatal: "first_fatal policy rs = Some e \<Longrightarrow> fatal policy e"
  by (induction policy rs rule: first_fatal.induct) (auto split: if_splits)


definition doubling :: "nat body" where
  "doubling v st = (case v of JNum x \<Rightarrow> Some (Inr (JNum (num_add x x)), st)
     | _ \<Rightarrow> Some (Inl (Raised ''TypeError'' ''no number''), st))"


text \<open>A nested workflow that parks inside an iteration counts as a failed iteration under the policies
  \<open>skip\<close> and \<open>continue\<close>: the signal does not reach the engine, and the next iteration starts.\<close>

theorem foreach_swallows_park:
  assumes "policy \<noteq> PolicyStop"
  shows "\<exists>entry. foreach_execute h (\<lambda>_. JUndef) [v] policy True (\<lambda>_ s. Some (Inl ParkRelease, s)) st
    = Some (Inr \<lparr>fr_items = [JNull], fr_skipped = [entry]\<rparr>, st) \<and> sk_code entry = UNKNOWN_ERROR"
  using assms by (simp add: foreach_execute_def collect_skip_def resolveIterationErrorCode_def exn_name_def ABORT_ERROR_def)

section \<open>How often Loop runs\<close>

definition iterations_of :: "jsnum \<Rightarrow> nat" where
  "iterations_of count = nat \<lceil>num_fin count\<rceil>"

lemma below_count: "is_fin count \<Longrightarrow> num_less (Fin (of_nat k)) count \<longleftrightarrow> k < iterations_of count"
proof -
  assume "is_fin count"
  then have "num_less (Fin (of_nat k)) count \<longleftrightarrow> of_nat k < num_fin count"
    by (cases count) (auto simp: num_less_def)
  also have "\<dots> \<longleftrightarrow> k < iterations_of count"
    by (simp add: iterations_of_def) linarith
  finally show ?thesis .
qed

lemma next_index:
  assumes "k < 2 ^ 53"
  shows "num_add (Fin (of_nat k)) (Fin 1) = Fin (of_nat (Suc k))"
proof -
  have "round_num False (of_int (int (Suc k))) = Fin (of_nat (Suc k))"
    using num_of_nat_exact [of "Suc k"] assms by (simp only: num_of_int_def)
  then show ?thesis by (simp add: num_add_def add.commute)
qed

definition indexed :: "jsval list \<Rightarrow> (jsnum \<times> jsval) list" where
  "indexed vs = zip (map (\<lambda>k. Fin (of_nat k)) [0..<length vs]) vs"

lemma indexed_snoc: "indexed vs @ [(Fin (of_nat (length vs)), v)] = indexed (vs @ [v])"
  by (simp add: indexed_def)

text \<open>
  The reference: run the body with the indices \<open>k\<close>, \<open>k + 1\<close>, \<dots>, at most \<open>n\<close> times, each on the output of the
  one before, until the break condition holds or the body throws; the outputs in order.
\<close>

datatype loop_end = AllRun | Stopped | Threw exn

definition at_round :: "nat \<Rightarrow> jsnum \<Rightarrow> 'w run \<Rightarrow> 'w run" where
  "at_round k count st = st\<lparr>ru_loop := Some \<lparr>lc_index = Fin (of_nat k), lc_count = count, lc_isFirst = (k = 0),
     lc_isLast = num_eq (Fin (of_nat k)) (num_sub count (Fin 1))\<rparr>\<rparr>"

fun rounds :: "'w body \<Rightarrow> ('w run \<Rightarrow> bool \<times> 'w run) option \<Rightarrow> jsnum \<Rightarrow> nat \<Rightarrow> nat \<Rightarrow> jsval \<Rightarrow> 'w run
    \<Rightarrow> ((loop_end \<times> jsval list) \<times> 'w run) option" where
  "rounds body stop count 0 k prev st = Some ((AllRun, []), st)"
| "rounds body stop count (Suc n) k prev st =
     (case body prev (at_round k count st) of
        None \<Rightarrow> None
      | Some (Inl e, st1) \<Rightarrow> Some ((Threw e, []), st1)
      | Some (Inr v, st1) \<Rightarrow>
          (if fst (checks_break stop st1) then Some ((Stopped, [v]), snd (checks_break stop st1))
           else map_option (\<lambda>((how, vs), s). ((how, v # vs), s))
                  (rounds body stop count n (Suc k) v (snd (checks_break stop st1)))))"

lemma rounds_length:
  "rounds body stop count n k prev st = Some ((how, outs), st') \<Longrightarrow>
    length outs \<le> n \<and> (how = AllRun \<longrightarrow> length outs = n)"
  by (induction body stop count n k prev st arbitrary: how outs st' rule: rounds.induct)
    (fastforce split: option.splits sum.splits if_splits)+

lemma rounds_returns: "(\<And>v s. body v s \<noteq> None) \<Longrightarrow> rounds body stop count n k prev st \<noteq> None"
proof (induction n arbitrary: k prev st)
  case (Suc n)
  obtain r st1 where "body prev (at_round k count st) = Some (r, st1)" using Suc.prems [of prev "at_round k count st"] by auto
  then show ?case using Suc by (simp del: not_None_eq split: sum.split)
qed simp

definition round_result :: "jsval list \<Rightarrow> loop_end \<times> jsval list \<Rightarrow> exn + (jsnum \<times> jsval) list \<times> loop_exit" where
  "round_result vs r = (case fst r of Threw e \<Rightarrow> Inl e
     | AllRun \<Rightarrow> Inr (indexed (vs @ snd r), Completed) | Stopped \<Rightarrow> Inr (indexed (vs @ snd r), Broken))"

lemma round_result_Cons: "round_result (vs @ [v]) (how, outs) = round_result vs (how, v # outs)"
  by (simp add: round_result_def split: loop_end.split)

lemma loop_iterations_rounds:
  assumes fin: "is_fin count" and small: "iterations_of count \<le> 2 ^ 53"
    and capped: "\<not> num_less maxIterations count" and "maxIterations \<noteq> NaN"
  shows "length vs + n = iterations_of count \<Longrightarrow> loop_iterations body stop count maxIterations
      (Fin (of_nat (length vs))) prev (indexed vs) st
    = map_option (\<lambda>(r, s). (round_result vs r, s)) (rounds body stop count n (length vs) prev st)"
proof (induction n arbitrary: vs prev st)
  case 0
  then show ?case
    using below_count [OF fin, of "length vs"] by (subst loop_iterations.simps) (simp add: round_result_def)
next
  case (Suc n)
  then have less: "length vs < iterations_of count" by simp
  let ?i = "Fin (of_nat (length vs)) :: jsnum"
  have "num_less ?i count" using below_count [OF fin] less by blast
  then have below: "num_less ?i count" "\<not> num_le maxIterations ?i"
    using capped fin \<open>maxIterations \<noteq> NaN\<close>
    by (auto simp: num_le_def num_less_def num_eq_def is_zero_def split: if_splits; cases count; cases maxIterations; auto)+
  have first: "num_eq ?i (Fin 0) = (length vs = 0)" by (simp add: num_eq_def is_zero_def)
  show ?case
  proof (cases "body prev (at_round (length vs) count st)")
    case None
    then show ?thesis using below first by (subst loop_iterations.simps) (simp add: at_round_def)
  next
    case (Some rs)
    obtain r st1 where rs: "rs = (r, st1)" by (cases rs)
    show ?thesis
    proof (cases "isl r \<or> fst (checks_break stop st1)")
      case True
      then show ?thesis
        using Some rs below first
        by (subst loop_iterations.simps) (cases r; simp add: at_round_def round_result_def indexed_snoc)
    next
      case False
      then obtain v where r: "r = Inr v" by (cases r) auto
      have "length (vs @ [v]) + n = iterations_of count" using Suc.prems by simp
      from Suc.IH [OF this, of v "snd (checks_break stop st1)"]
      have step: "loop_iterations body stop count maxIterations (num_add ?i (Fin 1)) v (indexed (vs @ [v])) (snd (checks_break stop st1))
          = map_option (\<lambda>(r, s). (round_result (vs @ [v]) r, s)) (rounds body stop count n (Suc (length vs)) v (snd (checks_break stop st1)))"
        using next_index [of "length vs"] less small by simp
      show ?thesis
        using Some rs below first False r step
        by (subst loop_iterations.simps)
          (cases "rounds body stop count n (Suc (length vs)) v (snd (checks_break stop st1))";
            auto simp: at_round_def indexed_snoc split_beta round_result_Cons round_result_Cons [of "[]", simplified])
    qed
  qed
qed

definition loop_limit :: "jsnum option \<Rightarrow> jsnum" where
  "loop_limit configMax = opt_or DEFAULT_MAX_ITERATIONS configMax"

definition loop_exit_of :: "loop_end \<Rightarrow> jsnum \<Rightarrow> nat \<Rightarrow> loop_exit" where
  "loop_exit_of how maxIterations n = (if how = Stopped then Broken
     else if num_le maxIterations (num_of_nat n) then MaxIterations else Completed)"

lemma loop_execute_rounds:
  assumes "is_fin count" and "iterations_of count \<le> 2 ^ 53" and "loop_limit configMax \<noteq> NaN"
  shows "loop_execute count configMax stop body st =
    (if num_less (loop_limit configMax) count then Some (Inl (loop_count_error count (loop_limit configMax)), st)
     else map_option (\<lambda>((how, outs), st1).
         (case how of Threw e \<Rightarrow> Inl e
            | _ \<Rightarrow> Inr (indexed outs, loop_exit_of how (loop_limit configMax) (iterations_of count)),
          st1\<lparr>ru_loop := ru_loop st\<rparr>))
       (rounds body stop count (iterations_of count) 0 JUndef st))"
proof (cases "num_less (loop_limit configMax) count")
  case True
  then show ?thesis by (simp add: loop_execute_def loop_limit_def)
next
  case False
  have run: "loop_iterations body stop count (loop_limit configMax) (Fin 0) JUndef [] st
      = map_option (\<lambda>(r, s). (round_result [] r, s)) (rounds body stop count (iterations_of count) 0 JUndef st)"
    using loop_iterations_rounds [where vs = "[]" and n = "iterations_of count", OF assms(1,2) False assms(3)]
    by (simp add: indexed_def)
  show ?thesis
  proof (cases "rounds body stop count (iterations_of count) 0 JUndef st")
    case (Some r)
    obtain how outs st1 where r: "r = ((how, outs), st1)" by (metis surj_pair)
    have len: "length (indexed outs) = length outs" by (simp add: indexed_def)
    show ?thesis
      using False run Some r rounds_length [OF Some [unfolded r]] len
      by (cases how) (auto simp: loop_execute_def round_result_def loop_exit_of_def simp flip: loop_limit_def)
  qed (use False run in \<open>simp add: loop_execute_def flip: loop_limit_def\<close>)
qed


definition counting :: "nat body" where
  "counting v st = Some (Inr (case v of JNum x \<Rightarrow> JNum (num_add x (Fin 1)) | _ \<Rightarrow> JNum (Fin 1)), st)"


end
