(* ===== verification/Container.thy ===== *)
theory Container
  imports ParallelPlan ContainerLoops
begin

text \<open>
  A run of a container node (ForEach, Map, Loop): one iteration of its body (\<open>executeContainerBody\<close>), the
  executors around it and the final output (\<open>runContainerInner\<close>), and the row of a container
  that failed (\<open>runContainer\<close>), all in \<open>execution-engine.service.ts\<close>. The check between
  iterations and the run of a Parallel inside the body are fields of \<open>body_driver\<close>.
\<close>

section \<open>One iteration\<close>

record 'w body_driver =
  bd_env :: "'w node_env"
  bd_guard :: "'w run \<Rightarrow> (exn + unit) \<times> 'w run"
  bd_kind :: "string \<Rightarrow> dispatch_kind"
  bd_parallelV1 :: bool
  bd_depth :: nat                                  \<comment> \<open>\<open>parallelDepthOf(context)\<close>\<close>
  bd_parallel :: "node \<Rightarrow> body_plan \<Rightarrow> jsval \<Rightarrow> string list \<Rightarrow> 'w run
    \<Rightarrow> ((exn + string list \<times> string list) \<times> 'w run) option"   \<comment> \<open>the reachable nodes, and those that wrote outputs\<close>
  bd_codeOf :: "exn \<Rightarrow> jsval"                      \<comment> \<open>the property \<open>code\<close> of an error\<close>

abbreviation bd_host :: "'w body_driver \<Rightarrow> host" where
  "bd_host d \<equiv> ne_host (bd_env d)"

definition seed_reachable :: "body_plan \<Rightarrow> string list" where
  "seed_reachable plan =
     (if bp_bodyEntryNodeIds plan \<noteq> []
      then filter (\<lambda>v. v \<in> set (bp_childIds plan)) (bp_bodyEntryNodeIds plan)
      else filter (\<lambda>v. v \<notin> targetNodeId ` set (bp_internalEdges plan)) (bp_sortedNodeIds plan))"

definition blocking_error :: "node \<Rightarrow> node \<Rightarrow> exn" where
  "blocking_error n containerNode = Raised ''Error'' (''Blocking node '' @ dquoted (node_label n)
     @ '' inside container '' @ dquoted (node_label containerNode) @ '' is not supported.'')"

text \<open>What the loop over the children carries: the reachable nodes, and those that ran in parallel branches.\<close>

record progress =
  pg_reachable :: "string list"
  pg_inBranches :: "string list"

definition run_child :: "'w body_driver \<Rightarrow> node \<Rightarrow> body_plan \<Rightarrow> jsval \<Rightarrow> string \<Rightarrow> node \<Rightarrow> progress \<Rightarrow> 'w run
    \<Rightarrow> ((exn + progress) \<times> 'w run) option" where
  "run_child d containerNode plan iterInput nodeId n pg st =
     (let h = bd_host d;
          (nodeInput, objs) = gatherNodeInput h nodeId (bp_internalEdges plan) (ru_executed st) (ru_outputs st)
            iterInput [] (ru_objs st)
      in case executeNode (bd_env d) (bp_nodeMap plan) n nodeInput (bp_outgoingEdgeMap plan) (st\<lparr>ru_objs := objs\<rparr>) of
           None \<Rightarrow> None
         | Some (Inl e, st1) \<Rightarrow> Some (Inl e, st1)
         | Some (Inr _, st1) \<Rightarrow>
             if bd_parallelV1 d \<and> bd_kind d (node_type n) = KParallel
             then map_option (\<lambda>(r, st2). (map_sum id (\<lambda>(reachable, written).
                      \<lparr>pg_reachable = reachable, pg_inBranches = fold jadd written (pg_inBranches pg)\<rparr>) r, st2))
                    (bd_parallel d n plan nodeInput (pg_reachable pg) st1)
             else if is_waiting h (jget_or JUndef (ru_outputs st1) (node_id n))
             then Some (Inl (blocking_error n containerNode), st1)
             else Some (Inr (pg\<lparr>pg_reachable := propagateReachability h nodeId (bp_outgoingEdgeMap plan)
                         (ru_outputs st1) (pg_reachable pg)\<rparr>), st1))"

definition visit_child :: "'w body_driver \<Rightarrow> node \<Rightarrow> body_plan \<Rightarrow> jsval \<Rightarrow> string \<Rightarrow> progress \<Rightarrow> 'w run
    \<Rightarrow> ((exn + progress) \<times> 'w run) option" where
  "visit_child d containerNode plan iterInput nodeId pg st =
     (if nodeId \<notin> set (pg_reachable pg) then Some (Inr pg, st)
      else case map_of (bp_nodeMap plan) nodeId of
        None \<Rightarrow> Some (Inr pg, st)
      | Some n \<Rightarrow>
          if node_isDisabled n then Some (Inr pg, handleDisabledNode nodeId st)
          else run_child d containerNode plan iterInput nodeId n pg st)"

fun body_nodes :: "'w body_driver \<Rightarrow> node \<Rightarrow> body_plan \<Rightarrow> jsval \<Rightarrow> string list \<Rightarrow> progress
    \<Rightarrow> 'w run \<Rightarrow> ((exn + progress) \<times> 'w run) option" where
  "body_nodes d containerNode plan iterInput [] pg st = Some (Inr pg, st)"
| "body_nodes d containerNode plan iterInput (nodeId # rest) pg st =
     (case visit_child d containerNode plan iterInput nodeId pg st of
        None \<Rightarrow> None
      | Some (Inl e, st1) \<Rightarrow> Some (Inl e, st1)
      | Some (Inr pg1, st1) \<Rightarrow> body_nodes d containerNode plan iterInput rest pg1 st1)"

definition executeContainerBody :: "'w body_driver \<Rightarrow> node \<Rightarrow> body_plan \<Rightarrow> 'w body" where
  "executeContainerBody d containerNode plan iterInput st =
     (if bp_sortedNodeIds plan = [] then Some (Inr JUndef, st)
      else case bd_guard d st of
        (Inl e, st1) \<Rightarrow> Some (Inl e, st1)
      | (Inr _, st1) \<Rightarrow>
          (case body_nodes d containerNode plan iterInput (bp_sortedNodeIds plan) \<lparr>pg_reachable = seed_reachable plan, pg_inBranches = []\<rparr> st1 of
             None \<Rightarrow> None
           | Some (Inl e, st2) \<Rightarrow> Some (Inl e, st2)
           | Some (Inr pg, st2) \<Rightarrow>
               (let emit = bp_emitSourceNodeId plan
                in Some (Inr (if emit \<notin> set (pg_reachable pg) \<and> emit \<notin> set (pg_inBranches pg) then JUndef
                              else unwrapEngineFlatValue (bd_host d) (ru_objs st2) (jget_or JUndef (ru_outputs st2) emit)),
                         st2))))"

section \<open>The run\<close>

definition readEngineResolvedConfig :: "node \<Rightarrow> 'w run \<Rightarrow> props" where
  "readEngineResolvedConfig n st = jget_or (node_config n) (ru_resolved st) (node_id n)"

text \<open>
  No caller sets \<open>expressionContext\<close> on the context of a run, so the input of the expression is \<open>null\<close>.
  The context is always built (\<open>buildExpressionContext_returns\<close>); errors of the evaluation count as false.
\<close>

definition buildLoopBreakConditionEvaluator :: "'w node_env \<Rightarrow> string \<Rightarrow> node list \<Rightarrow> 'w run \<Rightarrow> bool \<times> 'w run" where
  "buildLoopBreakConditionEvaluator env template allNodes st =
     (let (r, st1) = run_ev (bindM (buildExpressionContext (ne_process env) JNull (context_of env st) (node_map allNodes)
            (ne_meta env)) (\<lambda>ctx. evaluateTemplate (ne_host env) template ctx no_options)) st
      in (case r of Inl _ \<Rightarrow> False | Inr v \<Rightarrow> js_truthy v, st1))"

definition alloc_arr :: "jsval list \<Rightarrow> objs \<Rightarrow> jsval \<times> objs" where
  "alloc_arr vs s = (JArr (ob_next s) vs, s\<lparr>ob_next := Suc (ob_next s)\<rparr>)"

fun alloc_all :: "('a \<Rightarrow> objs \<Rightarrow> jsval \<times> objs) \<Rightarrow> 'a list \<Rightarrow> objs \<Rightarrow> jsval list \<times> objs" where
  "alloc_all f [] s = ([], s)"
| "alloc_all f (x # xs) s = (let (v, s1) = f x s; (vs, s2) = alloc_all f xs s1 in (v # vs, s2))"

definition skip_error :: "skipped_entry \<Rightarrow> objs \<Rightarrow> jsval \<times> objs" where
  "skip_error e = alloc_obj [(''code'', JStr (sk_code e)), (''message'', JStr (sk_message e))]"

definition skip_value :: "skipped_entry \<Rightarrow> objs \<Rightarrow> jsval \<times> objs" where
  "skip_value e s = (let (err, s1) = skip_error e s
     in alloc_obj [(''index'', JNum (num_of_nat (sk_index e))), (''error'', err)] s1)"

definition skip_marker :: "skipped_entry \<Rightarrow> objs \<Rightarrow> jsval \<times> objs" where
  "skip_marker e s = (let (err, s1) = skip_error e s in alloc_obj [(''_skipped'', JBool True), (''error'', err)] s1)"

definition buildIterationMeta :: "nat \<Rightarrow> nat \<Rightarrow> props" where
  "buildIterationMeta iterations skippedCount = (''iterations'', JNum (num_of_nat iterations))
     # (if 0 < skippedCount then [(''skippedCount'', JNum (num_of_nat skippedCount))] else [])"

text \<open>The final output and metrics of the three kinds.\<close>

definition foreach_output :: "foreach_result \<Rightarrow> objs \<Rightarrow> jsval \<times> objs" where
  "foreach_output res s =
     (let (items, s1) = alloc_arr (fr_items res) s;
          (skips, s2) = alloc_all skip_value (fr_skipped res) s1;
          (skipped, s3) = alloc_arr skips s2
      in alloc_obj ([(''items'', items), (''count'', JNum (num_of_nat (length (fr_items res))))]
           @ (if fr_skipped res \<noteq> [] then [(''skipped'', skipped)] else [])) s3)"

definition map_output :: "foreach_result \<Rightarrow> objs \<Rightarrow> jsval \<times> objs" where
  "map_output res s =
     (let (markers, s1) = alloc_all skip_marker (fr_skipped res) s;
          values = fold (\<lambda>(e, v) xs. xs[sk_index e := v]) (zip (fr_skipped res) markers) (fr_items res);
          (mapped, s2) = alloc_arr values s1
      in alloc_obj [(''mapped'', mapped), (''count'', JNum (num_of_nat (length values)))] s2)"

definition exit_text :: "loop_exit \<Rightarrow> string" where
  "exit_text e = (case e of Completed \<Rightarrow> ''completed'' | Broken \<Rightarrow> ''break'' | MaxIterations \<Rightarrow> ''maxIterations'')"

definition loop_output :: "(jsnum \<times> jsval) list \<Rightarrow> objs \<Rightarrow> jsval \<times> objs" where
  "loop_output results s =
     (let (iterations, s1) = alloc_arr (map snd results) s
      in alloc_obj [(''iterations'', iterations), (''count'', JNum (num_of_nat (length results)))] s1)"

definition loop_meta :: "(jsnum \<times> jsval) list \<Rightarrow> loop_exit \<Rightarrow> props" where
  "loop_meta results exit = [(''iterations'', JNum (num_of_nat (length results))),
     (''maxIterationsReached'', JBool (exit = MaxIterations)), (''exitReason'', JStr (exit_text exit))]"

text \<open>
  \<open>runContainerInner\<close>. Settings: the resolved ones drive the iterations, the raw ones are what the
  final output echoes. A node that is no ForEach, Map or Loop is left as it is.
\<close>

definition handler_items :: "handler_output option \<Rightarrow> jsval list" where
  "handler_items structured = (case structured of
     Some ho \<Rightarrow> (case ho_output ho of JArr _ vs \<Rightarrow> vs | _ \<Rightarrow> []) | None \<Rightarrow> [])"

text \<open>Store the final output, with the handler's metrics under the engine's.\<close>

definition finish_container :: "'w body_driver \<Rightarrow> node \<Rightarrow> handler_output option \<Rightarrow> jsval \<Rightarrow> props \<Rightarrow> 'w run \<Rightarrow> 'w run" where
  "finish_container d n structured output metrics st =
     (let (config, s1) = (case structured of
            Some ho \<Rightarrow> (if is_nullish (ho_config ho) then alloc_obj (node_config n) (ru_objs st) else (ho_config ho, ru_objs st))
          | None \<Rightarrow> alloc_obj (node_config n) (ru_objs st));
          before = (case structured of Some ho \<Rightarrow> (case ho_meta ho of Some m \<Rightarrow> own_props m | None \<Rightarrow> []) | None \<Rightarrow> []);
          (meta, s2) = alloc_obj (spread (spread [] before) metrics) s1
      in commitNodeOutput (bd_host d) (node_id n) output
           (st\<lparr>ru_objs := s2, ru_structured := jput (node_id n)
              \<lparr>ho_config = config, ho_output = output, ho_meta = Some meta, ho_port = None, ho_status = None,
               ho_resumeState = None, ho_retryState = None\<rparr> (ru_structured st)\<rparr>))"

definition with_output :: "'w body_driver \<Rightarrow> node \<Rightarrow> handler_output option \<Rightarrow> ('r \<Rightarrow> objs \<Rightarrow> jsval \<times> objs)
    \<Rightarrow> ('r \<Rightarrow> props) \<Rightarrow> ((exn + 'r) \<times> 'w run) option \<Rightarrow> ((exn + unit) \<times> 'w run) option" where
  "with_output d n structured output metrics m = map_option (\<lambda>(r, st1). case r of
       Inl e \<Rightarrow> (Inl e, st1)
     | Inr res \<Rightarrow>
         (let (v, objs) = output res (ru_objs st1)
          in (Inr (), finish_container d n structured v (metrics res) (st1\<lparr>ru_objs := objs\<rparr>)))) m"

definition prop_of :: "host \<Rightarrow> props \<Rightarrow> string \<Rightarrow> jsval" where
  "prop_of h ps k = obj_get h ps k"

definition run_foreach :: "'w body_driver \<Rightarrow> node \<Rightarrow> body_plan \<Rightarrow> 'w run \<Rightarrow> ((exn + foreach_result) \<times> 'w run) option" where
  "run_foreach d n plan st =
     (case coerceErrorPolicy (bd_host d) (prop_of (bd_host d) (readEngineResolvedConfig n st) ''errorPolicy'') ''errorPolicy''
             (node_type n) PolicyStop of
        Inl e \<Rightarrow> Some (Inl e, st)
      | Inr policy \<Rightarrow> foreach_execute (bd_host d) (bd_codeOf d) (handler_items (map_of (ru_structured st) (node_id n)))
          policy True (executeContainerBody d n plan) st)"

definition break_condition :: "'w body_driver \<Rightarrow> node \<Rightarrow> body_plan \<Rightarrow> ('w run \<Rightarrow> bool \<times> 'w run) option" where
  "break_condition d n plan = (case prop_of (bd_host d) (node_config n) ''breakCondition'' of
     JStr t \<Rightarrow> (if js_trim t \<noteq> [] then Some (buildLoopBreakConditionEvaluator (bd_env d) t (bp_allNodes plan)) else None)
   | _ \<Rightarrow> None)"

definition run_loop :: "'w body_driver \<Rightarrow> node \<Rightarrow> body_plan \<Rightarrow> 'w run
    \<Rightarrow> ((exn + (jsnum \<times> jsval) list \<times> loop_exit) \<times> 'w run) option" where
  "run_loop d n plan st =
     (let setting = prop_of (bd_host d) (readEngineResolvedConfig n st)
      in case bindE (coerceContainerNumber (bd_host d) (setting ''count'') ''count'' ''loop'') (\<lambda>cnt.
              bindE (coerceContainerNumberOptional (bd_host d) (setting ''maxIterations'') ''maxIterations'' ''loop'') (\<lambda>most.
                Inr (cnt, most))) of
           Inl e \<Rightarrow> Some (Inl e, st)
         | Inr (cnt, most) \<Rightarrow>
             loop_execute cnt most (break_condition d n plan) (executeContainerBody d n plan) st)"

definition plan_container :: "'w body_driver \<Rightarrow> node \<Rightarrow> node list \<Rightarrow> graph_edge list \<Rightarrow> string + body_plan" where
  "plan_container d n allNodes allEdges =
     bindE (planContainerBody n allNodes allEdges) (\<lambda>plan.
     bindE (if bd_parallelV1 d
            then assertContainerBodyParallelsAllowed (bd_kind d) (buildParallelCheckGraph allNodes allEdges) n (bd_depth d)
            else Inr ()) (\<lambda>_. Inr plan))"

definition runContainerInner :: "'w body_driver \<Rightarrow> node \<Rightarrow> node list \<Rightarrow> graph_edge list \<Rightarrow> 'w run
    \<Rightarrow> ((exn + unit) \<times> 'w run) option" where
  "runContainerInner d n allNodes allEdges st =
     (case plan_container d n allNodes allEdges of
        Inl message \<Rightarrow> Some (Inl (Raised ''Error'' message), st)
      | Inr plan \<Rightarrow>
          (let structured = map_of (ru_structured st) (node_id n)
           in if node_type n = ''foreach'' then
                with_output d n structured foreach_output
                  (\<lambda>res. buildIterationMeta (length (fr_items res)) (length (fr_skipped res))) (run_foreach d n plan st)
              else if node_type n = ''map'' then
                with_output d n structured map_output
                  (\<lambda>res. buildIterationMeta (length (fr_items res)) (length (fr_skipped res))) (run_foreach d n plan st)
              else if node_type n = ''loop'' then
                with_output d n structured (\<lambda>(results, _). loop_output results)
                  (\<lambda>(results, exit). loop_meta results exit) (run_loop d n plan st)
              else Some (Inr (), st)))"

text \<open>The last row of the node is its current one.\<close>

definition latest_row :: "string \<Rightarrow> node_row list \<Rightarrow> nat option" where
  "latest_row nodeId rows =
     (case filter (\<lambda>i. nr_nodeId (rows ! i) = nodeId) [0..<length rows] of [] \<Rightarrow> None | is \<Rightarrow> Some (last is))"

definition fail_container :: "'w body_driver \<Rightarrow> node \<Rightarrow> exn \<Rightarrow> 'w run \<Rightarrow> 'w run" where
  "fail_container d n err st =
     (let message = exn_message (bd_host d) err
      in case latest_row (node_id n) (ru_rows st) of
           Some i \<Rightarrow> emit (EvFailed i message)
             (set_row i (\<lambda>r. r\<lparr>nr_status := NodeFailed, nr_error := Some (message, None), nr_finished := True\<rparr>) st)
         | None \<Rightarrow> emit (EvFailedNoRow (node_id n) message) st)"

definition runContainer :: "'w body_driver \<Rightarrow> node \<Rightarrow> node list \<Rightarrow> graph_edge list \<Rightarrow> 'w run
    \<Rightarrow> ((exn + unit) \<times> 'w run) option" where
  "runContainer d n allNodes allEdges st =
     map_option (\<lambda>(r, st1). case r of
         Inr _ \<Rightarrow> (r, st1)
       | Inl err \<Rightarrow> (r, case err of ExecutionCancelled _ \<Rightarrow> st1 | _ \<Rightarrow> fail_container d n err st1))
       (runContainerInner d n allNodes allEdges st)"

section \<open>What an iteration touches\<close>

text \<open>
  The contract between the executors and a body: a relation between states that is kept by the body
  and by the break condition, and does not look at the iteration variables, is kept by ForEach and Loop.
\<close>

locale iterated_body =
  fixes R :: "'w run \<Rightarrow> 'w run \<Rightarrow> bool"
    and body :: "'w body"
    and stop :: "('w run \<Rightarrow> bool \<times> 'w run) option"
  assumes reflexive: "R a a"
    and transitive: "R a b \<Longrightarrow> R b c \<Longrightarrow> R a c"
    and item_blind: "R (a\<lparr>ru_item := i\<rparr>) b = R a b" "R a (b\<lparr>ru_item := i\<rparr>) = R a b"
    and loop_blind: "R (a\<lparr>ru_loop := l\<rparr>) b = R a b" "R a (b\<lparr>ru_loop := l\<rparr>) = R a b"
    and body_keeps: "body v a = Some (r, b) \<Longrightarrow> R a b"
    and stop_keeps: "stop = Some f \<Longrightarrow> R a (snd (f a))"
begin

lemma items_keep:
  "foreach_items h code_of policy collect body n i items res a = Some (r, b) \<Longrightarrow> R a b"
proof (induction items arbitrary: i res a)
  case (Cons item rest)
  obtain q a1 where step: "body item (a\<lparr>ru_item := Some \<lparr>ic_item = item, ic_index = i, ic_isFirst = (i = 0),
      ic_isLast = (Suc i = n)\<rparr>\<rparr>) = Some (q, a1)"
    using Cons.prems by (auto split: option.splits)
  have first: "R a a1" using body_keeps [OF step] by (simp add: item_blind)
  show ?case
  proof (cases "b = a1")
    case False
    then obtain res' where "foreach_items h code_of policy collect body n (Suc i) rest res' a1 = Some (r, b)"
      using Cons.prems step by (auto split: sum.splits exn.splits if_splits)
    then show ?thesis using Cons.IH first transitive by blast
  qed (simp add: first)
qed (simp add: reflexive)

lemma foreach_keeps: "foreach_execute h code_of xs policy collect body a = Some (r, b) \<Longrightarrow> R a b"
  by (auto simp: foreach_execute_def item_blind dest!: items_keep)

lemma break_keeps:
  "(\<And>f a. cond = Some f \<Longrightarrow> R a (snd (f a))) \<Longrightarrow> R a (snd (checks_break cond a))"
  by (cases cond) (simp_all add: checks_break_def reflexive)

lemma iterations_keep:
  "loop_iterations run cond cnt most i prev results a = Some y \<Longrightarrow> (\<And>v a r b. run v a = Some (r, b) \<Longrightarrow> R a b)
    \<Longrightarrow> (\<And>f a. cond = Some f \<Longrightarrow> R a (snd (f a))) \<Longrightarrow> R a (snd y)"
proof (induction run cond cnt most i prev results a y rule: loop_iterations.raw_induct [rotated, consumes 1, case_names step])
  case (step rec run cond cnt most i prev results a y)
  note rec = step(1) and eq = step(2) and keeps = step(3,4)
  show ?case
  proof (cases "num_less i cnt \<and> \<not> num_le most i")
    case True
    obtain q a1 where ran: "run prev (a\<lparr>ru_loop := Some \<lparr>lc_index = i, lc_count = cnt, lc_isFirst = num_eq i (Fin 0),
           lc_isLast = num_eq i (num_sub cnt (Fin 1))\<rparr>\<rparr>) = Some (q, a1)"
      using eq True by (auto split: option.splits)
    have first: "R a a1" using keeps(1) [OF ran] by (simp add: loop_blind)
    show ?thesis
    proof (cases q)
      case (Inl e)
      then have "y = (Inl e, a1)" using eq True ran by auto
      then show ?thesis using first by simp
    next
      case (Inr out)
      let ?a2 = "snd (checks_break cond a1)"
      have broken: "R a ?a2" using first break_keeps [of cond a1] keeps(2) transitive by blast
      show ?thesis
      proof (cases "fst (checks_break cond a1)")
        case True
        then show ?thesis using eq \<open>num_less i cnt \<and> \<not> num_le most i\<close> ran Inr broken by auto
      next
        case False
        then have "rec run cond cnt most (num_add i (Fin 1)) out (results @ [(i, out)]) ?a2 = Some y"
          using eq True False ran Inr by auto
        then have "R ?a2 (snd y)" by (rule rec) (fact keeps(1), fact keeps(2))
        with broken show ?thesis by (rule transitive)
      qed
    qed
  next
    case False
    then show ?thesis using eq by (auto simp: reflexive split: if_splits)
  qed
qed

lemma loop_keeps: "loop_execute cnt most stop body a = Some (r, b) \<Longrightarrow> R a b"
  by (auto simp: loop_execute_def Let_def loop_blind reflexive split: if_splits
      dest!: iterations_keep [where run = body and cond = stop] intro: body_keeps stop_keeps)

end

section \<open>The body keeps to its children\<close>

lemma handleDisabledNode_inside: "v \<in> S \<Longrightarrow> inside S st (handleDisabledNode v st)"
  by (auto simp: handleDisabledNode_def createNodeExecution_def inside_def split: prod.splits)

text \<open>
  A child that works on nodes of \<open>T\<close> only, with the workflows that it calls and, where it is a Parallel, its
  branches: they also run the bodies of the containers in them (\<open>executeParallelBranchBody\<close>).
\<close>

definition child_keeps :: "'w body_driver \<Rightarrow> string set \<Rightarrow> node \<Rightarrow> bool" where
  "child_keeps d T n \<longleftrightarrow>
     handler_touches (bd_env d) (node_type n) T
     \<and> (bd_parallelV1 d \<and> bd_kind d (node_type n) = KParallel \<longrightarrow> (\<forall>plan v reachable st r st'.
          bd_parallel d n plan v reachable st = Some (r, st') \<longrightarrow> inside T st st'))"

text \<open>A plan over nodes of \<open>T\<close>, run with a check and with children that keep to them.\<close>

definition confined :: "'w body_driver \<Rightarrow> body_plan \<Rightarrow> string set \<Rightarrow> bool" where
  "confined d plan T \<longleftrightarrow>
     (\<forall>st. inside T st (snd (bd_guard d st))) \<and> set (bp_sortedNodeIds plan) \<subseteq> T
     \<and> (\<forall>v \<in> set (bp_sortedNodeIds plan). \<forall>n. map_of (bp_nodeMap plan) v = Some n \<longrightarrow> node_id n = v \<and> child_keeps d T n)"

lemma visit_child_inside:
  assumes "visit_child d c plan v nodeId pg st = Some (r, st')" and "nodeId \<in> T"
    and "\<And>n. map_of (bp_nodeMap plan) nodeId = Some n \<Longrightarrow> node_id n = nodeId \<and> child_keeps d T n"
  shows "inside T st st'"
proof (cases "nodeId \<in> set (pg_reachable pg) \<and> map_of (bp_nodeMap plan) nodeId \<noteq> None")
  case False
  then show ?thesis using assms(1) by (auto simp: visit_child_def inside_refl split: if_splits)
next
  case True
  then obtain n where n: "map_of (bp_nodeMap plan) nodeId = Some n" by blast
  note child = assms(3) [OF n]
  show ?thesis
  proof (cases "node_isDisabled n")
    case True
    then show ?thesis
      using assms(1,2) n \<open>nodeId \<in> set (pg_reachable pg) \<and> _\<close> handleDisabledNode_inside by (auto simp: visit_child_def)
  next
    case False
    then have run: "run_child d c plan v nodeId n pg st = Some (r, st')"
      using assms(1) n True by (simp add: visit_child_def)
    obtain inp objs where gather: "gatherNodeInput (bd_host d) nodeId (bp_internalEdges plan) (ru_executed st) (ru_outputs st)
      v [] (ru_objs st) = (inp, objs)" by fastforce
    obtain x st1 where exec: "executeNode (bd_env d) (bp_nodeMap plan) n inp (bp_outgoingEdgeMap plan) (st\<lparr>ru_objs := objs\<rparr>)
      = Some (x, st1)" using run gather by (auto simp: run_child_def Let_def split: option.splits)
    have first: "inside T st st1"
      using executeNode_inside [OF exec, of T T] child assms(2) by (simp add: child_keeps_def)
    show ?thesis
    proof (cases "\<not> isl x \<and> bd_parallelV1 d \<and> bd_kind d (node_type n) = KParallel")
      case True
      then obtain q where "bd_parallel d n plan inp (pg_reachable pg) st1 = Some (q, st')"
        using run gather exec by (auto simp: run_child_def Let_def split: sum.splits)
      then have "inside T st1 st'" using child True unfolding child_keeps_def by blast
      with first show ?thesis by (rule inside_trans)
    next
      case False
      then have "st' = st1" using run gather exec by (auto simp: run_child_def Let_def split: sum.splits if_splits)
      then show ?thesis using first by simp
    qed
  qed
qed

lemma body_nodes_inside:
  assumes "confined d plan T"
  shows "body_nodes d c plan inp ids pg st = Some (r, st') \<Longrightarrow> set ids \<subseteq> set (bp_sortedNodeIds plan) \<Longrightarrow> inside T st st'"
proof (induction ids arbitrary: pg st)
  case (Cons v ids)
  then obtain q st1 where step: "visit_child d c plan inp v pg st = Some (q, st1)" by (auto split: option.splits)
  have "v \<in> T" and "\<And>n. map_of (bp_nodeMap plan) v = Some n \<Longrightarrow> node_id n = v \<and> child_keeps d T n"
    using assms Cons.prems(2) unfolding confined_def by auto
  then have first: "inside T st st1" by (rule visit_child_inside [OF step])
  show ?case
  proof (cases q)
    case (Inr pg1)
    then have "inside T st1 st'" using Cons step by auto
    with first show ?thesis by (rule inside_trans)
  qed (use Cons.prems step first in auto)
qed (simp add: inside_refl)

lemma body_inside:
  assumes "executeContainerBody d c plan inp st = Some (r, st')" and "confined d plan T"
  shows "inside T st st'"
proof (cases "bp_sortedNodeIds plan = []")
  case False
  obtain g st1 where guard: "bd_guard d st = (g, st1)" by fastforce
  then have first: "inside T st st1" using assms(2) unfolding confined_def by (metis snd_conv)
  show ?thesis
  proof (cases g)
    case (Inr u)
    then obtain q where "body_nodes d c plan inp (bp_sortedNodeIds plan)
        \<lparr>pg_reachable = seed_reachable plan, pg_inBranches = []\<rparr> st1 = Some (q, st')"
      using assms(1) guard False by (auto simp: executeContainerBody_def Let_def split: option.splits sum.splits)
    from body_nodes_inside [OF assms(2) this] first show ?thesis using inside_trans by blast
  qed (use assms(1) guard first False in \<open>auto simp: executeContainerBody_def\<close>)
qed (use assms(1) in \<open>simp add: executeContainerBody_def inside_refl\<close>)

lemma break_inside: "inside S st (snd (buildLoopBreakConditionEvaluator env template nodes st))"
proof -
  obtain r st1 where run: "run_ev (bindM (buildExpressionContext (ne_process env) JNull (context_of env st) (node_map nodes)
      (ne_meta env)) (\<lambda>ctx. evaluateTemplate (ne_host env) template ctx no_options)) st = (r, st1)" by fastforce
  obtain k ob where "st1 = st\<lparr>ru_ticks := k, ru_objs := ob\<rparr>" using run_ev_same [OF run] by blast
  then have "inside S st st1" by (simp add: inside_refl)
  then show ?thesis by (simp add: buildLoopBreakConditionEvaluator_def run)
qed

interpretation confined_body: iterated_body "\<lambda>a b. confined d plan S \<longrightarrow> inside S a b" "executeContainerBody d c plan"
    "break_condition d c plan" for d :: "'w body_driver" and plan S c
proof unfold_locales
  show "executeContainerBody d c plan v a = Some (r, b) \<Longrightarrow> confined d plan S \<longrightarrow> inside S a b" for v a r b
    using body_inside [of d c plan v a r b S] by blast
  show "break_condition d c plan = Some f \<Longrightarrow> confined d plan S \<longrightarrow> inside S a (snd (f a))" for f a
    using break_inside by (auto simp: break_condition_def split: jsval.splits if_splits)
qed (auto simp: inside_refl intro: inside_trans)

lemma run_foreach_inside:
  assumes "run_foreach d n plan st = Some (r, st')" and "confined d plan S"
  shows "inside S st st'"
  using assms confined_body.foreach_keeps [where d = d and plan = plan and c = n and S = S]
  by (auto simp: run_foreach_def inside_refl split: sum.splits)

lemma run_loop_inside:
  assumes "run_loop d n plan st = Some (r, st')" and "confined d plan S"
  shows "inside S st st'"
  using assms confined_body.loop_keeps [where d = d and plan = plan and c = n and S = S]
  by (auto simp: run_loop_def Let_def inside_refl split: sum.splits)

lemma node_map_id: "map_of (node_map nodes) v = Some n \<Longrightarrow> node_id n = v"
proof -
  have "\<forall>v n. map_of (fold (\<lambda>n. jput (node_id n) n) ns m) v = Some n \<longrightarrow> node_id n = v"
    if "\<forall>v n. map_of m v = Some n \<longrightarrow> node_id n = v" for ns and m :: "(string, node) jmap"
    using that
  proof (induction ns arbitrary: m)
    case (Cons a ns)
    have "\<forall>v n. map_of (jput (node_id a) a m) v = Some n \<longrightarrow> node_id n = v" using Cons.prems by simp
    from Cons.IH [OF this] show ?case unfolding fold_simps .
  qed (unfold fold_simps)
  note all = this
  have "\<forall>v n. map_of (node_map nodes) v = Some n \<longrightarrow> node_id n = v"
    unfolding node_map_def by (rule all) simp
  then show "map_of (node_map nodes) v = Some n \<Longrightarrow> node_id n = v" by blast
qed

lemma planned_children:
  assumes "planContainerBody c nodes edges = Inr plan"
  shows "bp_nodeMap plan = node_map nodes \<and> set (bp_sortedNodeIds plan) = set (body_ids c nodes)
    \<and> bp_allNodes plan = nodes \<and> bp_emitSourceNodeId plan \<in> set (body_ids c nodes)"
proof -
  let ?ids = "jset_of (body_ids c nodes)"
  let ?gn = "map (\<lambda>c. \<lparr>gn_id = node_id c\<rparr>) (body_children c nodes)"
  let ?fwd = "forwardEdges (identifyBackEdges ?gn (pickContainerInternalEdges ?ids edges))"
  obtain e order where e: "emit_edges c ?ids edges = [e]" and order: "topologicalSort ?gn ?fwd = Inr order"
    and plan: "bp_nodeMap plan = node_map nodes" "bp_sortedNodeIds plan = order" "bp_allNodes plan = nodes"
      "bp_emitSourceNodeId plan = sourceNodeId e"
    using assms by (auto simp: planContainerBody_cases Let_def bindE_Inr_iff split: option.splits list.splits if_splits)
  have "e \<in> set (emit_edges c ?ids edges)" using e by simp
  then have "sourceNodeId e \<in> set (body_ids c nodes)" by (simp add: emit_edges_def)
  moreover have "set order = set (body_ids c nodes)"
    using topologicalSort_facts [of ?gn ?fwd] order by (simp add: body_ids_def image_image)
  ultimately show ?thesis using plan by simp
qed

lemma node_map_in: "map_of (node_map nodes) v = Some n \<Longrightarrow> n \<in> set nodes"
proof -
  have "map_of (fold (\<lambda>n. jput (node_id n) n) ns m) v = Some n \<Longrightarrow> n \<in> set ns \<or> map_of m v = Some n" for ns m
    by (induction ns arbitrary: m) (fastforce split: if_splits)+
  from this [of nodes "[]"] show "map_of (node_map nodes) v = Some n \<Longrightarrow> n \<in> set nodes" by (simp add: node_map_def)
qed

text \<open>The nodes among all nodes of the workflow that are children of the container.\<close>

definition children :: "node \<Rightarrow> node list \<Rightarrow> node set" where
  "children c nodes = {n \<in> set nodes. node_id n \<in> set (body_ids c nodes)}"

text \<open>
  The parameters of a run, and what the children call, work on the children and on nodes of \<open>P\<close>: those nested
  deeper in the container, which a Parallel of the body may run, and those of called workflows.
\<close>

definition keeps_inside :: "'w body_driver \<Rightarrow> node \<Rightarrow> node list \<Rightarrow> string set \<Rightarrow> bool" where
  "keeps_inside d c nodes P \<longleftrightarrow>
     (\<forall>st. inside (set (body_ids c nodes) \<union> P) st (snd (bd_guard d st)))
     \<and> (\<forall>n \<in> children c nodes. child_keeps d (set (body_ids c nodes) \<union> P) n)"

lemma planned_confined:
  assumes "planContainerBody c nodes edges = Inr plan" and "keeps_inside d c nodes P"
  shows "confined d plan (set (body_ids c nodes) \<union> P)"
  using planned_children [OF assms(1)] assms(2) node_map_id node_map_in
  unfolding confined_def keeps_inside_def children_def by fastforce

section \<open>What a run of a container touches\<close>

text \<open>
  As \<open>inside\<close>, but the container's own output may differ as well, and the rows it already had.
\<close>

definition container_only :: "string \<Rightarrow> string set \<Rightarrow> 'w run \<Rightarrow> 'w run \<Rightarrow> bool" where
  "container_only c S a b \<longleftrightarrow>
     length (ru_rows a) \<le> length (ru_rows b)
     \<and> (\<forall>i < length (ru_rows a). nr_nodeId (ru_rows b ! i) = nr_nodeId (ru_rows a ! i)
          \<and> (nr_nodeId (ru_rows a ! i) \<noteq> c \<longrightarrow> ru_rows b ! i = ru_rows a ! i))
     \<and> (\<forall>i. length (ru_rows a) \<le> i \<and> i < length (ru_rows b) \<longrightarrow> nr_nodeId (ru_rows b ! i) \<in> S)
     \<and> (\<forall>k. k \<notin> insert c S \<longrightarrow> map_of (ru_outputs b) k = map_of (ru_outputs a) k)
     \<and> set (ru_executed a) \<subseteq> set (ru_executed b) \<and> set (ru_executed b) \<subseteq> set (ru_executed a) \<union> S"

lemma inside_container_only:
  assumes "inside S a b"
  shows "container_only c S a b"
proof -
  obtain new where new: "ru_rows b = ru_rows a @ new" "nr_nodeId ` set new \<subseteq> S"
    using assms unfolding inside_def by blast
  have "nr_nodeId (ru_rows b ! i) \<in> S" if "length (ru_rows a) \<le> i" "i < length (ru_rows b)" for i
  proof -
    have "new ! (i - length (ru_rows a)) \<in> set new" using that by (intro nth_mem) (simp add: new(1))
    then show ?thesis using that new by (auto simp: nth_append)
  qed
  then show ?thesis using assms new(1) by (auto simp: container_only_def inside_def nth_append)
qed

lemma finish_container_fields [simp]:
  "ru_rows (finish_container d n s v m st) = ru_rows st"
  "ru_executed (finish_container d n s v m st) = ru_executed st"
  "ru_outputs (finish_container d n s v m st) = jput (node_id n) v (ru_outputs st)"
  by (auto simp: finish_container_def Let_def split: prod.splits)

lemma with_output_only:
  assumes "with_output d n s output metrics m = Some (r, st')" and "\<And>q st1. m = Some (q, st1) \<Longrightarrow> inside S st st1"
  shows "container_only (node_id n) S st st'"
proof -
  obtain q st1 where m: "m = Some (q, st1)" using assms(1) by (auto simp: with_output_def)
  have "container_only (node_id n) S st st1" by (rule inside_container_only [OF assms(2) [OF m]])
  then show ?thesis
    using assms(1) m by (auto simp: with_output_def container_only_def split: sum.splits prod.splits)
qed

lemma runContainerInner_only:
  assumes "runContainerInner d n nodes edges st = Some (r, st')" and "keeps_inside d n nodes P"
  shows "container_only (node_id n) (set (body_ids n nodes) \<union> P) st st'"
proof (cases "plan_container d n nodes edges")
  case (Inl m)
  then show ?thesis using assms(1) by (auto simp: runContainerInner_def intro: inside_container_only [OF inside_refl])
next
  case (Inr plan)
  then have "planContainerBody n nodes edges = Inr plan" by (auto simp: plan_container_def bindE_Inr_iff)
  note confined = planned_confined [OF this assms(2)]
  show ?thesis
    using assms(1) Inr
    by (auto simp: runContainerInner_def Let_def split: if_splits
        intro: inside_container_only [OF inside_refl]
          with_output_only [OF _ run_foreach_inside [OF _ confined]] with_output_only [OF _ run_loop_inside [OF _ confined]])
qed

lemma latest_row_of:
  "latest_row v rows = Some i \<Longrightarrow> i < length rows \<and> nr_nodeId (rows ! i) = v"
proof -
  assume "latest_row v rows = Some i"
  then have "filter (\<lambda>i. nr_nodeId (rows ! i) = v) [0..<length rows] \<noteq> []"
    and "i = last (filter (\<lambda>i. nr_nodeId (rows ! i) = v) [0..<length rows])"
    by (auto simp: latest_row_def split: list.splits)
  then have "i \<in> set (filter (\<lambda>i. nr_nodeId (rows ! i) = v) [0..<length rows])" by (metis last_in_set)
  then show ?thesis by simp
qed

lemma fail_container_only:
  assumes "container_only (node_id n) S a b"
  shows "container_only (node_id n) S a (fail_container d n e b)"
proof (cases "latest_row (node_id n) (ru_rows b)")
  case None
  then show ?thesis using assms by (simp add: fail_container_def container_only_def emit_def)
next
  case (Some i)
  note i = latest_row_of [OF Some]
  show ?thesis
    using assms i Some unfolding container_only_def fail_container_def Let_def
    by (auto simp: nth_list_update)
qed

text \<open>C14. A run of a container touches its children, what they call, and itself only: it adds rows for
  children alone and for the nodes that the Parallels of its body and the workflows it calls work on
  (\<open>P\<close>; none, when the body has neither), changes no earlier row that is not the container's own, writes no
  output but theirs and its own, and marks only them as executed. So a container nested in the body runs its
  own body only inside a branch of a Parallel.\<close>

theorem container_touches:
  assumes "runContainer d n nodes edges st = Some (r, st')" and "keeps_inside d n nodes P"
  shows "container_only (node_id n) (set (body_ids n nodes) \<union> P) st st'"
proof -
  obtain q st1 where inner: "runContainerInner d n nodes edges st = Some (q, st1)"
    using assms(1) by (auto simp: runContainer_def)
  have only: "container_only (node_id n) (set (body_ids n nodes) \<union> P) st st1"
    by (rule runContainerInner_only [OF inner assms(2)])
  have "st' = st1 \<or> (\<exists>e. st' = fail_container d n e st1)"
    using assms(1) inner by (auto simp: runContainer_def split: sum.splits exn.splits)
  then show ?thesis using only fail_container_only [OF only] by blast
qed

section \<open>A run of a container returns\<close>

lemma coerced_finite: "coerceContainerNumber h v f t = Inr x \<Longrightarrow> is_fin x"
  by (auto simp: coerceContainerNumber_def Let_def param_error_def unresolvedExpressionError_def
      split: jsval.splits if_splits sum.splits)

lemma coerced_limit:
  assumes "coerceContainerNumberOptional h v f t = Inr most"
  shows "loop_limit most \<noteq> NaN"
proof (cases most)
  case None
  then show ?thesis by (simp add: loop_limit_def DEFAULT_MAX_ITERATIONS_def)
next
  case (Some x)
  then have "coerceContainerNumber h v f t = Inr x"
    using assms by (cases "coerceContainerNumber h v f t") (auto simp: coerceContainerNumberOptional_def split: if_splits)
  then have "is_fin x" by (rule coerced_finite)
  then show ?thesis using Some by (cases x) (auto simp: loop_limit_def)
qed

text \<open>
  What a run asks of the children: their retries are bounded, and where they are Parallels, their branches end.
\<close>

definition child_returns :: "'w body_driver \<Rightarrow> node \<Rightarrow> bool" where
  "child_returns d n \<longleftrightarrow>
     bounded_retries (bd_host d) n
     \<and> (bd_parallelV1 d \<and> bd_kind d (node_type n) = KParallel \<longrightarrow> (\<forall>plan v reachable st. bd_parallel d n plan v reachable st \<noteq> None))"

lemma visit_child_returns:
  assumes "\<And>n. map_of (bp_nodeMap plan) nodeId = Some n \<Longrightarrow> child_returns d n"
  shows "visit_child d c plan v nodeId pg st \<noteq> None"
proof -
  have "run_child d c plan v nodeId n pg st \<noteq> None" if "child_returns d n" for n
    using that executeNode_returns [of "bd_env d" n]
    by (auto simp: run_child_def Let_def child_returns_def simp del: not_None_eq split: option.splits prod.splits sum.splits)
  then show ?thesis using assms by (auto simp: visit_child_def simp del: not_None_eq split: option.splits)
qed

lemma body_nodes_returns:
  assumes "\<And>v n. v \<in> set (bp_sortedNodeIds plan) \<Longrightarrow> map_of (bp_nodeMap plan) v = Some n \<Longrightarrow> child_returns d n"
  shows "set ids \<subseteq> set (bp_sortedNodeIds plan) \<Longrightarrow> body_nodes d c plan v ids pg st \<noteq> None"
proof (induction ids arbitrary: pg st)
  case (Cons a ids)
  have "visit_child d c plan v a pg st \<noteq> None"
    by (rule visit_child_returns) (use assms Cons.prems in auto)
  then show ?case using Cons by (auto split: sum.splits)
qed simp

lemma executeContainerBody_returns:
  assumes "\<And>v n. v \<in> set (bp_sortedNodeIds plan) \<Longrightarrow> map_of (bp_nodeMap plan) v = Some n \<Longrightarrow> child_returns d n"
  shows "executeContainerBody d c plan v st \<noteq> None"
  using body_nodes_returns [of plan d "bp_sortedNodeIds plan" c v, OF assms]
  by (auto simp: executeContainerBody_def Let_def simp del: not_None_eq split: option.splits prod.splits sum.splits)

lemma foreach_items_returns:
  "(\<And>v s. body v s \<noteq> None) \<Longrightarrow> foreach_items h code_of policy collect body n i items res st \<noteq> None"
proof (induction items arbitrary: i res st)
  case (Cons item rest)
  obtain q st1 where "body item (st\<lparr>ru_item := Some \<lparr>ic_item = item, ic_index = i, ic_isFirst = (i = 0),
      ic_isLast = (Suc i = n)\<rparr>\<rparr>) = Some (q, st1)"
    using Cons.prems by (metis not_None_eq surj_pair)
  then show ?case using Cons by (auto split: sum.splits exn.splits)
qed simp

lemma loop_execute_returns:
  assumes "\<And>v s. body v s \<noteq> None" and "is_fin cnt" and "iterations_of cnt \<le> 2 ^ 53" and "loop_limit most \<noteq> NaN"
  shows "loop_execute cnt most stop body st \<noteq> None"
  using rounds_returns [of body, OF assms(1)] by (simp add: loop_execute_rounds [OF assms(2-4)] del: not_None_eq)

lemma with_output_returns: "m \<noteq> None \<Longrightarrow> with_output d n s output metrics m \<noteq> None"
  by (simp add: with_output_def del: not_None_eq)

lemma runContainer_returns:
  assumes "\<And>m. m \<in> children n nodes \<Longrightarrow> child_returns d m"
    and "\<And>cnt. coerceContainerNumber (bd_host d) (prop_of (bd_host d) (readEngineResolvedConfig n st) ''count'') ''count'' ''loop''
        = Inr cnt \<Longrightarrow> node_type n = ''loop'' \<Longrightarrow> iterations_of cnt \<le> 2 ^ 53"
  shows "\<exists>r st'. runContainer d n nodes edges st = Some (r, st')"
proof -
  have "runContainerInner d n nodes edges st \<noteq> None"
  proof (cases "plan_container d n nodes edges")
    case (Inr plan)
    then have "planContainerBody n nodes edges = Inr plan" by (auto simp: plan_container_def bindE_Inr_iff)
    note planned = planned_children [OF this]
    have "child_returns d m" if "v \<in> set (bp_sortedNodeIds plan)" and "map_of (bp_nodeMap plan) v = Some m" for v m
    proof (rule assms(1))
      have "map_of (node_map nodes) v = Some m" using that(2) planned by simp
      then show "m \<in> children n nodes"
        using that(1) planned node_map_id [of nodes v m] node_map_in [of nodes v m] by (simp add: children_def)
    qed
    then have body: "executeContainerBody d n plan v s \<noteq> None" for v s
      by (rule executeContainerBody_returns)
    have foreach: "run_foreach d n plan st \<noteq> None"
      using foreach_items_returns [OF body] by (simp add: run_foreach_def foreach_execute_def split: sum.split)
    have loop: "run_loop d n plan st \<noteq> None" if "node_type n = ''loop''"
      using assms(2) [OF _ that] coerced_finite coerced_limit loop_execute_returns [OF body]
      by (auto simp: run_loop_def Let_def bindE_Inr_iff split: sum.splits)
    show ?thesis
      using with_output_returns [OF foreach] with_output_returns [OF loop] Inr
      by (simp add: runContainerInner_def Let_def del: not_None_eq)
  qed (simp add: runContainerInner_def)
  then show ?thesis by (auto simp: runContainer_def)
qed


section \<open>A container whose child is skipped\<close>

text \<open>A child of an unknown type with the policy \<open>skip_node\<close>, alone in the body of a ForEach.\<close>

definition bare_body :: "nat body_driver" where
  "bare_body = \<lparr>bd_env = dr_env bare_driver, bd_guard = (\<lambda>r. (Inr (), r)), bd_kind = (\<lambda>_. KStandard), bd_parallelV1 = True,
     bd_depth = 1, bd_parallel = (\<lambda>_ _ _ reach r. Some (Inr (reach, []), r)), bd_codeOf = (\<lambda>_. JUndef)\<rparr>"

definition skip_child :: node where
  "skip_child = (skipping_node ''a'')\<lparr>node_containerId := Some ''c''\<rparr>"

definition one_child :: "node \<times> node list \<times> graph_edge list" where
  "one_child = (let c = child_of None ''foreach'' ''c'' in (c, [c, skip_child], [wire ''c'' ''body'' ''a'' ''in'', wire ''a'' ''out'' ''c'' ''emit'']))"

lemma bare_body_fields [simp]:
  "bd_env bare_body = dr_env bare_driver" "bd_guard bare_body r = (Inr (), r)" "bd_kind bare_body t = KStandard"
  "bd_parallel bare_body n plan v reach r = Some (Inr (reach, []), r)"
  by (simp_all add: bare_body_def)

lemma one_child_children: "children (fst one_child) (fst (snd one_child)) = {skip_child}"
proof -
  have ids: "set (body_ids (fst one_child) (fst (snd one_child))) = {''a''}"
    and other: "node_id (fst one_child) = ''c''" "node_id skip_child = ''a''" by code_simp+
  have nodes: "set (fst (snd one_child)) = {fst one_child, skip_child}" by (simp add: one_child_def Let_def)
  show ?thesis unfolding children_def ids nodes by (auto simp: other)
qed

lemma skip_child_returns: "m \<in> children (fst one_child) (fst (snd one_child)) \<Longrightarrow> child_returns bare_body m"
  by (simp add: one_child_children child_returns_def bounded_retries_def bare_driver_def failing_env_def no_process_def
      skip_child_def skipping_node_def failing_policy)

lemma bare_keeps: "keeps_inside bare_body n nodes P"
  by (simp add: keeps_inside_def inside_refl child_keeps_def handler_touches_def bare_driver_def)

definition with_items :: "jsval list \<Rightarrow> nat run" where
  "with_items vs = empty_run\<lparr>ru_structured := [(''c'', success_output (JArr 0 vs))]\<rparr>"


theorem container_touches_witness:
  "\<exists>r st'. runContainer bare_body (fst one_child) (fst (snd one_child)) (snd (snd one_child)) (with_items [JNull, JNull]) = Some (r, st')
    \<and> container_only ''c'' {''a''} (with_items [JNull, JNull]) st'"
proof -
  let ?n = "fst one_child"
  obtain r st' where run: "runContainer bare_body ?n (fst (snd one_child)) (snd (snd one_child)) (with_items [JNull, JNull])
      = Some (r, st')"
  proof -
    have "node_type ?n \<noteq> ''loop''" by (simp add: one_child_def child_of_def Let_def)
    then have "\<exists>r st'. runContainer bare_body ?n (fst (snd one_child)) (snd (snd one_child)) (with_items [JNull, JNull]) = Some (r, st')"
      by (intro runContainer_returns skip_child_returns) simp_all
    then show ?thesis using that by blast
  qed
  moreover have "set (body_ids ?n (fst (snd one_child))) = {''a''}" "node_id ?n = ''c''" by code_simp+
  ultimately show ?thesis using container_touches [OF run bare_keeps, of "{}"] by auto
qed

definition one_child_plan :: body_plan where
  "one_child_plan = \<lparr>bp_childIds = [''a''], bp_bodyEntryNodeIds = [''a''], bp_emitSourceNodeId = ''a'', bp_internalEdges = [],
     bp_sortedNodeIds = [''a''], bp_outgoingEdgeMap = [], bp_nodeMap = [(''c'', fst one_child), (''a'', skip_child)],
     bp_allNodes = fst (snd one_child), bp_allEdges = snd (snd one_child)\<rparr>"

lemma one_child_planned:
  "planContainerBody (fst one_child) (fst (snd one_child)) (snd (snd one_child)) = Inr one_child_plan"
  by code_simp

lemma skip_child_execute:
  "\<exists>r. executeNode (dr_env bare_driver) nm skip_child inp out st = Some (Inr (), r) \<and> ru_outputs r = ru_outputs st
     \<and> nr_status (last (ru_rows r)) = NodeSkipped"
  by (simp add: skip_child_def executeNode_def run_node_def prepare_node_def get_handler_def bare_driver_def failing_env_def
      no_process_def catch_node_def isAbortError_def apply_policy_def Let_def handleError_def skipping_node_def failing_policy
      createNodeExecution_def settle_row_def split: prod.splits if_splits)

text \<open>When the node at the emit port is skipped by its error policy, the iteration collects the output of an
  earlier iteration: the node counts as reached, and its last output is still in the cache.\<close>

theorem skipped_emit_collects_stale:
  assumes "map_of (ru_outputs st) ''a'' = Some (JNum x)"
  shows "\<exists>st'. executeContainerBody bare_body (fst one_child) one_child_plan input st = Some (Inr (JNum x), st')
    \<and> nr_status (last (ru_rows st')) = NodeSkipped"
proof -
  obtain inp objs where gather: "gatherNodeInput (ne_host (dr_env bare_driver)) ''a'' [] (ru_executed st) (ru_outputs st) input [] (ru_objs st)
      = (inp, objs)" by fastforce
  obtain r where run: "executeNode (dr_env bare_driver) (bp_nodeMap one_child_plan) skip_child inp [] (st\<lparr>ru_objs := objs\<rparr>)
      = Some (Inr (), r)" and r: "ru_outputs r = ru_outputs (st\<lparr>ru_objs := objs\<rparr>)" "nr_status (last (ru_rows r)) = NodeSkipped"
    using skip_child_execute by blast
  have child: "node_id skip_child = ''a''" "\<not> node_isDisabled skip_child" "node_type skip_child = ''fail''"
    by (simp_all add: skip_child_def skipping_node_def failing_node_def)
  have "\<not> is_waiting h (JNum x)" for h by (simp add: is_waiting_def js_get_def)
  then show ?thesis
    using gather run r assms child
    by (simp add: executeContainerBody_def one_child_plan_def seed_reachable_def visit_child_def run_child_def Let_def
        propagateReachability_def jget_or_def unwrapEngineFlatValue_def isWrappedValueEnvelope_def)
qed

end
