(* ===== verification/Spec2Isabelle.thy ===== *)
theory Spec2Isabelle
  imports Engine Resolver GraphWarnings Dispatch ExecutionGuards Container
begin

text \<open>
  \<^bold>\<open>Clemvion: the core of a workflow system.\<close> A workflow is a graph of nodes; a user draws it, the save
  endpoint checks it, and the execution engine walks it, executes its nodes, hands the output of a
  node to its successors, waits for people and language models, and keeps the state of each execution in
  a database. Templates in the configuration of nodes are written in a small expression language.
  Paths below are under \<open>src/codebase/\<close>.

  \<^bold>\<open>Parts and theories.\<close>

  \<^item> \<^emph>\<open>The expression language\<close> (\<open>packages/expression-engine/src\<close>). \<open>Tokenizer\<close>, \<open>Parser\<close>,
    \<open>Evaluator\<close>, \<open>Builtins\<close> and \<open>Engine\<close> model \<open>tokenizer.ts\<close>, \<open>parser.ts\<close>, \<open>evaluator.ts\<close>,
    \<open>functions/*.ts\<close> and \<open>index.ts\<close>, with the errors of \<open>ExprError\<close>; \<open>JsNumber\<close>, \<open>NumText\<close>,
    \<open>JsValue\<close> and \<open>Json\<close> hold the part of JavaScript they use (doubles as rationals with explicit
    rounding, numbers as text, values with identities, \<open>JSON.parse\<close>). A throwing method is a function
    into \<open>error + result\<close>; the evaluator threads its counters (identities, clock readings) as state.
    The facts are in \<open>TokenizerFacts\<close>, \<open>ParserFacts\<close> and \<open>EvaluatorFacts\<close>: the shape of token lists,
    totality and guardedness of parsing, which errors evaluation can raise, symmetry of equality, chains
    of property accesses, exactness of the limits.
  \<^item> \<^emph>\<open>The graph\<close> (\<open>backend/src/modules/execution-engine/graph\<close>). \<open>Graph\<close>, \<open>Cycles\<close>, \<open>Topo\<close> and
    \<open>Traversal\<close> model building, cycle detection and back edges, Kahn's sort, edge indexes, reachability
    and the bodies of Parallel nodes. \<open>Dfs\<close> is the depth-first search that three of them and the
    warning rules share, with its correctness proved once in a locale. \<open>GraphWarnings\<close> is
    \<open>packages/graph-warning-rules\<close>, which the save endpoint and the canvas evaluate.
  \<^item> \<^emph>\<open>Node execution\<close> (\<open>execution-engine.service.ts\<close> and its helpers). \<open>NodeOutput\<close> is the contract
    between handlers and engine, \<open>Resolver\<close> resolves the templates of a configuration against the context
    that the caches of the run give, \<open>ErrorPolicy\<close> is the retry loop and the error policies, \<open>NodeRun\<close> the
    method \<open>executeNode\<close> on the state of a run (rows, events, output caches), and \<open>Dispatch\<close> the loading of
    a graph and the dispatch loop that walks it.
  \<^item> \<^emph>\<open>Containers\<close> (Loop, ForEach, Map and Parallel nodes, which run other nodes as their body).
    \<open>ContainerPlan\<close> is the checks before a container runs: which node enters the body, which one emits, in
    which order the body runs. \<open>ContainerLoops\<close> is the executors under \<open>containers/\<close>, which iterate a body
    given as an argument. \<open>ParallelPlan\<close> is the check of the branches of a Parallel, nested ones included,
    and of the body of a container for Parallels inside it; its recursive methods are proved to end, and to
    accept exactly the graphs without a forbidden node. \<open>Container\<close> composes them: the body of a
    container run on the state of the run, with skip, progress and break conditions, and \<open>runContainer\<close>,
    which marks the row of a container that failed. Its locale \<open>iterated_body\<close> states what an iteration
    promises to the executors (it changes no caches outside the body); the interpretation \<open>confined_body\<close>
    discharges it for the body that the engine builds.
  \<^item> \<^emph>\<open>The rows of executions\<close>. \<open>ExecutionState\<close> is the state machine (\<open>state/state-machine.ts\<close>), the
    limits and the duration of an execution; \<open>ExecutionRows\<close> is every writer of the status of an
    execution: the engine's transitions, the guarded updates, admission, Stop, shutdown and the end of a
    retried turn, each as a function on a shared database whose arguments may be stale.
    \<open>ExecutionGuards\<close> proves what holds of all of them together: its locale \<open>interference\<close> says what any
    interleaving of writers keeps, and is interpreted on the relation of all their steps.

  \<^bold>\<open>How the model follows the code.\<close> Every operation is one definition, with the code's guards, early
  returns and order of effects. Loops are structural where the code iterates a list. The parser's
  methods take a bound, which \<open>parse\<close> sets from the number of tokens and which is proved never to be
  reached; the evaluator is structural on syntax trees. The retry loop, the dispatch loop, the body of
  a container and the iterations of a Loop, which counts in doubles, may run for ever and are partial
  functions, with separate theorems that they return (a Loop when its count is at most \<open>2 ^ 53\<close>, from
  where adding one no longer counts). Handlers of node types,
  the clock, and library code (Unicode case mapping, collation, \<open>dayjs\<close>, regular expressions) are
  arguments of the definitions that use them.

  \<^bold>\<open>Not modelled.\<close> The user interfaces, software development kits and channel adapters; the handlers
  of presentation, AI and integration nodes (remote services, language models, tables of vendor
  metadata); accounts, storage of workflows, secrets, knowledge bases, monitoring (queries and network
  code); parking and resumption inside the dispatch loop (a parameter of the loop) and the concurrent
  run of the branches of a Parallel (its plan is modelled, its interleaving is not). Messages of the log,
  notifications and the delivery of events are left out; a write to the database succeeds.
\<close>

section \<open>Parsing\<close>

text \<open>Parsing is total: the recursive-descent parser never exhausts the bound that \<open>parse\<close>
  gives it, so every token list has a syntax tree or a syntax error.\<close>

theorem parse_total: "parse ts \<noteq> Inl NoFuel"
  by (rule parse_no_NoFuel)

text \<open>C31. In every syntax tree the parser returns, each optional step lies inside the
  \<open>ChainExpression\<close> that catches its short-circuit signal.\<close>

theorem parse_guarded: "parse ts = Inr a \<Longrightarrow> guarded False a"
  by (rule parse_guarded_ast)

theorem parse_guarded_witness:
  "guarded False (ChainExpression (MemberExpression (Identifier ''a'') ''b'' True))"
proof -
  have "parse [Token TExprStart ''{{'' 0, Token TIdentifier ''a'' 2, Token TQuestionDot ''?.'' 3,
      Token TIdentifier ''b'' 5, Token TExprEnd ''}}'' 6, Token TEOF '''' 8]
    = Inr (ChainExpression (MemberExpression (Identifier ''a'') ''b'' True))"
    by code_simp
  then show ?thesis by (rule parse_guarded)
qed

section \<open>The workflow graph\<close>

text \<open>C27. Cycle detection is exact: it reports a cycle when the edges between the given nodes have
  one and only then, and the path it reports is a closed walk along those edges.\<close>

theorem detectCycle_correct:
  "hasCycle (detectCycle nodes edges) = (\<not> acyclic (graph_rel nodes edges))
   \<and> (case cyclePath (detectCycle nodes edges) of
        Some p \<Rightarrow> hasCycle (detectCycle nodes edges) \<and> closed_walk (graph_rel nodes edges) p
      | None \<Rightarrow> \<not> hasCycle (detectCycle nodes edges))"
  by (rule detectCycle_facts)

text \<open>C25. The topological sort fails exactly on the cyclic graphs; otherwise it lists every node
  once and every node after all its predecessors.\<close>

theorem topologicalSort_correct:
  "case topologicalSort nodes edges of
     Inl e \<Rightarrow> e = cycle_error \<and> \<not> acyclic (graph_rel nodes edges)
   | Inr res \<Rightarrow> acyclic (graph_rel nodes edges) \<and> distinct res \<and> set res = gn_id ` set nodes
       \<and> in_order (graph_rel nodes edges) res"
  by (rule topologicalSort_facts)

text \<open>C22. Removing the back edges makes every graph sortable: the edges split into forward and back
  edges, the sort of the forward edges never fails, and from the target of each back edge forward
  edges lead to its source.\<close>

theorem forward_edges_sortable:
  "(\<exists>order. topologicalSort nodes (forwardEdges (identifyBackEdges nodes edges)) = Inr order)
   \<and> mset (forwardEdges (identifyBackEdges nodes edges)) + mset (backEdges (identifyBackEdges nodes edges))
       = mset edges
   \<and> set (backEdges (identifyBackEdges nodes edges))
       \<subseteq> {e. (targetNodeId e, sourceNodeId e)
              \<in> (graph_rel nodes (forwardEdges (identifyBackEdges nodes edges)))\<^sup>*}"
proof -
  have "\<exists>order. topologicalSort nodes (forwardEdges (identifyBackEdges nodes edges)) = Inr order"
    using topologicalSort_facts [of nodes "forwardEdges (identifyBackEdges nodes edges)"] forwardEdges_acyclic
    by (auto split: sum.splits)
  moreover have "mset (forwardEdges (identifyBackEdges nodes edges)) + mset (backEdges (identifyBackEdges nodes edges))
      = mset edges"
    by (rule back_edge_partition)
  ultimately show ?thesis using backEdges_close_cycles by blast
qed

text \<open>The graph that the engine runs is closed: both ends of every edge of \<open>buildGraph\<close> are nodes
  of its result, which are the given nodes outside every container and tool area.\<close>

theorem buildGraph_top_level:
  "map gn_id (fst (buildGraph nodes edges)) = map node_id (filter is_top_level nodes)
   \<and> set (snd (buildGraph nodes edges))
     = {e \<in> set edges. sourceNodeId e \<in> gn_id ` set (fst (buildGraph nodes edges))
          \<and> targetNodeId e \<in> gn_id ` set (fst (buildGraph nodes edges))}"
  by (auto simp: buildGraph_def Let_def image_image)

text \<open>C26. The branches of a Parallel node: a node belongs to branch \<open>i\<close> when a target of the port
  \<open>branch_i\<close> leads to it and no target of another branch does; it is a join when two branches lead
  to it. So the branches are disjoint, and none contains a join.\<close>

theorem parallel_membership:
  "length (bodyNodeIdsPerBranch (collectParallelBranchMembership p edges n)) = n
   \<and> (\<forall>i. map_option set (char_at (bodyNodeIdsPerBranch (collectParallelBranchMembership p edges n)) i)
       = (if i < n then Some {v. {j. j < n \<and> v \<in> branch_reach p edges j} = {i}} else None))
   \<and> set (joinNodeIds (collectParallelBranchMembership p edges n))
       = {v. \<exists>i j. i < j \<and> j < n \<and> v \<in> branch_reach p edges i \<inter> branch_reach p edges j}"
proof -
  have "{v \<in> branch_reach p edges i. \<forall>j < n. j \<noteq> i \<longrightarrow> v \<notin> branch_reach p edges j}
      = {v. {j. j < n \<and> v \<in> branch_reach p edges j} = {i}}" if "i < n" for i
    using that by auto
  then show ?thesis using membership_facts(1,3) [of p edges n] membership_facts(2) [of _ n p edges]
    by (simp add: char_at_def)
qed

end
